(* ===== verification/Prelude.thy ===== *)
theory Prelude
  imports Main "HOL-Library.AList" "HOL-Library.Char_ord" "HOL-Library.List_Lexorder"
begin

text \<open>
  Shared vocabulary of the development: the Go library functions the sources use on strings
  and errors, instants, the identifiers exchanges carry, and the lemmas on association lists
  and searches that the component theories rely on.

  A Go string or byte slice is a \<^typ>\<open>string\<close>, a list of bytes. A Go map is an association
  list without repeated keys where the code ranges over it, and a partial function where it
  does not. A Go error is a value of \<open>err\<close>; a nil error is \<open>None\<close>. A function that returns
  a value and an error returns a sum, with \<open>Inl\<close> for the error.
\<close>

named_theorems go_defs
  \<comment> \<open>the definitions of the library functions below, for unfolding on concrete arguments\<close>

section \<open>Strings\<close>

definition has_prefix :: "string \<Rightarrow> string \<Rightarrow> bool" where
  "has_prefix s p \<longleftrightarrow> take (length p) s = p"

definition has_suffix :: "string \<Rightarrow> string \<Rightarrow> bool" where
  "has_suffix s p \<longleftrightarrow> length p \<le> length s \<and> drop (length s - length p) s = p"

definition trim_prefix :: "string \<Rightarrow> string \<Rightarrow> string" where
  "trim_prefix s p = (if has_prefix s p then drop (length p) s else s)"

definition trim_suffix :: "string \<Rightarrow> string \<Rightarrow> string" where
  "trim_suffix s p = (if has_suffix s p then take (length s - length p) s else s)"

text \<open>
  The UTF-8 forms of the characters Go's unicode.IsSpace accepts: the ASCII ones, U+0085,
  U+00A0, U+1680, U+2000 to U+200A, U+2028, U+2029, U+202F, U+205F and U+3000.
\<close>

definition spaces :: "string list" where
  "spaces = map (map (char_of :: nat \<Rightarrow> char))
     ([[9], [10], [11], [12], [13], [32], [0xC2, 0x85], [0xC2, 0xA0], [0xE1, 0x9A, 0x80]]
      @ map (\<lambda>b. [0xE2, 0x80, b]) ([0x80 ..< 0x8B] @ [0xA8, 0xA9, 0xAF])
      @ [[0xE2, 0x81, 0x9F], [0xE3, 0x80, 0x80]])"

lemma spaces_nonempty: "w \<in> set spaces \<Longrightarrow> 0 < length w"
  by (auto simp: spaces_def)

definition leading_space :: "string list \<Rightarrow> string \<Rightarrow> string option" where
  "leading_space ws s = find (\<lambda>w. w \<noteq> [] \<and> has_prefix s w) ws"

lemma leading_space_Some: "leading_space ws s = Some w \<Longrightarrow> w \<noteq> [] \<and> has_prefix s w"
  by (auto simp: leading_space_def find_Some_iff)

lemma has_prefix_length: "has_prefix s p \<Longrightarrow> length p \<le> length s"
  unfolding has_prefix_def by (metis length_take min.cobounded1)

function strip_left :: "string list \<Rightarrow> string \<Rightarrow> string" where
  "strip_left ws s =
     (case leading_space ws s of None \<Rightarrow> s | Some w \<Rightarrow> strip_left ws (drop (length w) s))"
  by pat_completeness auto
termination
proof (relation "measure (\<lambda>(ws, s). length s)")
  fix ws s w
  assume "leading_space ws s = Some w"
  then have "w \<noteq> []" and "length w \<le> length s"
    by (auto dest: leading_space_Some has_prefix_length)
  then show "((ws, drop (length w) s), ws, s) \<in> measure (\<lambda>(ws, s). length s)"
    by (cases w) auto
qed simp

declare strip_left.simps [simp del]

text \<open>strings.TrimSpace, and bytes.TrimSpace alike.\<close>

definition trim_space :: "string \<Rightarrow> string" where
  "trim_space s = rev (strip_left (map rev spaces) (rev (strip_left spaces s)))"

lemma leading_space_Nil [simp]: "leading_space ws [] = None"
  by (auto simp: leading_space_def has_prefix_def find_None_iff)

lemma strip_left_Nil [simp]: "strip_left ws [] = []"
  by (simp add: strip_left.simps)

lemma trim_space_Nil [simp]: "trim_space [] = []"
  by (simp add: trim_space_def)

text \<open>Text between printable ASCII characters is trimmed already.\<close>

definition printable :: "char \<Rightarrow> bool" where
  "printable c \<longleftrightarrow> 32 < (of_char c :: nat) \<and> (of_char c :: nat) < 127"

lemma spaces_unprintable: "w \<in> set spaces \<Longrightarrow> \<not> printable (hd w) \<and> \<not> printable (last w)"
  by (auto simp: spaces_def printable_def)

lemma strip_left_printable:
  assumes "\<forall>w \<in> set ws. w \<noteq> [] \<longrightarrow> \<not> printable (hd w)" "printable (hd s)"
  shows "strip_left ws s = s"
proof -
  have "leading_space ws s = None"
    using assms by (cases s) (auto simp: leading_space_def find_None_iff has_prefix_def neq_Nil_conv)
  then show ?thesis by (simp add: strip_left.simps)
qed

lemma trim_space_printable:
  assumes "printable (hd s)" "printable (last s)" "s \<noteq> []"
  shows "trim_space s = s"
proof -
  have "strip_left spaces s = s" by (rule strip_left_printable) (use assms spaces_unprintable in auto)
  moreover have "strip_left (map rev spaces) (rev s) = rev s"
    by (rule strip_left_printable) (use assms spaces_unprintable in \<open>auto simp: hd_rev\<close>)
  ultimately show ?thesis by (simp add: trim_space_def)
qed

lemma trim_space_blank: "trim_space (CHR '' '' # s) = trim_space s"
proof -
  have "CHR '' '' = char_of n \<longleftrightarrow> n mod 256 = 32" for n :: nat
    using char_of_eq_iff[of n "CHR '' ''"] by (auto simp: take_bit_eq_mod)
  moreover have "char_of (32 :: nat) = CHR '' ''" by code_simp
  ultimately have "leading_space spaces (CHR '' '' # s) = Some '' ''"
    by (simp add: leading_space_def spaces_def has_prefix_def)
  then have "strip_left spaces (CHR '' '' # s) = strip_left spaces s"
    by (subst strip_left.simps) simp
  then show ?thesis by (simp add: trim_space_def)
qed

text \<open>strings.Fields: the runs between white space.\<close>

fun fields_from :: "nat \<Rightarrow> string \<Rightarrow> string \<Rightarrow> string list" where
  "fields_from 0 w s = (if w = [] then [] else [w])"
| "fields_from (Suc n) w [] = (if w = [] then [] else [w])"
| "fields_from (Suc n) w (c # s) =
     (case leading_space spaces (c # s) of
        Some sp \<Rightarrow> (if w = [] then [] else [w]) @ fields_from n [] (drop (length sp) (c # s))
      | None \<Rightarrow> fields_from n (w @ [c]) s)"

definition fields :: "string \<Rightarrow> string list" where
  "fields s = fields_from (length s) [] s"

fun join :: "string \<Rightarrow> string list \<Rightarrow> string" where
  "join sep [] = []"
| "join sep [w] = w"
| "join sep (w # v # ws) = w @ sep @ join sep (v # ws)"

definition to_lower_ascii :: "string \<Rightarrow> string" where
  "to_lower_ascii s = map (\<lambda>c. if CHR ''A'' \<le> c \<and> c \<le> CHR ''Z''
                                then char_of (of_char c + 32 :: nat) else c) s"

definition contains :: "string \<Rightarrow> string \<Rightarrow> bool" where
  "contains s p \<longleftrightarrow> (\<exists>i \<in> set [0 ..< Suc (length s)]. has_prefix (drop i s) p)"

section \<open>Decimal text\<close>

fun digits_acc :: "nat \<Rightarrow> nat \<Rightarrow> string \<Rightarrow> string" where
  "digits_acc 0 n acc = acc"
| "digits_acc (Suc k) n acc =
     (let d = char_of (48 + n mod 10) in
      if n < 10 then d # acc else digits_acc k (n div 10) (d # acc))"

text \<open>strconv.Itoa on a number that is not negative, and on any number.\<close>

definition nat_text :: "nat \<Rightarrow> string" where
  "nat_text n = digits_acc (Suc n) n []"

definition int_text :: "int \<Rightarrow> string" where
  "int_text i = (if i < 0 then ''-'' @ nat_text (nat (- i)) else nat_text (nat i))"

text \<open>A number padded with zeros to a width, as the time layouts print it.\<close>

definition pad :: "nat \<Rightarrow> nat \<Rightarrow> string" where
  "pad w n = (let t = nat_text n in replicate (w - length t) (CHR ''0'') @ t)"

text \<open>
  strconv.Quote, the verb \<open>%q\<close>: quotes, backslashes and the control characters are escaped;
  a byte from 0x80 up is kept, as Quote keeps the printable characters it starts or continues.
\<close>

definition hex_digit :: "nat \<Rightarrow> char" where
  "hex_digit n = ''0123456789abcdef'' ! (n mod 16)"

definition quote_char :: "char \<Rightarrow> string" where
  "quote_char c =
     (let n = of_char c :: nat in
      if n = 34 then [CHR 0x5C, CHR 0x22]
      else if n = 0x5C then [CHR 0x5C, CHR 0x5C]
      else if n = 7 then CHR 0x5C # ''a''
      else if n = 8 then CHR 0x5C # ''b''
      else if n = 12 then CHR 0x5C # ''f''
      else if n = 10 then CHR 0x5C # ''n''
      else if n = 13 then CHR 0x5C # ''r''
      else if n = 9 then CHR 0x5C # ''t''
      else if n = 11 then CHR 0x5C # ''v''
      else if n < 32 \<or> n = 127 then CHR 0x5C # ''x'' @ [hex_digit (n div 16), hex_digit n]
      else [c])"

definition quote :: "string \<Rightarrow> string" where
  "quote s = [CHR 0x22] @ concat (map quote_char s) @ [CHR 0x22]"

section \<open>Instants\<close>

text \<open>
  An instant counts nanoseconds from Go's zero time, the first of January of year 1, so the
  zero time is 0. A time prints in the host's zone, which the model takes to be UTC.
\<close>

type_synonym time = int

abbreviation is_zero :: "time \<Rightarrow> bool" where
  "is_zero t \<equiv> t = 0"

definition unix_time :: "int \<Rightarrow> time" where
  "unix_time sec = (sec + 719162 * 86400) * 10 ^ 9"

definition civil_date :: "int \<Rightarrow> int \<times> int \<times> int" where
  "civil_date days =
     (let z = days + 306;
          era = z div 146097;
          doe = z mod 146097;
          yoe = (doe - doe div 1460 + doe div 36524 - doe div 146096) div 365;
          doy = doe - (365 * yoe + yoe div 4 - yoe div 100);
          mp = (5 * doy + 2) div 153;
          d = doy - (153 * mp + 2) div 5 + 1;
          m = (if mp < 10 then mp + 3 else mp - 9)
      in (yoe + era * 400 + (if m \<le> 2 then 1 else 0), m, d))"

text \<open>Time.Format with the layout time.RFC3339.\<close>

definition rfc3339 :: "time \<Rightarrow> string" where
  "rfc3339 t =
     (let sec = t div 10 ^ 9;
          (y, m, d) = civil_date (sec div 86400);
          s = sec mod 86400
      in pad 4 (nat y) @ ''-'' @ pad 2 (nat m) @ ''-'' @ pad 2 (nat d) @ ''T''
         @ pad 2 (nat (s div 3600)) @ '':'' @ pad 2 (nat (s div 60 mod 60)) @ '':''
         @ pad 2 (nat (s mod 60)) @ ''Z'')"

section \<open>Identifiers\<close>

text \<open>
  A UUID, by its 128-bit value. The nil UUID is \<open>Uuid 0\<close>. Version 7 identifiers start with
  their creation time, so the order of the values is the order of creation.
\<close>

datatype uuid = Uuid (uuid_val: nat)

definition uuid_nil :: uuid where
  "uuid_nil = Uuid 0"

instantiation uuid :: linorder
begin

definition less_eq_uuid :: "uuid \<Rightarrow> uuid \<Rightarrow> bool" where
  "less_eq_uuid a b \<longleftrightarrow> uuid_val a \<le> uuid_val b"

definition less_uuid :: "uuid \<Rightarrow> uuid \<Rightarrow> bool" where
  "less_uuid a b \<longleftrightarrow> uuid_val a < uuid_val b"

instance
  by standard (auto simp: less_eq_uuid_def less_uuid_def intro: uuid.expand)

end

fun hex_of :: "nat \<Rightarrow> nat \<Rightarrow> string" where
  "hex_of 0 n = []"
| "hex_of (Suc k) n = hex_of k (n div 16) @ [hex_digit n]"

text \<open>UUID.String: 32 hex digits in groups of 8, 4, 4, 4 and 12.\<close>

definition uuid_text :: "uuid \<Rightarrow> string" where
  "uuid_text u =
     (let h = hex_of 32 (uuid_val u) in
      take 8 h @ ''-'' @ take 4 (drop 8 h) @ ''-'' @ take 4 (drop 12 h) @ ''-''
      @ take 4 (drop 16 h) @ ''-'' @ drop 20 h)"

end
