(* ===== verification/Go_Errors.thy ===== *)
theory Go_Errors
  imports Prelude
begin

text \<open>
  Go error values. A package's sentinel (\<open>var ErrX = errors.New(...)\<close>) is told from another by
  its text, which differ between sentinels. \<open>Errorf\<close> is an error built by fmt.Errorf, with
  its rendered text and the errors its \<open>%w\<close> verbs wrap; \<open>Joined\<close> is errors.Join's. The two
  struct error types of the program are \<open>LimitErr\<close> (harness.LimitError) and \<open>CommandErr\<close>
  (the commandError of the Pi adapter).
\<close>

datatype err =
    Sentinel string
  | Msg string
  | LimitErr (resets_at: time) (limit_message: string)
  | CommandErr string string
  | Errorf string "err list"
  | Joined "err list"

definition usage_limit_text :: string where
  "usage_limit_text = ''harness: usage limit reached''"

definition ErrUsageLimit :: err where
  "ErrUsageLimit = Sentinel usage_limit_text"

fun err_text :: "err \<Rightarrow> string" where
  "err_text (Sentinel s) = s"
| "err_text (Msg s) = s"
| "err_text (LimitErr t m) =
     usage_limit_text
     @ (if m \<noteq> [] then '': '' @ m else [])
     @ (if \<not> is_zero t then '' (resets '' @ rfc3339 t @ '')'' else [])"
| "err_text (CommandErr c m) = ''pi: '' @ c @ '': '' @ m"
| "err_text (Errorf s es) = s"
| "err_text (Joined es) = join [CHR 0x0A] (map err_text es)"

text \<open>errors.Is for a sentinel target: the error itself, or one it wraps.\<close>

fun err_is :: "err \<Rightarrow> err \<Rightarrow> bool" where
  "err_is (Errorf s es) t \<longleftrightarrow> Errorf s es = t \<or> (\<exists>e \<in> set es. err_is e t)"
| "err_is (Joined es) t \<longleftrightarrow> Joined es = t \<or> (\<exists>e \<in> set es. err_is e t)"
| "err_is (LimitErr r m) t \<longleftrightarrow> LimitErr r m = t \<or> ErrUsageLimit = t"
| "err_is e t \<longleftrightarrow> e = t"

text \<open>errors.As for the two struct types: the first in preorder.\<close>

fun first_some :: "('a \<Rightarrow> 'b option) \<Rightarrow> 'a list \<Rightarrow> 'b option" where
  "first_some f [] = None"
| "first_some f (x # xs) = (case f x of Some y \<Rightarrow> Some y | None \<Rightarrow> first_some f xs)"

lemma first_some_cong [fundef_cong]:
  "xs = ys \<Longrightarrow> (\<And>x. x \<in> set ys \<Longrightarrow> f x = g x) \<Longrightarrow> first_some f xs = first_some g ys"
  by (induction ys arbitrary: xs) (auto split: option.splits)

fun as_limit :: "err \<Rightarrow> (time \<times> string) option" where
  "as_limit (LimitErr r m) = Some (r, m)"
| "as_limit (Errorf s es) = first_some as_limit es"
| "as_limit (Joined es) = first_some as_limit es"
| "as_limit e = None"

fun as_command :: "err \<Rightarrow> (string \<times> string) option" where
  "as_command (CommandErr c m) = Some (c, m)"
| "as_command (Errorf s es) = first_some as_command es"
| "as_command (Joined es) = first_some as_command es"
| "as_command e = None"

text \<open>fmt.Errorf with a prefix, a colon and \<open>%w\<close> last, the form most of the code uses.\<close>

definition wrap :: "string \<Rightarrow> err \<Rightarrow> err" where
  "wrap pre e = Errorf (pre @ '': '' @ err_text e) [e]"

lemma err_is_wrap [simp]: "err_is e t \<Longrightarrow> err_is (wrap pre e) t"
  by (simp add: wrap_def)

lemma err_is_refl [simp]: "err_is e e"
  by (cases e) auto

text \<open>errors.Join: the errors that are not nil, or nil when every one is.\<close>

definition errs_of :: "err option list \<Rightarrow> err list" where
  "errs_of es = List.map_filter id es"

definition errors_join :: "err option list \<Rightarrow> err option" where
  "errors_join es = (if errs_of es = [] then None else Some (Joined (errs_of es)))"

lemma errs_of_simps [simp]:
  "errs_of [] = []" "errs_of (None # es) = errs_of es" "errs_of (Some e # es) = e # errs_of es"
  by (simp_all add: errs_of_def List.map_filter_simps)

lemma errors_join_None: "errors_join es = None \<longleftrightarrow> (\<forall>e \<in> set es. e = None)"
proof -
  have "errs_of es = [] \<longleftrightarrow> (\<forall>e \<in> set es. e = None)"
    by (induction es) (auto simp: errs_of_def List.map_filter_simps split: option.splits)
  then show ?thesis by (simp add: errors_join_def)
qed

text \<open>The error of a result that is a sum.\<close>

abbreviation err_of :: "err + 'a \<Rightarrow> err option" where
  "err_of r \<equiv> (case r of Inl e \<Rightarrow> Some e | Inr _ \<Rightarrow> None)"

lemma map_sum_Inr: "map_sum id f r = Inr y \<longleftrightarrow> (\<exists>x. r = Inr x \<and> y = f x)"
  and map_sum_Inl: "map_sum id f r = Inl e \<longleftrightarrow> r = Inl e"
  by (cases r; auto)+

end
