(* ===== verification/Json.thy ===== *)
theory Json
  imports Prelude
begin

text \<open>
  The part of encoding/json the program reads with. A document is parsed by the grammar Go's
  scanner accepts, and every element of an array and every member of an object keeps its source
  text beside its value, because a json.RawMessage is that text, byte for byte. The decoders
  below read a struct's fields as json.Unmarshal does: keys match up to ASCII case, the last
  match wins, an absent field and (but for a RawMessage) a null leave the zero value, and a value
  of the wrong type is an error (\<open>None\<close>).

  Not modelled: the nesting limit of 10000, the replacement of invalid UTF-8 by U+FFFD (bytes
  from 0x80 up are kept), and key folding beyond ASCII.
\<close>

datatype json =
    JNull
  | JBool bool
  | JNum string
  | JStr string
  | JArr "(string \<times> json) list"
  | JObj "(string \<times> string \<times> json) list"

section \<open>Scanning\<close>

definition is_ws :: "char \<Rightarrow> bool" where
  "is_ws c \<longleftrightarrow> c = CHR '' '' \<or> c = CHR 0x09 \<or> c = CHR 0x0A \<or> c = CHR 0x0D"

definition skip_ws :: "string \<Rightarrow> string" where
  "skip_ws s = dropWhile is_ws s"

lemma skip_ws_length: "length (skip_ws s) \<le> length s"
  by (simp add: skip_ws_def length_dropWhile_le)

definition is_digit :: "char \<Rightarrow> bool" where
  "is_digit c \<longleftrightarrow> CHR ''0'' \<le> c \<and> c \<le> CHR ''9''"

definition hex_val :: "char \<Rightarrow> nat option" where
  "hex_val c =
     (let n = of_char c :: nat in
      if 48 \<le> n \<and> n \<le> 57 then Some (n - 48)
      else if 65 \<le> n \<and> n \<le> 70 then Some (n - 55)
      else if 97 \<le> n \<and> n \<le> 102 then Some (n - 87)
      else None)"

text \<open>The four hex digits of a \<open>\u\<close> escape.\<close>

definition hex4 :: "string \<Rightarrow> nat option" where
  "hex4 s =
     (if length s < 4 then None
      else foldl (\<lambda>acc c. case (acc, hex_val c) of (Some a, Some d) \<Rightarrow> Some (16 * a + d) | _ \<Rightarrow> None)
             (Some 0) (take 4 s))"

definition utf8 :: "nat \<Rightarrow> string" where
  "utf8 u = map (char_of :: nat \<Rightarrow> char)
     (if u < 0x80 then [u]
      else if u < 0x800 then [0xC0 + u div 64, 0x80 + u mod 64]
      else if u < 0x10000 then [0xE0 + u div 4096, 0x80 + u div 64 mod 64, 0x80 + u mod 64]
      else [0xF0 + u div 262144, 0x80 + u div 4096 mod 64, 0x80 + u div 64 mod 64, 0x80 + u mod 64])"

definition simple_escape :: "char \<Rightarrow> char option" where
  "simple_escape e =
     (if e = CHR 0x22 \<or> e = CHR 0x5C \<or> e = CHR ''/'' then Some e
      else if e = CHR ''b'' then Some (CHR 0x08)
      else if e = CHR ''f'' then Some (CHR 0x0C)
      else if e = CHR ''n'' then Some (CHR 0x0A)
      else if e = CHR ''r'' then Some (CHR 0x0D)
      else if e = CHR ''t'' then Some (CHR 0x09)
      else None)"

text \<open>The second half of a surrogate pair, when the text goes on with its escape.\<close>

definition low_surrogate :: "string \<Rightarrow> nat option" where
  "low_surrogate s =
     (case s of
        b # u # t \<Rightarrow>
          (if b = CHR 0x5C \<and> u = CHR ''u'' then
             (case hex4 t of
                Some l \<Rightarrow> (if 0xDC00 \<le> l \<and> l \<le> 0xDFFF then Some l else None)
              | None \<Rightarrow> None)
           else None)
      | _ \<Rightarrow> None)"

text \<open>A string's decoded bytes and what follows its closing quote.\<close>

function str_body :: "string \<Rightarrow> (string \<times> string) option" where
  "str_body [] = None"
| "str_body (c # s) =
     (if c = CHR 0x22 then Some ([], s)
      else if (of_char c :: nat) < 32 then None
      else if c \<noteq> CHR 0x5C then map_option (apfst ((#) c)) (str_body s)
      else (case s of
          [] \<Rightarrow> None
        | e # s' \<Rightarrow>
            (if e = CHR ''u'' then
               (case hex4 s' of
                  None \<Rightarrow> None
                | Some u \<Rightarrow>
                    (if 0xD800 \<le> u \<and> u \<le> 0xDFFF then
                       (case (if u \<le> 0xDBFF then low_surrogate (drop 4 s') else None) of
                          Some l \<Rightarrow>
                            map_option (apfst ((@) (utf8 (0x10000 + (u - 0xD800) * 0x400 + (l - 0xDC00)))))
                              (str_body (drop 10 s'))
                        | None \<Rightarrow> map_option (apfst ((@) (utf8 0xFFFD))) (str_body (drop 4 s')))
                     else map_option (apfst ((@) (utf8 u))) (str_body (drop 4 s'))))
             else (case simple_escape e of
                 None \<Rightarrow> None
               | Some d \<Rightarrow> map_option (apfst ((#) d)) (str_body s')))))"
  by pat_completeness auto
termination by (relation "measure length") auto

lemma str_body_length: "str_body s = Some (t, r) \<Longrightarrow> length r < length s"
proof (induction "length s" arbitrary: s t rule: less_induct)
  case less
  have IH: "length r < length s" if "str_body x = Some (a, r)" "length x < length s" for x a
    using less.hyps[OF that(2) that(1)] that(2) by simp
  from less.prems show ?case
    by (cases s) (auto split: if_splits list.splits option.splits dest!: IH)
qed

definition scan_digits :: "string \<Rightarrow> (string \<times> string) option" where
  "scan_digits s =
     (if takeWhile is_digit s = [] then None else Some (takeWhile is_digit s, dropWhile is_digit s))"

definition scan_int :: "string \<Rightarrow> (string \<times> string) option" where
  "scan_int s =
     (case s of
        c # t \<Rightarrow> (if c = CHR ''0'' then Some (''0'', t) else scan_digits s)
      | [] \<Rightarrow> None)"

definition scan_frac :: "string \<Rightarrow> (string \<times> string) option" where
  "scan_frac s =
     (case s of
        c # t \<Rightarrow> (if c = CHR ''.'' then map_option (apfst ((#) c)) (scan_digits t) else Some ([], s))
      | [] \<Rightarrow> Some ([], s))"

definition scan_exp :: "string \<Rightarrow> (string \<times> string) option" where
  "scan_exp s =
     (case s of
        c # t \<Rightarrow>
          (if c = CHR ''e'' \<or> c = CHR ''E'' then
             (case t of
                g # t' \<Rightarrow>
                  (if g = CHR ''+'' \<or> g = CHR ''-'' then map_option (apfst (\<lambda>d. c # g # d)) (scan_digits t')
                   else map_option (apfst ((#) c)) (scan_digits t))
              | [] \<Rightarrow> None)
           else Some ([], s))
      | [] \<Rightarrow> Some ([], s))"

definition scan_number :: "string \<Rightarrow> (string \<times> string) option" where
  "scan_number s =
     (let (sign, t) = (case s of c # t \<Rightarrow> if c = CHR ''-'' then (''-'', t) else ([], s) | [] \<Rightarrow> ([], s))
      in case scan_int t of
           None \<Rightarrow> None
         | Some (i, t1) \<Rightarrow>
             (case scan_frac t1 of
                None \<Rightarrow> None
              | Some (f, t2) \<Rightarrow>
                  (case scan_exp t2 of
                     None \<Rightarrow> None
                   | Some (e, t3) \<Rightarrow> Some (sign @ i @ f @ e, t3))))"

lemma scan_digits_length: "scan_digits s = Some (d, r) \<Longrightarrow> length r < length s"
  unfolding scan_digits_def
  by (cases s) (auto split: if_splits simp: le_imp_less_Suc length_dropWhile_le)

lemma scan_int_length: "scan_int s = Some (d, r) \<Longrightarrow> length r < length s"
  by (auto simp: scan_int_def split: list.splits if_splits dest: scan_digits_length)

lemma scan_frac_length: "scan_frac s = Some (d, r) \<Longrightarrow> length r \<le> length s"
  by (auto simp: scan_frac_def split: list.splits if_splits dest: scan_digits_length)

lemma scan_exp_length: "scan_exp s = Some (d, r) \<Longrightarrow> length r \<le> length s"
  by (fastforce simp: scan_exp_def split: list.splits if_splits dest: scan_digits_length)

lemma scan_number_length: "scan_number s = Some (d, r) \<Longrightarrow> length r < length s"
  by (fastforce simp: scan_number_def Let_def split: list.splits if_splits option.splits
      dest: scan_int_length scan_frac_length scan_exp_length)

definition scan_lit :: "string \<Rightarrow> json \<Rightarrow> string \<Rightarrow> (json \<times> string) option" where
  "scan_lit w v s = (if has_prefix s w then Some (v, drop (length w) s) else None)"

section \<open>Values\<close>

definition span :: "string \<Rightarrow> string \<Rightarrow> string" where
  "span s r = take (length s - length r) s"

text \<open>
  The mutually recursive part spends one unit of fuel per call; \<open>jvalue_fuel\<close> below shows that
  twice the length of the text is enough, so \<open>json_parse\<close> never runs out.
\<close>

fun jvalue :: "nat \<Rightarrow> string \<Rightarrow> (json \<times> string) option"
  and jelems :: "nat \<Rightarrow> string \<Rightarrow> ((string \<times> json) list \<times> string) option"
  and jmembers :: "nat \<Rightarrow> string \<Rightarrow> ((string \<times> string \<times> json) list \<times> string) option" where
  "jvalue 0 s = None"
| "jvalue (Suc n) [] = None"
| "jvalue (Suc n) (c # t) =
     (if c = CHR ''{'' then
        (case skip_ws t of
           [] \<Rightarrow> None
         | d # r \<Rightarrow> (if d = CHR ''}'' then Some (JObj [], r)
                     else map_option (apfst JObj) (jmembers n (d # r))))
      else if c = CHR ''['' then
        (case skip_ws t of
           [] \<Rightarrow> None
         | d # r \<Rightarrow> (if d = CHR '']'' then Some (JArr [], r)
                     else map_option (apfst JArr) (jelems n (d # r))))
      else if c = CHR 0x22 then map_option (apfst JStr) (str_body t)
      else if c = CHR ''n'' then scan_lit ''null'' JNull (c # t)
      else if c = CHR ''t'' then scan_lit ''true'' (JBool True) (c # t)
      else if c = CHR ''f'' then scan_lit ''false'' (JBool False) (c # t)
      else map_option (apfst JNum) (scan_number (c # t)))"
| "jelems 0 s = None"
| "jelems (Suc n) s =
     (case jvalue n s of
        None \<Rightarrow> None
      | Some (v, r) \<Rightarrow>
          (case skip_ws r of
             [] \<Rightarrow> None
           | d # t \<Rightarrow>
               (if d = CHR '']'' then Some ([(span s r, v)], t)
                else if d = CHR '','' then
                  map_option (apfst ((#) (span s r, v))) (jelems n (skip_ws t))
                else None)))"
| "jmembers 0 s = None"
| "jmembers (Suc n) [] = None"
| "jmembers (Suc n) (c # t) =
     (if c \<noteq> CHR 0x22 then None
      else case str_body t of
        None \<Rightarrow> None
      | Some (k, t1) \<Rightarrow>
          (case skip_ws t1 of
             [] \<Rightarrow> None
           | d # t2 \<Rightarrow>
               (if d \<noteq> CHR '':'' then None
                else let s = skip_ws t2 in
                  (case jvalue n s of
                     None \<Rightarrow> None
                   | Some (v, r) \<Rightarrow>
                       (case skip_ws r of
                          [] \<Rightarrow> None
                        | e # t3 \<Rightarrow>
                            (if e = CHR ''}'' then Some ([(k, span s r, v)], t3)
                             else if e = CHR '','' then
                               map_option (apfst ((#) (k, span s r, v))) (jmembers n (skip_ws t3))
                             else None))))))"

lemma scan_lit_length: "scan_lit w v s = Some (x, r) \<Longrightarrow> w \<noteq> [] \<Longrightarrow> length r < length s"
  by (cases s) (auto simp: scan_lit_def has_prefix_def split: if_splits)

lemma skip_ws_Cons_length: "skip_ws s = c # t \<Longrightarrow> length t < length s"
  using skip_ws_length[of s] by simp

lemma less_skip_ws: "n < length (skip_ws s) \<Longrightarrow> n < length s"
  using skip_ws_length[of s] by simp

lemma jscan_length:
  "(\<forall>s v r. jvalue n s = Some (v, r) \<longrightarrow> length r < length s)
   \<and> (\<forall>s vs r. jelems n s = Some (vs, r) \<longrightarrow> length r < length s)
   \<and> (\<forall>s ms r. jmembers n s = Some (ms, r) \<longrightarrow> length r < length s)"
proof (induction n)
  case 0
  then show ?case by simp
next
  case (Suc n)
  then have V: "\<And>s v r. jvalue n s = Some (v, r) \<Longrightarrow> length r < length s"
    and E: "\<And>s vs r. jelems n s = Some (vs, r) \<Longrightarrow> length r < length s"
    and M: "\<And>s ms r. jmembers n s = Some (ms, r) \<Longrightarrow> length r < length s"
    by blast+
  have "length r < length s" if "jvalue (Suc n) s = Some (v, r)" for s v r
    using that
    by (cases s)
      (auto split: if_splits list.splits
        dest!: E M str_body_length scan_number_length scan_lit_length skip_ws_Cons_length)
  moreover have "length r < length s" if "jelems (Suc n) s = Some (vs, r)" for s vs r
    using that
    by (auto split: if_splits list.splits option.splits prod.splits
        dest!: V E skip_ws_Cons_length less_skip_ws)
  moreover have "length r < length s" if "jmembers (Suc n) s = Some (ms, r)" for s ms r
    using that 
    by (cases s) (auto simp: Let_def split: if_splits list.splits option.splits prod.splits
        dest!: V M skip_ws_Cons_length str_body_length less_skip_ws)
  ultimately show ?case by blast
qed

text \<open>Past twice the length of its text, fuel changes no result.\<close>

lemma jscan_fuel:
  "(\<forall>s. 2 * length s < n \<longrightarrow> 2 * length s < m \<longrightarrow> jvalue n s = jvalue m s)
   \<and> (\<forall>s. Suc (2 * length s) < n \<longrightarrow> Suc (2 * length s) < m \<longrightarrow> jelems n s = jelems m s)
   \<and> (\<forall>s. 2 * length s < n \<longrightarrow> 2 * length s < m \<longrightarrow> jmembers n s = jmembers m s)"
proof (induction n arbitrary: m)
  case 0
  then show ?case by simp
next
  case (Suc n)
  show ?case
  proof (cases m)
    case 0
    then show ?thesis by simp
  next
    case (Suc k)
    have V: "jvalue n s = jvalue k s" if "2 * length s < n" "2 * length s < k" for s
      using Suc.IH that by blast
    have E: "jelems n s = jelems k s" if "Suc (2 * length s) < n" "Suc (2 * length s) < k" for s
      using Suc.IH that by blast
    have M: "jmembers n s = jmembers k s" if "2 * length s < n" "2 * length s < k" for s
      using Suc.IH that by blast
    have "jvalue (Suc n) s = jvalue (Suc k) s"
      if l: "2 * length s < Suc n" "2 * length s < Suc k" for s
    proof (cases s)
      case (Cons c t)
      have "length (d # r) \<le> length t" if "skip_ws t = d # r" for d r
        using skip_ws_length[of t] that by simp
      with l Cons show ?thesis
        by (auto split: list.splits intro!: arg_cong[where f = "map_option _"] E M)
    qed simp
    moreover have "jelems (Suc n) s = jelems (Suc k) s"
      if l: "Suc (2 * length s) < Suc n" "Suc (2 * length s) < Suc k" for s
    proof -
      have "Suc (2 * length (skip_ws t)) < min n k"
        if "jvalue k s = Some (v, r)" "skip_ws r = d # t" for v r d t
        using l skip_ws_length[of t] skip_ws_Cons_length[OF that(2)] jscan_length that(1)
        by fastforce
      with l show ?thesis
        by (auto simp: V split: list.splits option.splits intro!: arg_cong[where f = "map_option _"] E)
    qed
    moreover have "jmembers (Suc n) s = jmembers (Suc k) s"
      if l: "2 * length s < Suc n" "2 * length s < Suc k" for s
    proof (cases s)
      case (Cons c t)
      have a: "2 * length (skip_ws t2) < min n k"
        if "str_body t = Some (key, t1)" "skip_ws t1 = d # t2" for key t1 d t2
        using l Cons skip_ws_length[of t2] skip_ws_Cons_length[OF that(2)] str_body_length[OF that(1)]
        by simp
      have b: "2 * length (skip_ws t3) < min n k"
        if "str_body t = Some (key, t1)" "skip_ws t1 = d # t2"
          "jvalue k (skip_ws t2) = Some (v, r)" "skip_ws r = e # t3" for key t1 d t2 v r e t3
        using a[OF that(1,2)] skip_ws_length[of t3] skip_ws_Cons_length[OF that(4)]
          jscan_length that(3) by fastforce
      from Cons a b show ?thesis
        by (auto simp: Let_def V split: list.splits option.splits
            intro!: arg_cong[where f = "map_option _"] M)
    qed simp
    ultimately show ?thesis using Suc by blast
  qed
qed

definition json_fuel :: "string \<Rightarrow> nat" where
  "json_fuel s = Suc (2 * length s)"

text \<open>json.Unmarshal's syntax check, and json.Valid: one value with white space around it.\<close>

definition json_parse :: "string \<Rightarrow> json option" where
  "json_parse s =
     (case jvalue (json_fuel s) (skip_ws s) of
        Some (v, r) \<Rightarrow> (if skip_ws r = [] then Some v else None)
      | None \<Rightarrow> None)"

definition json_valid :: "string \<Rightarrow> bool" where
  "json_valid s \<longleftrightarrow> json_parse s \<noteq> None"

lemma json_parse_fuel:
  "2 * length s < n \<Longrightarrow>
     json_parse s =
       (case jvalue n (skip_ws s) of
          Some (v, r) \<Rightarrow> (if skip_ws r = [] then Some v else None) | None \<Rightarrow> None)"
proof -
  assume n: "2 * length s < n"
  have "jvalue n (skip_ws s) = jvalue (json_fuel s) (skip_ws s)"
    using jscan_fuel[of n "json_fuel s"] n skip_ws_length[of s] by (simp add: json_fuel_def)
  then show ?thesis by (simp add: json_parse_def)
qed

lemma json_parse_Nil [simp]: "json_parse [] = None"
  by (simp add: json_parse_def json_fuel_def skip_ws_def)

section \<open>Decoding into a struct\<close>

type_synonym members = "(string \<times> string \<times> json) list"

text \<open>A null leaves a struct as it is; any other value but an object doesn't fit it.\<close>

fun struct_of :: "json \<Rightarrow> members option" where
  "struct_of (JObj ms) = Some ms"
| "struct_of JNull = Some []"
| "struct_of _ = None"

definition unmarshal_struct :: "string \<Rightarrow> members option" where
  "unmarshal_struct s = (case json_parse s of None \<Rightarrow> None | Some v \<Rightarrow> struct_of v)"

definition matches :: "string \<Rightarrow> members \<Rightarrow> (string \<times> json) list" where
  "matches k ms = map snd (filter (\<lambda>m. to_lower_ascii (fst m) = to_lower_ascii k) ms)"

text \<open>A json.RawMessage field: the text of the last match, and empty without one.\<close>

definition raw_field :: "string \<Rightarrow> members \<Rightarrow> string" where
  "raw_field k ms = (case matches k ms of [] \<Rightarrow> [] | vs \<Rightarrow> fst (last vs))"

fun decode_str :: "(string \<times> json) list \<Rightarrow> string \<Rightarrow> string option" where
  "decode_str [] acc = Some acc"
| "decode_str ((t, JNull) # vs) acc = decode_str vs acc"
| "decode_str ((t, JStr s) # vs) acc = decode_str vs s"
| "decode_str (v # vs) acc = None"

definition str_field :: "string \<Rightarrow> members \<Rightarrow> string option" where
  "str_field k ms = decode_str (matches k ms) []"

fun decode_bool :: "(string \<times> json) list \<Rightarrow> bool \<Rightarrow> bool option" where
  "decode_bool [] acc = Some acc"
| "decode_bool ((t, JNull) # vs) acc = decode_bool vs acc"
| "decode_bool ((t, JBool b) # vs) acc = decode_bool vs b"
| "decode_bool (v # vs) acc = None"

definition bool_field :: "string \<Rightarrow> members \<Rightarrow> bool option" where
  "bool_field k ms = decode_bool (matches k ms) False"

text \<open>strconv.ParseInt in base 10 to 64 bits.\<close>

definition nat_of_digits :: "string \<Rightarrow> nat" where
  "nat_of_digits ds = foldl (\<lambda>n c. 10 * n + (of_char c - 48)) 0 ds"

definition parse_int :: "string \<Rightarrow> int option" where
  "parse_int s =
     (let (neg, ds) = (case s of
            c # t \<Rightarrow> if c = CHR ''-'' then (True, t) else if c = CHR ''+'' then (False, t) else (False, s)
          | [] \<Rightarrow> (False, []));
          n = int (nat_of_digits ds);
          i = (if neg then - n else n)
      in if ds = [] \<or> \<not> list_all is_digit ds \<or> i < - (2 ^ 63) \<or> 2 ^ 63 \<le> i then None else Some i)"

text \<open>Decimal text reads back.\<close>

lemma digits_acc_append: "digits_acc k n acc = digits_acc k n [] @ acc"
proof (induction k arbitrary: n acc)
  case (Suc k)
  show ?case
    using Suc.IH[of "n div 10" "char_of (48 + n mod 10) # acc"] Suc.IH[of "n div 10" "[char_of (48 + n mod 10)]"]
    by (simp add: Let_def)
qed simp

lemma nat_of_digits_snoc: "nat_of_digits (ds @ [c]) = 10 * nat_of_digits ds + (of_char c - 48)"
  by (simp add: nat_of_digits_def)

lemma digit_char: "d < 10 \<Longrightarrow> (of_char (char_of (48 + d :: nat)) :: nat) = 48 + d \<and> is_digit (char_of (48 + d :: nat))"
  by (auto simp: is_digit_def less_eq_char_def take_bit_eq_mod)

lemma digits_acc_read:
  "n < k \<Longrightarrow> nat_of_digits (digits_acc k n []) = n \<and> list_all is_digit (digits_acc k n []) \<and> digits_acc k n [] \<noteq> []"
proof (induction k arbitrary: n)
  case (Suc k)
  have d: "(of_char (char_of (48 + n mod 10 :: nat)) :: nat) = 48 + n mod 10" "is_digit (char_of (48 + n mod 10 :: nat))"
    using digit_char[of "n mod 10"] by auto
  show ?case
  proof (cases "n < 10")
    case True
    then show ?thesis using d by (simp add: nat_of_digits_def Let_def)
  next
    case False
    then have "n div 10 < k" using Suc.prems by auto
    from Suc.IH[OF this] show ?thesis using False d digits_acc_append[of k "n div 10" "[char_of (48 + n mod 10)]"]
      by (simp add: Let_def nat_of_digits_snoc)
  qed
qed simp

lemma nat_text_read:
  "nat_of_digits (nat_text n) = n" "list_all is_digit (nat_text n)" "nat_text n \<noteq> []"
  using digits_acc_read[of n "Suc n"] by (simp_all add: nat_text_def del: digits_acc.simps)

lemma parse_nat_text:
  assumes "n < 2 ^ 63"
  shows "parse_int (nat_text n) = Some (int n)"
proof -
  obtain c t where ct: "nat_text n = c # t" using nat_text_read(3)[of n] by (cases "nat_text n") auto
  then have "is_digit c" using nat_text_read(2)[of n] by simp
  then have "c \<noteq> CHR ''-''" "c \<noteq> CHR ''+''" by (auto simp: is_digit_def less_eq_char_def)
  moreover have "nat_of_digits (c # t) = n" "list_all is_digit (c # t)" using nat_text_read[of n] ct by auto
  ultimately show ?thesis using assms by (simp add: parse_int_def ct)
qed

lemma parse_int_text:
  assumes "- (2 ^ 63) \<le> i" "i < 2 ^ 63"
  shows "parse_int (int_text i) = Some i"
proof (cases "i < 0")
  case True
  then show ?thesis using nat_text_read[of "nat (- i)"] assms by (simp add: int_text_def parse_int_def)
next
  case False
  then show ?thesis using parse_nat_text[of "nat i"] assms by (simp add: int_text_def)
qed
text \<open>An int field: a number that is no integer, or out of range, is an error.\<close>

fun decode_int :: "(string \<times> json) list \<Rightarrow> int \<Rightarrow> int option" where
  "decode_int [] acc = Some acc"
| "decode_int ((t, JNull) # vs) acc = decode_int vs acc"
| "decode_int ((t, JNum s) # vs) acc =
     (case parse_int s of None \<Rightarrow> None | Some i \<Rightarrow> decode_int vs i)"
| "decode_int (v # vs) acc = None"

definition int_field :: "string \<Rightarrow> members \<Rightarrow> int option" where
  "int_field k ms = decode_int (matches k ms) 0"

text \<open>
  A field that is a struct, or a pointer to one: its members, of each match in turn, since a
  later match decodes into the struct an earlier one filled. A pointer is nil without a match or
  after a null (\<open>Some None\<close>); a value that isn't an object is an error.
\<close>

fun decode_struct :: "(string \<times> json) list \<Rightarrow> members option \<Rightarrow> members option option" where
  "decode_struct [] acc = Some acc"
| "decode_struct ((t, JNull) # vs) acc = decode_struct vs None"
| "decode_struct ((t, JObj m) # vs) acc = decode_struct vs (Some ((case acc of None \<Rightarrow> [] | Some old \<Rightarrow> old) @ m))"
| "decode_struct (v # vs) acc = None"

definition struct_field :: "string \<Rightarrow> members \<Rightarrow> members option option" where
  "struct_field k ms = decode_struct (matches k ms) None"

text \<open>A struct held by value: a null leaves it as it is.\<close>

fun decode_inner :: "(string \<times> json) list \<Rightarrow> members \<Rightarrow> members option" where
  "decode_inner [] acc = Some acc"
| "decode_inner ((t, JNull) # vs) acc = decode_inner vs acc"
| "decode_inner ((t, JObj m) # vs) acc = decode_inner vs (acc @ m)"
| "decode_inner (v # vs) acc = None"

definition inner_field :: "string \<Rightarrow> members \<Rightarrow> members option" where
  "inner_field k ms = decode_inner (matches k ms) []"

text \<open>A pointer to a string or a number: nil without a match or after a null.\<close>

fun decode_opt_str :: "(string \<times> json) list \<Rightarrow> string option \<Rightarrow> string option option" where
  "decode_opt_str [] acc = Some acc"
| "decode_opt_str ((t, JNull) # vs) acc = decode_opt_str vs None"
| "decode_opt_str ((t, JStr s) # vs) acc = decode_opt_str vs (Some s)"
| "decode_opt_str (v # vs) acc = None"

definition opt_str_field :: "string \<Rightarrow> members \<Rightarrow> string option option" where
  "opt_str_field k ms = decode_opt_str (matches k ms) None"

fun decode_opt_int :: "(string \<times> json) list \<Rightarrow> int option \<Rightarrow> int option option" where
  "decode_opt_int [] acc = Some acc"
| "decode_opt_int ((t, JNull) # vs) acc = decode_opt_int vs None"
| "decode_opt_int ((t, JNum s) # vs) acc =
     (case parse_int s of None \<Rightarrow> None | Some i \<Rightarrow> decode_opt_int vs (Some i))"
| "decode_opt_int (v # vs) acc = None"

definition opt_int_field :: "string \<Rightarrow> members \<Rightarrow> int option option" where
  "opt_int_field k ms = decode_opt_int (matches k ms) None"

text \<open>A list field: nil without a match or after a null, else the elements of the last match.\<close>

fun decode_list :: "(string \<times> json) list \<Rightarrow> (string \<times> json) list \<Rightarrow> (string \<times> json) list option" where
  "decode_list [] acc = Some acc"
| "decode_list ((t, JNull) # vs) acc = decode_list vs []"
| "decode_list ((t, JArr es) # vs) acc = decode_list vs es"
| "decode_list (v # vs) acc = None"

definition list_field :: "string \<Rightarrow> members \<Rightarrow> (string \<times> json) list option" where
  "list_field k ms = decode_list (matches k ms) []"

text \<open>json.Unmarshal into a string, and into a list: a null leaves the empty value.\<close>

definition unmarshal_str :: "string \<Rightarrow> string option" where
  "unmarshal_str s = (case json_parse s of None \<Rightarrow> None | Some v \<Rightarrow> decode_str [(s, v)] [])"

definition unmarshal_list :: "string \<Rightarrow> (string \<times> json) list option" where
  "unmarshal_list s = (case json_parse s of None \<Rightarrow> None | Some v \<Rightarrow> decode_list [(s, v)] [])"

text \<open>
  A string field when the error of a value of the wrong type is dropped: decoding goes on past
  such a value and leaves the field as it was.
\<close>

fun lenient_str :: "(string \<times> json) list \<Rightarrow> string \<Rightarrow> string" where
  "lenient_str [] acc = acc"
| "lenient_str ((t, JStr s) # vs) acc = lenient_str vs s"
| "lenient_str (v # vs) acc = lenient_str vs acc"

definition lenient_str_field :: "string \<Rightarrow> members \<Rightarrow> string" where
  "lenient_str_field k ms = lenient_str (matches k ms) []"

text \<open>A pointer to a struct whose own fields \<open>f\<close> decodes.\<close>

definition opt_struct :: "(members \<Rightarrow> 'a option) \<Rightarrow> string \<Rightarrow> members \<Rightarrow> 'a option option" where
  "opt_struct f k ms =
     (case struct_field k ms of
        None \<Rightarrow> None
      | Some None \<Rightarrow> Some None
      | Some (Some m) \<Rightarrow> map_option Some (f m))"

text \<open>An element of a list of structs: a null is the zero struct.\<close>

definition elem_struct :: "string \<times> json \<Rightarrow> members option" where
  "elem_struct e = decode_inner [e] []"

definition option_all :: "('a \<Rightarrow> 'b option) \<Rightarrow> 'a list \<Rightarrow> 'b list option" where
  "option_all f xs =
     (if \<exists>x \<in> set xs. f x = None then None else Some (map (\<lambda>x. the (f x)) xs))"

lemma matches_Nil [simp]: "matches k [] = []"
  by (simp add: matches_def)

lemma field_Nil [simp]:
  "raw_field k [] = []" "str_field k [] = Some []" "bool_field k [] = Some False"
  "int_field k [] = Some 0" "struct_field k [] = Some None" "list_field k [] = Some []"
  "inner_field k [] = Some []" "opt_str_field k [] = Some None" "opt_int_field k [] = Some None"
  by (simp_all add: raw_field_def str_field_def bool_field_def int_field_def struct_field_def
      list_field_def inner_field_def opt_str_field_def opt_int_field_def)

end
