(* ===== verification/Harness.thy ===== *)
theory Harness
  imports Go_Errors Json
begin

text \<open>
  The package harness: its error sentinels, the normalized events, requests, results and
  records, and the checks of tools, skills, schemas and images (harness.go, event.go, record.go).
  A json.RawMessage is its text, empty for a nil one. A float64 is the JSON number's text, empty
  for zero.
\<close>

section \<open>Sentinels\<close>

definition ErrBusy :: err where
  "ErrBusy = Sentinel ''harness: session has an open exchange''"

definition ErrClosed :: err where
  "ErrClosed = Sentinel ''harness: session is closed''"

definition ErrUnknownEntry :: err where
  "ErrUnknownEntry = Sentinel ''harness: unknown entry''"

definition ErrJournalMismatch :: err where
  "ErrJournalMismatch =
     Sentinel ''harness: the harness no longer holds the session's recorded entries''"

definition ErrNoStructuredResponse :: err where
  "ErrNoStructuredResponse =
     Sentinel ''harness: the exchange ended without a structured response''"

definition ErrInvalidSchema :: err where
  "ErrInvalidSchema = Sentinel ''harness: invalid schema''"

definition ErrInvalidSkill :: err where
  "ErrInvalidSkill = Sentinel ''harness: invalid skill''"

definition ErrInvalidImage :: err where
  "ErrInvalidImage = Sentinel ''harness: invalid image''"

lemmas sentinel_defs =
  ErrBusy_def ErrClosed_def ErrUnknownEntry_def ErrJournalMismatch_def
  ErrNoStructuredResponse_def ErrInvalidSchema_def ErrInvalidSkill_def ErrInvalidImage_def
  ErrUsageLimit_def usage_limit_text_def

section \<open>Events\<close>

datatype event_kind =
    EventStarted
  | EventTextDelta
  | EventThinkingDelta
  | EventToolCall
  | EventToolResult
  | EventMessageEnd
  | EventCancelled
  | EventStructured
  | EventStructuredRejected
  | EventLimit
  | EventError
  | EventEnded
  | EventHarness

fun event_kind_text :: "event_kind \<Rightarrow> string" where
  "event_kind_text EventStarted = ''started''"
| "event_kind_text EventTextDelta = ''text_delta''"
| "event_kind_text EventThinkingDelta = ''thinking_delta''"
| "event_kind_text EventToolCall = ''tool_call''"
| "event_kind_text EventToolResult = ''tool_result''"
| "event_kind_text EventMessageEnd = ''message_end''"
| "event_kind_text EventCancelled = ''cancelled''"
| "event_kind_text EventStructured = ''structured''"
| "event_kind_text EventStructuredRejected = ''structured_rejected''"
| "event_kind_text EventLimit = ''limit''"
| "event_kind_text EventError = ''error''"
| "event_kind_text EventEnded = ''ended''"
| "event_kind_text EventHarness = ''harness''"

record tool_event =
  te_call_id :: string
  te_name :: string
  te_args :: string
  te_result :: string
  te_is_error :: bool

record limit_status =
  ls_status :: string
  ls_kind :: string
  ls_utilization :: string
  ls_resets_at :: time

record usage =
  us_input :: int
  us_output :: int
  us_cache_read :: int
  us_cache_write :: int

record event =
  ev_session_id :: string
  ev_exchange_id :: uuid
  ev_seq :: nat
  ev_kind :: event_kind
  ev_text :: string
  ev_tool :: "tool_event option"
  ev_stop_reason :: string
  ev_usage :: "usage option"
  ev_structured :: string
  ev_limit :: "limit_status option"
  ev_err :: "err option"
  ev_raw :: string

text \<open>The event literal \<open>Event{Kind: k}\<close>: every other field is zero.\<close>

definition event_of :: "event_kind \<Rightarrow> event" where
  "event_of k =
     \<lparr>ev_session_id = [], ev_exchange_id = uuid_nil, ev_seq = 0, ev_kind = k, ev_text = [],
      ev_tool = None, ev_stop_reason = [], ev_usage = None, ev_structured = [], ev_limit = None,
      ev_err = None, ev_raw = []\<rparr>"

lemma ev_kind_event_of [simp]: "ev_kind (event_of k) = k"
  by (simp add: event_of_def)

section \<open>Requests, results and records\<close>

record image =
  im_media_type :: string
  im_data :: string

record request =
  rq_text :: string
  rq_images :: "image list"
  rq_schema :: string

record result =
  rs_stop_reason :: string
  rs_text :: string
  rs_structured :: string
  rs_usage :: usage

definition usage_zero :: usage where
  "usage_zero = \<lparr>us_input = 0, us_output = 0, us_cache_read = 0, us_cache_write = 0\<rparr>"

definition result_zero :: result where
  "result_zero = \<lparr>rs_stop_reason = [], rs_text = [], rs_structured = [], rs_usage = usage_zero\<rparr>"

text \<open>Usage.add.\<close>

definition usage_add :: "usage \<Rightarrow> usage \<Rightarrow> usage" where
  "usage_add u v =
     u\<lparr>us_input := us_input u + us_input v,
       us_output := us_output u + us_output v,
       us_cache_read := us_cache_read u + us_cache_read v,
       us_cache_write := us_cache_write u + us_cache_write v\<rparr>"

lemma usage_add_assoc: "usage_add (usage_add a b) c = usage_add a (usage_add b c)"
  by (simp add: usage_add_def)

lemma usage_add_zero [simp]: "usage_add usage_zero u = u" "usage_add u usage_zero = u"
  by (simp_all add: usage_add_def usage_zero_def)

record exchange_record =
  re_session_id :: string
  re_exchange_id :: uuid
  re_request :: request
  re_result :: result
  re_err :: string
  re_entries :: "string list"
  re_started :: time
  re_ended :: time

section \<open>Checks\<close>

text \<open>
  The text of an encoding/json error is not modelled: \<open>json_err\<close> stands for any of them.
\<close>

definition json_err :: err where
  "json_err = Msg ''json''"

text \<open>ValidateSchema.\<close>

definition validate_schema :: "string \<Rightarrow> err option" where
  "validate_schema schema =
     (case unmarshal_struct schema of
        None \<Rightarrow>
          Some (Errorf (err_text ErrInvalidSchema @ '': not a JSON object: '' @ err_text json_err)
                  [ErrInvalidSchema, json_err])
      | Some ms \<Rightarrow>
          (let t = trim_space (raw_field ''type'' ms) in
           if t = [] then
             Some (Errorf (err_text ErrInvalidSchema @ '': it declares no type, want \"object\"'')
                     [ErrInvalidSchema])
           else if t \<noteq> ''\"object\"'' then
             Some (Errorf (err_text ErrInvalidSchema @ '': its type is '' @ t @ '', want \"object\"'')
                     [ErrInvalidSchema])
           else None))"

text \<open>Tool and Tool.Validate. The handler runs a call's arguments to a text or an error.\<close>

record tool =
  tl_name :: string
  tl_description :: string
  tl_schema :: string
  tl_handler :: "(string \<Rightarrow> err + string) option"

definition tool_name_char :: "char \<Rightarrow> bool" where
  "tool_name_char c \<longleftrightarrow>
     (CHR ''A'' \<le> c \<and> c \<le> CHR ''Z'') \<or> (CHR ''a'' \<le> c \<and> c \<le> CHR ''z'')
     \<or> (CHR ''0'' \<le> c \<and> c \<le> CHR ''9'') \<or> c = CHR ''_'' \<or> c = CHR ''-''"

definition tool_name_ok :: "string \<Rightarrow> bool" where
  "tool_name_ok s \<longleftrightarrow> 1 \<le> length s \<and> length s \<le> 64 \<and> list_all tool_name_char s"

definition tool_validate :: "tool \<Rightarrow> err option" where
  "tool_validate t =
     (if \<not> tool_name_ok (tl_name t) then
        Some (Msg (''harness: tool '' @ quote (tl_name t)
          @ '': the name isn't 1 to 64 letters, digits, underscores, and hyphens''))
      else if tl_handler t = None then
        Some (Msg (''harness: tool '' @ quote (tl_name t) @ '' has no handler''))
      else if tl_schema t \<noteq> [] then
        map_option (wrap (''harness: tool '' @ quote (tl_name t))) (validate_schema (tl_schema t))
      else None)"

text \<open>Skill and Skill.Validate. A file system is the list of its files.\<close>

record skill =
  sk_name :: string
  sk_files :: "(string \<times> string) list"
  sk_dir :: string

definition skill_validate :: "skill \<Rightarrow> err option" where
  "skill_validate s =
     (if sk_name s = [] \<or> CHR ''/'' \<in> set (sk_name s) \<or> CHR 0x5C \<in> set (sk_name s)
         \<or> sk_name s = ''.'' \<or> sk_name s = ''..'' then
        Some (Errorf (err_text ErrInvalidSkill @ '': '' @ quote (sk_name s) @ '' is not a directory name'')
                [ErrInvalidSkill])
      else None)"

text \<open>validateImages: the first image without a media type or data.\<close>

fun validate_images_from :: "nat \<Rightarrow> image list \<Rightarrow> err option" where
  "validate_images_from i [] = None"
| "validate_images_from i (img # imgs) =
     (if im_media_type img = [] \<or> im_data img = [] then
        Some (Errorf (err_text ErrInvalidImage @ '': image '' @ nat_text i @ '' needs a media type and data'')
                [ErrInvalidImage])
      else validate_images_from (Suc i) imgs)"

definition validate_images :: "image list \<Rightarrow> err option" where
  "validate_images imgs = validate_images_from 0 imgs"

text \<open>recorded: a request as a record keeps it, its images by media type alone.\<close>

definition recorded :: "request \<Rightarrow> request" where
  "recorded req =
     (if rq_images req = [] then req
      else req\<lparr>rq_images := map (\<lambda>img. \<lparr>im_media_type = im_media_type img, im_data = []\<rparr>) (rq_images req)\<rparr>)"

section \<open>What the checks accept\<close>

lemma validate_schema_None:
  "validate_schema s = None \<longleftrightarrow>
     (\<exists>ms. unmarshal_struct s = Some ms \<and> trim_space (raw_field ''type'' ms) = ''\"object\"'')"
  by (auto simp: validate_schema_def Let_def split: option.splits)

lemma validate_schema_Some: "validate_schema s = Some e \<Longrightarrow> err_is e ErrInvalidSchema"
  by (auto simp: validate_schema_def Let_def split: option.splits if_splits)

lemma validate_schema_Nil: "validate_schema [] \<noteq> None"
  by (simp add: validate_schema_None unmarshal_struct_def)

lemma validate_images_from_None:
  "validate_images_from i imgs = None \<longleftrightarrow> (\<forall>img \<in> set imgs. im_media_type img \<noteq> [] \<and> im_data img \<noteq> [])"
  by (induction imgs arbitrary: i) auto

lemma validate_images_None:
  "validate_images imgs = None \<longleftrightarrow> (\<forall>img \<in> set imgs. im_media_type img \<noteq> [] \<and> im_data img \<noteq> [])"
  by (simp add: validate_images_def validate_images_from_None)

lemma validate_images_from_Some:
  "validate_images_from i imgs = Some e \<Longrightarrow> err_is e ErrInvalidImage"
  by (induction imgs arbitrary: i) (auto split: if_splits)

lemma recorded_fields [simp]:
  "rq_text (recorded r) = rq_text r" "rq_schema (recorded r) = rq_schema r"
  "map im_media_type (rq_images (recorded r)) = map im_media_type (rq_images r)"
  by (simp_all add: recorded_def)

lemma recorded_no_data: "img \<in> set (rq_images (recorded r)) \<Longrightarrow> im_data img = []"
  by (auto simp: recorded_def split: if_splits)

lemma recorded_idem [simp]: "recorded (recorded r) = recorded r"
  by (auto simp: recorded_def)

end
