(* ===== verification/Event_Queues.thy ===== *)
theory Event_Queues
  imports Prelude
begin

text \<open>
  The two unbounded event queues: harness.EventQueue (harness/queue.go), behind every exchange,
  and the subscriber queue of the package workflow (workflow/broadcast.go). Producers push under
  the queue's mutex; one goroutine, the pump, moves what is queued into an unbuffered channel.

  A queue's state is what its mutex guards (\<open>q_pending\<close>, \<open>q_closed\<close>), the token of its wake
  channel (\<open>q_wake\<close>), where its pump stands (\<open>q_pc\<close>) with the rest of the batch it took
  (\<open>q_batch\<close>), what its consumer has received (\<open>q_out\<close>), and whether its context is done
  (\<open>q_cancelled\<close>). Each critical section, send and receive is one atomic operation, and
  \<open>eq_step\<close> and \<open>wq_step\<close> are the pumps' steps. Both queues are proved to meet one contract,
  the locale \<open>fifo\<close>: events come out in the order they were pushed, none is lost or repeated,
  and the pump never sleeps on an event it has not seen.
\<close>

section \<open>State\<close>

datatype pump_pc = PumpLoad | PumpDeliver | PumpWait | PumpDone

record 'e equeue =
  q_pending :: "'e list"
  q_closed :: bool
  q_wake :: bool
  q_pc :: pump_pc
  q_batch :: "'e list"
  q_out :: "'e list"
  q_cancelled :: bool

definition new_queue :: "'e equeue" where
  "new_queue = \<lparr>q_pending = [], q_closed = False, q_wake = False, q_pc = PumpLoad,
     q_batch = [], q_out = [], q_cancelled = False\<rparr>"

text \<open>The non-blocking send of \<open>signal\<close> and \<open>wake\<close>: at most one token waits.\<close>

definition q_signal :: "'e equeue \<Rightarrow> 'e equeue" where
  "q_signal q = q\<lparr>q_wake := True\<rparr>"

text \<open>The context of a queue ends.\<close>

definition q_cancel :: "'e equeue \<Rightarrow> 'e equeue" where
  "q_cancel q = q\<lparr>q_cancelled := True\<rparr>"

section \<open>harness.EventQueue\<close>

definition eq_push :: "'e list \<Rightarrow> 'e equeue \<Rightarrow> 'e equeue" where
  "eq_push es q = q_signal (if q_closed q then q else q\<lparr>q_pending := q_pending q @ es\<rparr>)"

definition eq_close :: "'e equeue \<Rightarrow> 'e equeue" where
  "eq_close q = q_signal (q\<lparr>q_closed := True\<rparr>)"

text \<open>The head of pump's loop: take the batch, and decide what to do with it.\<close>

definition eq_load :: "'e equeue \<Rightarrow> 'e equeue" where
  "eq_load q =
     (let batch = q_pending q in
      q\<lparr>q_pending := [], q_batch := batch,
        q_pc := (if batch \<noteq> [] then PumpDeliver else if q_closed q then PumpDone else PumpWait)\<rparr>)"

text \<open>One send of the batch; after its last event the loop continues.\<close>

definition q_send :: "'e equeue \<Rightarrow> 'e equeue" where
  "q_send q =
     (case q_batch q of
        [] \<Rightarrow> q
      | e # es \<Rightarrow> q\<lparr>q_out := q_out q @ [e], q_batch := es,
                   q_pc := (if es = [] then PumpLoad else PumpDeliver)\<rparr>)"

definition q_woken :: "'e equeue \<Rightarrow> 'e equeue" where
  "q_woken q = q\<lparr>q_wake := False, q_pc := PumpLoad\<rparr>"

definition eq_stop :: "'e equeue \<Rightarrow> 'e equeue" where
  "eq_stop q = q\<lparr>q_pc := PumpDone\<rparr>"

inductive eq_step :: "'e equeue \<Rightarrow> 'e equeue \<Rightarrow> bool" where
  eq_step_load: "q_pc q = PumpLoad \<Longrightarrow> eq_step q (eq_load q)"
| eq_step_send: "q_pc q = PumpDeliver \<Longrightarrow> eq_step q (q_send q)"
| eq_step_woken: "q_pc q = PumpWait \<Longrightarrow> q_wake q \<Longrightarrow> eq_step q (q_woken q)"
| eq_step_stop: "q_pc q \<in> {PumpDeliver, PumpWait} \<Longrightarrow> q_cancelled q \<Longrightarrow> eq_step q (eq_stop q)"

section \<open>The subscriber queue of package workflow\<close>

definition wq_push :: "'e list \<Rightarrow> 'e equeue \<Rightarrow> 'e equeue" where
  "wq_push es q = (if q_closed q then q else q_signal (q\<lparr>q_pending := q_pending q @ es\<rparr>))"

definition wq_close :: "'e equeue \<Rightarrow> 'e equeue" where
  "wq_close q = q_signal (q\<lparr>q_closed := True\<rparr>)"

definition wq_gone :: "'e equeue \<Rightarrow> bool" where
  "wq_gone q \<longleftrightarrow> q_closed q \<and> q_pending q = []"

text \<open>deliver's deferred function: what is still queued is discarded, later pushes dropped.\<close>

definition wq_discard :: "'e equeue \<Rightarrow> 'e equeue" where
  "wq_discard q = q\<lparr>q_closed := True, q_pending := [], q_pc := PumpDone\<rparr>"

definition wq_load :: "'e equeue \<Rightarrow> 'e equeue" where
  "wq_load q =
     (let items = q_pending q;
          q' = q\<lparr>q_pending := [], q_batch := items\<rparr>
      in if q_closed q \<and> items = [] then wq_discard q'
         else if items \<noteq> [] then q'\<lparr>q_pc := PumpDeliver\<rparr>
         else q'\<lparr>q_pc := PumpWait\<rparr>)"

inductive wq_step :: "'e equeue \<Rightarrow> 'e equeue \<Rightarrow> bool" where
  wq_step_load: "q_pc q = PumpLoad \<Longrightarrow> wq_step q (wq_load q)"
| wq_step_send: "q_pc q = PumpDeliver \<Longrightarrow> wq_step q (q_send q)"
| wq_step_woken: "q_pc q = PumpWait \<Longrightarrow> q_wake q \<Longrightarrow> wq_step q (q_woken q)"
| wq_step_stop: "q_pc q \<in> {PumpDeliver, PumpWait} \<Longrightarrow> q_cancelled q \<Longrightarrow> wq_step q (wq_discard q)"

inductive_cases eq_stepE: "eq_step q q'"
inductive_cases wq_stepE: "wq_step q q'"

lemmas queue_defs =
  new_queue_def q_signal_def q_cancel_def eq_push_def eq_close_def eq_load_def q_send_def
  q_woken_def eq_stop_def wq_push_def wq_close_def wq_discard_def wq_load_def

section \<open>What every reachable queue satisfies\<close>

definition q_held :: "'e equeue \<Rightarrow> 'e list" where
  "q_held q = q_batch q @ q_pending q"

text \<open>
  The pump holds a batch exactly while it delivers; it waits only while nothing is queued or a
  token is there to wake it; and it is done only after a close it has drained, or once the
  context is done.
\<close>

definition q_inv :: "'e equeue \<Rightarrow> bool" where
  "q_inv q \<longleftrightarrow>
     (q_pc q = PumpDeliver \<longleftrightarrow> q_batch q \<noteq> [] \<and> q_pc q \<noteq> PumpDone)
     \<and> (q_pc q = PumpWait \<longrightarrow> q_pending q \<noteq> [] \<or> q_closed q \<longrightarrow> q_wake q)
     \<and> (q_pc q = PumpDone \<longrightarrow> \<not> q_cancelled q \<longrightarrow> q_closed q \<and> q_held q = [])"

text \<open>Every step of a pump makes this smaller, so a pump left alone comes to rest.\<close>

definition q_work :: "'e equeue \<Rightarrow> nat" where
  "q_work q =
     4 * (length (q_batch q) + length (q_pending q)) + (if q_wake q then 2 else 0)
     + (case q_pc q of PumpLoad \<Rightarrow> 2 | PumpDeliver \<Rightarrow> 1 | PumpWait \<Rightarrow> 1 | PumpDone \<Rightarrow> 0)"

section \<open>The contract\<close>

datatype 'e queue_op = Push "'e list" | Close | Cancel | Pump

text \<open>The events a history of operations puts into a queue: those pushed before its close.\<close>

fun accepted :: "'e queue_op list \<Rightarrow> 'e list" where
  "accepted [] = []"
| "accepted (Push es # ops) = es @ accepted ops"
| "accepted (Close # ops) = []"
| "accepted (Cancel # ops) = accepted ops"
| "accepted (Pump # ops) = accepted ops"

text \<open>The queues a history of operations can lead to.\<close>

inductive q_history ::
  "'q \<Rightarrow> ('e list \<Rightarrow> 'q \<Rightarrow> 'q) \<Rightarrow> ('q \<Rightarrow> 'q) \<Rightarrow> ('q \<Rightarrow> 'q) \<Rightarrow> ('q \<Rightarrow> 'q \<Rightarrow> bool)
     \<Rightarrow> 'e queue_op list \<Rightarrow> 'q \<Rightarrow> bool"
  for start push close cancel step where
  history_start: "q_history start push close cancel step [] start"
| history_push: "q_history start push close cancel step ops q \<Longrightarrow>
    q_history start push close cancel step (ops @ [Push es]) (push es q)"
| history_close: "q_history start push close cancel step ops q \<Longrightarrow>
    q_history start push close cancel step (ops @ [Close]) (close q)"
| history_cancel: "q_history start push close cancel step ops q \<Longrightarrow>
    q_history start push close cancel step (ops @ [Cancel]) (cancel q)"
| history_pump: "q_history start push close cancel step ops q \<Longrightarrow> step q r \<Longrightarrow>
    q_history start push close cancel step (ops @ [Pump]) r"

locale fifo =
  fixes start :: 'q
    and push :: "'e list \<Rightarrow> 'q \<Rightarrow> 'q"
    and close :: "'q \<Rightarrow> 'q"
    and cancel :: "'q \<Rightarrow> 'q"
    and step :: "'q \<Rightarrow> 'q \<Rightarrow> bool"
    and sent :: "'q \<Rightarrow> 'e list"
    and held :: "'q \<Rightarrow> 'e list"
    and is_closed :: "'q \<Rightarrow> bool"
    and is_cancelled :: "'q \<Rightarrow> bool"
    and inv :: "'q \<Rightarrow> bool"
    and work :: "'q \<Rightarrow> nat"
    and stopped :: "'q \<Rightarrow> bool"
  assumes start_laws: "inv start" "sent start = []" "held start = []" "\<not> is_closed start"
      "\<not> is_cancelled start"
    and push_inv: "inv q \<Longrightarrow> inv (push es q)"
    and push_sent: "sent (push es q) = sent q"
    and push_held: "held (push es q) = (if is_closed q then held q else held q @ es)"
    and push_flags: "is_closed (push es q) = is_closed q" "is_cancelled (push es q) = is_cancelled q"
    and close_inv: "inv q \<Longrightarrow> inv (close q)"
    and close_laws: "sent (close q) = sent q" "held (close q) = held q" "is_closed (close q)"
      "is_cancelled (close q) = is_cancelled q"
    and cancel_inv: "inv q \<Longrightarrow> inv (cancel q)"
    and cancel_laws: "sent (cancel q) = sent q" "held (cancel q) = held q"
      "is_closed (cancel q) = is_closed q" "is_cancelled (cancel q)"
    and step_inv: "step q r \<Longrightarrow> inv q \<Longrightarrow> inv r"
    and step_sent: "step q r \<Longrightarrow> inv q \<Longrightarrow>
      sent r = sent q \<or> (\<exists>e es. held q = e # es \<and> sent r = sent q @ [e])"
    and step_held: "step q r \<Longrightarrow> inv q \<Longrightarrow> sent r @ held r = sent q @ held q
      \<or> (is_cancelled q \<and> sent r = sent q)"
    and step_flags: "step q r \<Longrightarrow> inv q \<Longrightarrow> \<not> is_cancelled q \<Longrightarrow> is_closed r = is_closed q"
      "step q r \<Longrightarrow> is_cancelled r = is_cancelled q"
    and step_work: "step q r \<Longrightarrow> inv q \<Longrightarrow> work r < work q"
    and step_enabled: "inv q \<Longrightarrow> \<not> stopped q \<Longrightarrow> held q \<noteq> [] \<or> is_closed q \<or> is_cancelled q \<Longrightarrow>
      \<exists>r. step q r"
    and stopped_held: "inv q \<Longrightarrow> stopped q \<Longrightarrow> \<not> is_cancelled q \<Longrightarrow> held q = []"
begin

abbreviation history :: "'e queue_op list \<Rightarrow> 'q \<Rightarrow> bool" where
  "history \<equiv> q_history start push close cancel step"

lemma history_inv: "history ops q \<Longrightarrow> inv q"
  by (induction rule: q_history.induct)
    (auto intro: start_laws push_inv close_inv cancel_inv step_inv)

lemma accepted_append:
  "accepted (ops @ ops') = accepted ops @ (if Close \<in> set ops then [] else accepted ops')"
  by (induction ops rule: accepted.induct) auto

lemma history_facts:
  "history ops q \<Longrightarrow>
     (is_cancelled q \<longleftrightarrow> Cancel \<in> set ops)
     \<and> (Cancel \<notin> set ops \<longrightarrow>
         (is_closed q \<longleftrightarrow> Close \<in> set ops) \<and> sent q @ held q = accepted ops)"
proof (induction rule: q_history.induct)
  case history_start
  then show ?case by (simp add: start_laws)
next
  case (history_push ops q es)
  then show ?case by (auto simp: push_sent push_held push_flags accepted_append)
next
  case (history_close ops q)
  then show ?case by (auto simp: close_laws accepted_append)
next
  case (history_cancel ops q)
  then show ?case by (simp add: cancel_laws)
next
  case (history_pump ops q r)
  then have "inv q" by (blast intro: history_inv)
  with history_pump show ?case
    using step_flags step_held[of q r] by (auto simp: accepted_append)
qed

text \<open>No event is lost, repeated or reordered while the queue's context lasts.\<close>

lemma fifo_order:
  "history ops q \<Longrightarrow> Cancel \<notin> set ops \<Longrightarrow> sent q @ held q = accepted ops"
  using history_facts by blast

lemma drained_when_idle:
  assumes "history ops q" "Cancel \<notin> set ops" "\<nexists>r. step q r"
  shows "sent q = accepted ops"
proof -
  have "held q = []"
    using assms step_enabled stopped_held history_inv history_facts by blast
  then show ?thesis using fifo_order[OF assms(1,2)] by simp
qed

text \<open>A pump that nothing disturbs comes to rest after at most \<open>work q\<close> steps.\<close>

lemma pump_rests: "inv q \<Longrightarrow> \<exists>r. step\<^sup>*\<^sup>* q r \<and> inv r \<and> (\<nexists>r'. step r r')"
proof (induction "work q" arbitrary: q rule: less_induct)
  case less
  show ?case
  proof (cases "\<exists>r. step q r")
    case True
    then obtain r where r: "step q r" by blast
    then obtain r' where "step\<^sup>*\<^sup>* r r'" "inv r'" "\<nexists>s. step r' s"
      using less.hyps[OF step_work[OF r less.prems]] step_inv[OF r less.prems] by blast
    with r show ?thesis by (meson converse_rtranclp_into_rtranclp)
  next
    case False
    with less.prems show ?thesis by blast
  qed
qed

lemma history_star: "history ops q \<Longrightarrow> step\<^sup>*\<^sup>* q r \<Longrightarrow> \<exists>n. history (ops @ replicate n Pump) r"
proof (rotate_tac, induction rule: rtranclp_induct)
  case base
  then show ?case by (metis append_Nil2 replicate_0)
next
  case (step r s)
  then obtain n where "history (ops @ replicate n Pump) r" by blast
  then have "history ((ops @ replicate n Pump) @ [Pump]) s"
    using step.hyps(2) by (rule history_pump)
  then have "history (ops @ replicate (Suc n) Pump) s"
    by (simp add: replicate_append_same)
  then show ?case by blast
qed

lemma accepted_pump: "accepted (ops @ replicate n Pump) = accepted ops"
  by (induction n) (auto simp: accepted_append)

lemma eventually_drained:
  assumes h: "history ops q" and c: "Cancel \<notin> set ops"
  shows "\<exists>r. step\<^sup>*\<^sup>* q r \<and> sent r = accepted ops \<and> (Close \<in> set ops \<longrightarrow> stopped r)"
proof -
  obtain r where r: "step\<^sup>*\<^sup>* q r" and idle: "\<nexists>r'. step r r'"
    using pump_rests[OF history_inv[OF h]] by blast
  then obtain n where n: "history (ops @ replicate n Pump) r"
    using history_star[OF h] by blast
  then have "sent r = accepted (ops @ replicate n Pump)"
    using c idle by (intro drained_when_idle) auto
  moreover have "Close \<in> set ops \<longrightarrow> stopped r"
    using idle step_enabled[OF history_inv[OF n]] history_facts[OF n] c by auto
  ultimately show ?thesis using r by (auto simp: accepted_pump)
qed

text \<open>A queue whose context ends stops delivering.\<close>

lemma cancelled_stops:
  assumes h: "history ops q" and c: "Cancel \<in> set ops"
  shows "\<exists>r. step\<^sup>*\<^sup>* q r \<and> stopped r"
proof -
  obtain r where r: "step\<^sup>*\<^sup>* q r" and idle: "\<nexists>r'. step r r'"
    using pump_rests[OF history_inv[OF h]] by blast
  then obtain n where n: "history (ops @ replicate n Pump) r"
    using history_star[OF h] by blast
  have "stopped r"
    using idle step_enabled[OF history_inv[OF n]] history_facts[OF n] c by auto
  with r show ?thesis by blast
qed

end

section \<open>Both queues meet it\<close>

abbreviation eq_history :: "'e queue_op list \<Rightarrow> 'e equeue \<Rightarrow> bool" where
  "eq_history \<equiv> q_history new_queue eq_push eq_close q_cancel eq_step"

abbreviation wq_history :: "'e queue_op list \<Rightarrow> 'e equeue \<Rightarrow> bool" where
  "wq_history \<equiv> q_history new_queue wq_push wq_close q_cancel wq_step"

definition q_stopped :: "'e equeue \<Rightarrow> bool" where
  "q_stopped q \<longleftrightarrow> q_pc q = PumpDone"

lemma eq_step_enabled:
  "q_inv q \<Longrightarrow> \<not> q_stopped q \<Longrightarrow> q_held q \<noteq> [] \<or> q_closed q \<or> q_cancelled q \<Longrightarrow> \<exists>r. eq_step q r"
  by (cases "q_pc q") (auto simp: q_inv_def q_held_def q_stopped_def intro: eq_step.intros)

lemma wq_step_enabled:
  "q_inv q \<Longrightarrow> \<not> q_stopped q \<Longrightarrow> q_held q \<noteq> [] \<or> q_closed q \<or> q_cancelled q \<Longrightarrow> \<exists>r. wq_step q r"
  by (cases "q_pc q") (auto simp: q_inv_def q_held_def q_stopped_def intro: wq_step.intros)

interpretation hq: fifo new_queue eq_push eq_close q_cancel eq_step q_out q_held q_closed
  q_cancelled q_inv q_work q_stopped
proof unfold_locales
  show "eq_step q r \<Longrightarrow> q_inv q \<Longrightarrow> q_work r < q_work q" for q r :: "'e equeue"
    by (erule eq_stepE) (auto simp: queue_defs q_inv_def q_work_def Let_def split: list.splits)
  show "eq_step q r \<Longrightarrow> q_inv q \<Longrightarrow> q_inv r" for q r :: "'e equeue"
    by (erule eq_stepE) (auto simp: queue_defs q_inv_def q_held_def Let_def split: list.splits)
qed (auto simp: queue_defs q_inv_def q_held_def q_stopped_def Let_def intro: eq_step_enabled
    elim!: eq_stepE split: list.splits)

interpretation wq: fifo new_queue wq_push wq_close q_cancel wq_step q_out q_held q_closed
  q_cancelled q_inv q_work q_stopped
proof unfold_locales
  show "wq_step q r \<Longrightarrow> q_inv q \<Longrightarrow> q_work r < q_work q" for q r :: "'e equeue"
    by (erule wq_stepE) (auto simp: queue_defs q_inv_def q_work_def Let_def split: list.splits if_splits)
  show "wq_step q r \<Longrightarrow> q_inv q \<Longrightarrow> q_inv r" for q r :: "'e equeue"
    by (erule wq_stepE) (auto simp: queue_defs q_inv_def q_held_def Let_def split: list.splits if_splits)
qed (auto simp: queue_defs q_inv_def q_held_def q_stopped_def Let_def intro: wq_step_enabled
    elim!: wq_stepE split: list.splits if_splits)

lemma demo_history:
  "q_history start push close cancel step [Push es, Close] (close (push es start))"
  using history_close[OF history_push[OF history_start]] by fastforce

section \<open>Properties\<close>

text \<open>
  An exchange's queue loses, repeats and reorders nothing: whatever pushes, closes and pump
  steps made it, what its consumer received and what it holds are the events pushed before its
  close, in order; its pump alone can deliver all of them, and then stops if it is closed.
\<close>

theorem event_queue_delivers:
  assumes "eq_history ops q" and "Cancel \<notin> set ops"
  shows "q_out q @ q_held q = accepted ops
    \<and> (\<exists>r. eq_step\<^sup>*\<^sup>* q r \<and> q_out r = accepted ops \<and> (Close \<in> set ops \<longrightarrow> q_stopped r))"
  using hq.fifo_order[OF assms] hq.eventually_drained[OF assms] by blast

theorem event_queue_delivers_witness:
  "\<exists>r. eq_step\<^sup>*\<^sup>* (eq_close (eq_push [1, 2::nat] new_queue)) r \<and> q_out r = [1, 2] \<and> q_stopped r"
  using event_queue_delivers[OF demo_history[of new_queue eq_push eq_close q_cancel eq_step "[1, 2::nat]"]]
  by simp

text \<open>
  A subscriber's queue does the same, though it is told to wake only by a push it accepts,
  and once its subscriber's context ends its pump stops.
\<close>

theorem subscriber_queue_delivers:
  assumes "wq_history ops q"
  shows "if Cancel \<in> set ops then \<exists>r. wq_step\<^sup>*\<^sup>* q r \<and> q_stopped r
    else q_out q @ q_held q = accepted ops
      \<and> (\<exists>r. wq_step\<^sup>*\<^sup>* q r \<and> q_out r = accepted ops \<and> (Close \<in> set ops \<longrightarrow> q_stopped r))"
  using wq.fifo_order[OF assms] wq.eventually_drained[OF assms] wq.cancelled_stops[OF assms] by auto

theorem subscriber_queue_delivers_witness:
  "\<exists>r. wq_step\<^sup>*\<^sup>* (wq_close (wq_push [1, 2::nat] new_queue)) r \<and> q_out r = [1, 2] \<and> q_stopped r"
  using subscriber_queue_delivers[OF demo_history[of new_queue wq_push wq_close q_cancel wq_step "[1, 2::nat]"]]
  by simp

end
