(* ===== verification/Exchange.thy ===== *)
theory Exchange
  imports Harness Event_Queues
begin

text \<open>
  An exchange (harness/exchange.go): the fields its mutex guards, the queue its events go
  through, and every method as one atomic operation. \<open>x_ended\<close> is whether the channel
  \<open>ended\<close> is closed, \<open>x_watched\<close> whether a context still cancels the exchange
  (\<open>unwatch\<close> set and not called), and \<open>x_cancel_done\<close> whether \<open>cancelOnce\<close> ran.
  The second half states what a run of operations amounts to, as functions of the list of the
  events pushed, and proves that the exchange computes them.
\<close>

section \<open>The exchange\<close>

record exchange =
  x_id :: uuid
  x_session_id :: string
  x_request :: request
  x_started :: time
  x_events :: "event equeue"
  x_seq :: nat
  x_final :: bool
  x_cancelled :: bool
  x_result :: result
  x_err :: "err option"
  x_ended :: bool
  x_watched :: bool
  x_cancel_done :: bool

definition new_exchange :: "string \<Rightarrow> request \<Rightarrow> uuid \<Rightarrow> time \<Rightarrow> exchange" where
  "new_exchange session_id req xid now =
     \<lparr>x_id = xid, x_session_id = session_id, x_request = req, x_started = now,
      x_events = new_queue, x_seq = 0, x_final = False, x_cancelled = False,
      x_result = result_zero, x_err = None, x_ended = False, x_watched = False,
      x_cancel_done = False\<rparr>"

text \<open>Cancel: the exchange, and whether the session's cancellation hook runs.\<close>

definition x_cancel :: "exchange \<Rightarrow> exchange \<times> bool" where
  "x_cancel x = (x\<lparr>x_cancel_done := True\<rparr>, \<not> x_cancel_done x)"

text \<open>Wait: None while it blocks.\<close>

definition x_wait :: "exchange \<Rightarrow> (result \<times> err option) option" where
  "x_wait x = (if x_ended x then Some (x_result x, x_err x) else None)"

definition x_record :: "exchange \<Rightarrow> string list \<Rightarrow> err option \<Rightarrow> time \<Rightarrow> exchange_record" where
  "x_record x entries er now =
     (let er = (if x_err x \<noteq> None then x_err x else er) in
      \<lparr>re_session_id = x_session_id x,
       re_exchange_id = x_id x,
       re_request = recorded (x_request x),
       re_result = x_result x,
       re_err = (case er of None \<Rightarrow> [] | Some e \<Rightarrow> err_text e),
       re_entries = entries,
       re_started = x_started x,
       re_ended = now\<rparr>)"

definition x_watch :: "exchange \<Rightarrow> exchange" where
  "x_watch x = (if \<not> x_final x then x\<lparr>x_watched := True\<rparr> else x)"

text \<open>The switch of push: the event as it is queued, and the exchange it leaves.\<close>

definition x_fold :: "event \<Rightarrow> exchange \<Rightarrow> event \<times> exchange" where
  "x_fold ev x =
     (case ev_kind ev of
        EventMessageEnd \<Rightarrow>
          (let r = (x_result x)\<lparr>rs_stop_reason := ev_stop_reason ev, rs_text := ev_text ev\<rparr>;
               r = (case ev_usage ev of
                      None \<Rightarrow> r
                    | Some u \<Rightarrow> r\<lparr>rs_usage := usage_add (rs_usage r) u\<rparr>)
           in (ev, x\<lparr>x_result := r\<rparr>))
      | EventStructured \<Rightarrow> (ev, x\<lparr>x_result := (x_result x)\<lparr>rs_structured := ev_structured ev\<rparr>\<rparr>)
      | EventCancelled \<Rightarrow> (ev, x\<lparr>x_cancelled := True\<rparr>)
      | EventError \<Rightarrow> (ev, if x_err x = None then x\<lparr>x_err := ev_err ev\<rparr> else x)
      | EventEnded \<Rightarrow> (ev\<lparr>ev_stop_reason := rs_stop_reason (x_result x)\<rparr>, x\<lparr>x_final := True\<rparr>)
      | _ \<Rightarrow> (ev, x))"

definition x_push :: "event \<Rightarrow> exchange \<Rightarrow> exchange" where
  "x_push ev x =
     (if x_final x then x
      else
        (let x = x\<lparr>x_seq := x_seq x + 1\<rparr>;
             ev = ev\<lparr>ev_session_id := x_session_id x, ev_exchange_id := x_id x, ev_seq := x_seq x\<rparr>;
             (ev, x) = x_fold ev x;
             x = x\<lparr>x_events := eq_push [ev] (x_events x)\<rparr>
         in if ev_kind ev = EventEnded
            then x\<lparr>x_events := eq_close (x_events x), x_ended := True, x_watched := False\<rparr>
            else x))"

definition x_mark_cancelled :: "exchange \<Rightarrow> exchange" where
  "x_mark_cancelled x = x\<lparr>x_cancelled := True\<rparr>"

definition x_unanswered :: "exchange \<Rightarrow> bool" where
  "x_unanswered x \<longleftrightarrow>
     rq_schema (x_request x) \<noteq> [] \<and> rs_structured (x_result x) = [] \<and> \<not> x_cancelled x
     \<and> x_err x = None"

definition x_fail :: "err \<Rightarrow> exchange \<Rightarrow> exchange" where
  "x_fail e x = x_push (event_of EventEnded) (x_push ((event_of EventError)\<lparr>ev_err := Some e\<rparr>) x)"

section \<open>What a list of pushed events amounts to\<close>

text \<open>The events up to the first EventEnded: what follows it is dropped.\<close>

fun upto_ended :: "event list \<Rightarrow> event list" where
  "upto_ended [] = []"
| "upto_ended (ev # evs) = ev # (if ev_kind ev = EventEnded then [] else upto_ended evs)"

definition has_ended :: "event list \<Rightarrow> bool" where
  "has_ended evs \<longleftrightarrow> (\<exists>ev \<in> set evs. ev_kind ev = EventEnded)"

definition kind_events :: "event_kind \<Rightarrow> event list \<Rightarrow> event list" where
  "kind_events k evs = filter (\<lambda>ev. ev_kind ev = k) evs"

text \<open>The stop reason and text of the last message, and the sum of the usages reported.\<close>

definition last_of :: "(event \<Rightarrow> string) \<Rightarrow> event list \<Rightarrow> string" where
  "last_of f evs = (if evs = [] then [] else f (last evs))"

definition usage_sum :: "usage list \<Rightarrow> usage" where
  "usage_sum us = \<lparr>us_input = sum_list (map us_input us), us_output = sum_list (map us_output us),
     us_cache_read = sum_list (map us_cache_read us), us_cache_write = sum_list (map us_cache_write us)\<rparr>"

definition summary :: "event list \<Rightarrow> result" where
  "summary evs =
     (let ends = kind_events EventMessageEnd evs in
      \<lparr>rs_stop_reason = last_of ev_stop_reason ends,
       rs_text = last_of ev_text ends,
       rs_structured = last_of ev_structured (kind_events EventStructured evs),
       rs_usage = usage_sum (List.map_filter ev_usage ends)\<rparr>)"

definition first_err :: "event list \<Rightarrow> err option" where
  "first_err evs =
     (case List.map_filter ev_err (kind_events EventError evs) of [] \<Rightarrow> None | e # es \<Rightarrow> Some e)"

text \<open>The i-th event of a list (from 0) as the exchange queues it.\<close>

definition stamped :: "string \<Rightarrow> uuid \<Rightarrow> event list \<Rightarrow> nat \<Rightarrow> event" where
  "stamped session_id xid evs i =
     (let ev = (evs ! i)\<lparr>ev_session_id := session_id, ev_exchange_id := xid, ev_seq := Suc i\<rparr> in
      if ev_kind ev = EventEnded
      then ev\<lparr>ev_stop_reason := rs_stop_reason (summary (take i evs))\<rparr> else ev)"

definition stream :: "string \<Rightarrow> uuid \<Rightarrow> event list \<Rightarrow> event list" where
  "stream session_id xid evs = map (stamped session_id xid evs) [0..<length evs]"

section \<open>Runs of an exchange\<close>

text \<open>
  The operations that reach an exchange in any order: pushes by the session, its cancellation,
  a context's watch, the pump's steps, and the end of the session's lifetime, which ends the
  queue's context.
\<close>

datatype x_op = XPush event | XMark | XCancel | XWatch | XPump "event equeue" | XClose

fun x_apply :: "x_op \<Rightarrow> exchange \<Rightarrow> exchange" where
  "x_apply (XPush ev) x = x_push ev x"
| "x_apply XMark x = x_mark_cancelled x"
| "x_apply XCancel x = fst (x_cancel x)"
| "x_apply XWatch x = x_watch x"
| "x_apply (XPump q) x = x\<lparr>x_events := q\<rparr>"
| "x_apply XClose x = x\<lparr>x_events := q_cancel (x_events x)\<rparr>"

inductive x_run :: "exchange \<Rightarrow> x_op list \<Rightarrow> exchange \<Rightarrow> bool" for x0 where
  x_run_start: "x_run x0 [] x0"
| x_run_op: "x_run x0 ops x \<Longrightarrow> (\<forall>q. opn = XPump q \<longrightarrow> eq_step (x_events x) q) \<Longrightarrow>
    x_run x0 (ops @ [opn]) (x_apply opn x)"

fun pushed_by :: "x_op \<Rightarrow> event list" where
  "pushed_by (XPush ev) = [ev]"
| "pushed_by _ = []"

definition pushes :: "x_op list \<Rightarrow> event list" where
  "pushes ops = concat (map pushed_by ops)"


section \<open>Lemmas on summaries\<close>

lemma upto_ended_id: "\<not> has_ended evs \<Longrightarrow> upto_ended evs = evs"
  by (induction evs) (auto simp: has_ended_def)

lemma upto_ended_append:
  "upto_ended (evs @ evs') = (if has_ended evs then upto_ended evs else evs @ upto_ended evs')"
  by (induction evs) (auto simp: has_ended_def)

lemma has_ended_append [simp]: "has_ended (evs @ evs') \<longleftrightarrow> has_ended evs \<or> has_ended evs'"
  by (auto simp: has_ended_def)

lemma has_ended_simps [simp]:
  "\<not> has_ended []" "has_ended [ev] \<longleftrightarrow> ev_kind ev = EventEnded"
  by (auto simp: has_ended_def)

lemma has_ended_upto [simp]: "has_ended (upto_ended evs) \<longleftrightarrow> has_ended evs"
  by (induction evs) (auto simp: has_ended_def)

lemma kind_events_snoc [simp]:
  "kind_events k (evs @ [ev]) = kind_events k evs @ (if ev_kind ev = k then [ev] else [])"
  by (simp add: kind_events_def)

lemma last_of_snoc [simp]: "last_of f (evs @ [ev]) = f ev"
  by (simp add: last_of_def)

lemma usage_sum_snoc: "usage_sum (us @ [u]) = usage_add (usage_sum us) u"
  by (simp add: usage_sum_def usage_add_def)

lemma usage_sum_Nil [simp]: "usage_sum [] = usage_zero"
  by (simp add: usage_sum_def usage_zero_def)

lemma map_filter_snoc:
  "List.map_filter f (xs @ [x]) = List.map_filter f xs @ (case f x of None \<Rightarrow> [] | Some y \<Rightarrow> [y])"
  by (simp add: List.map_filter_def split: option.splits)

lemma summary_Nil [simp]: "summary [] = result_zero"
  by (simp add: summary_def kind_events_def last_of_def result_zero_def Let_def List.map_filter_def)

lemma first_err_Nil [simp]: "first_err [] = None"
  by (simp add: first_err_def kind_events_def List.map_filter_def)

lemma first_err_snoc:
  "first_err (evs @ [ev]) =
     (if first_err evs = None \<and> ev_kind ev = EventError then ev_err ev else first_err evs)"
  by (auto simp: first_err_def map_filter_snoc split: list.splits option.splits)

lemma stream_snoc:
  "stream sid xid (evs @ [ev]) = stream sid xid evs @ [stamped sid xid (evs @ [ev]) (length evs)]"
proof -
  have "stamped sid xid (evs @ [ev]) i = stamped sid xid evs i" if "i < length evs" for i
    using that by (simp add: stamped_def nth_append Let_def)
  then show ?thesis by (simp add: stream_def)
qed

lemma stream_Nil [simp]: "stream sid xid [] = []"
  by (simp add: stream_def)

lemma stamped_last:
  "stamped sid xid (evs @ [ev]) (length evs) =
     (let ev' = ev\<lparr>ev_session_id := sid, ev_exchange_id := xid, ev_seq := Suc (length evs)\<rparr> in
      if ev_kind ev = EventEnded
      then ev'\<lparr>ev_stop_reason := rs_stop_reason (summary evs)\<rparr> else ev')"
  by (simp add: stamped_def Let_def)

lemma stamped_kind [simp]:
  "ev_kind (stamped sid xid evs i) = ev_kind (evs ! i)" "ev_seq (stamped sid xid evs i) = Suc i"
  "ev_session_id (stamped sid xid evs i) = sid" "ev_exchange_id (stamped sid xid evs i) = xid"
  by (simp_all add: stamped_def Let_def)

text \<open>An ended stream has one EventEnded, its last event.\<close>

lemma upto_ended_butlast: "ev \<in> set (butlast (upto_ended evs)) \<Longrightarrow> ev_kind ev \<noteq> EventEnded"
  by (induction evs) (auto split: if_splits)

lemma upto_ended_eq_Nil [simp]: "upto_ended evs = [] \<longleftrightarrow> evs = []"
  by (cases evs) auto

lemma upto_ended_last: "has_ended evs \<Longrightarrow> ev_kind (last (upto_ended evs)) = EventEnded"
  by (induction evs) (auto simp: has_ended_def split: if_splits)

section \<open>What every run keeps\<close>

lemma x_fold_simps [simp]:
  "ev_kind (fst (x_fold ev x)) = ev_kind ev"
  "x_id (snd (x_fold ev x)) = x_id x"
  "x_session_id (snd (x_fold ev x)) = x_session_id x"
  "x_request (snd (x_fold ev x)) = x_request x"
  "x_started (snd (x_fold ev x)) = x_started x"
  "x_events (snd (x_fold ev x)) = x_events x"
  "x_seq (snd (x_fold ev x)) = x_seq x"
  "x_ended (snd (x_fold ev x)) = x_ended x"
  "x_cancel_done (snd (x_fold ev x)) = x_cancel_done x"
  "x_watched (snd (x_fold ev x)) = x_watched x"
  "x_final (snd (x_fold ev x)) \<longleftrightarrow> x_final x \<or> ev_kind ev = EventEnded"
  "x_cancelled (snd (x_fold ev x)) \<longleftrightarrow> x_cancelled x \<or> ev_kind ev = EventCancelled"
  by (auto simp: x_fold_def Let_def split: event_kind.splits)

lemma x_fold_result:
  "x_result x = summary evs \<Longrightarrow> x_result (snd (x_fold ev x)) = summary (evs @ [ev])"
  by (cases "ev_kind ev")
    (simp_all add: x_fold_def summary_def Let_def map_filter_snoc usage_sum_snoc
      split: option.split)

lemma x_fold_err:
  "x_err x = first_err evs \<Longrightarrow> x_err (snd (x_fold ev x)) = first_err (evs @ [ev])"
  by (auto simp: x_fold_def first_err_snoc Let_def split: event_kind.splits)

lemma x_fold_event:
  "fst (x_fold ev x) =
     (if ev_kind ev = EventEnded then ev\<lparr>ev_stop_reason := rs_stop_reason (x_result x)\<rparr> else ev)"
  by (simp add: x_fold_def Let_def split: event_kind.split)

text \<open>The queue as the pushes of a run leave it.\<close>

definition x_queue_ok :: "string \<Rightarrow> uuid \<Rightarrow> event list \<Rightarrow> bool \<Rightarrow> event equeue \<Rightarrow> bool" where
  "x_queue_ok sid xid evs cancelled q \<longleftrightarrow>
     (\<exists>qops. eq_history qops q \<and> accepted qops = stream sid xid evs
        \<and> (Close \<in> set qops \<longleftrightarrow> has_ended evs) \<and> (Cancel \<in> set qops \<longleftrightarrow> cancelled))"

definition x_follows :: "exchange \<Rightarrow> x_op list \<Rightarrow> exchange \<Rightarrow> bool" where
  "x_follows x0 ops x \<longleftrightarrow>
     (let evs = upto_ended (pushes ops) in
      x_id x = x_id x0 \<and> x_session_id x = x_session_id x0 \<and> x_request x = x_request x0
      \<and> x_started x = x_started x0
      \<and> x_seq x = length evs \<and> x_final x = has_ended evs \<and> x_ended x = has_ended evs
      \<and> x_result x = summary evs \<and> x_err x = first_err evs
      \<and> (x_watched x \<longrightarrow> \<not> has_ended evs)
      \<and> x_cancelled x = (kind_events EventCancelled evs \<noteq> [] \<or> XMark \<in> set ops)
      \<and> x_queue_ok (x_session_id x0) (x_id x0) evs (XClose \<in> set ops) (x_events x))"

lemma x_queue_push:
  assumes q: "x_queue_ok sid xid evs c q" and e: "\<not> has_ended evs"
  shows "x_queue_ok sid xid (evs @ [ev]) c
     (if ev_kind ev = EventEnded
      then eq_close (eq_push [stamped sid xid (evs @ [ev]) (length evs)] q)
      else eq_push [stamped sid xid (evs @ [ev]) (length evs)] q)"
proof -
  let ?ev = "stamped sid xid (evs @ [ev]) (length evs)"
  obtain qops where h: "eq_history qops q" and a: "accepted qops = stream sid xid evs"
    and cl: "Close \<notin> set qops" and ca: "Cancel \<in> set qops \<longleftrightarrow> c"
    using q e by (auto simp: x_queue_ok_def)
  have p: "eq_history (qops @ [Push [?ev]]) (eq_push [?ev] q)" using h by (rule history_push)
  have a': "accepted (qops @ [Push [?ev]]) = stream sid xid (evs @ [ev])"
    using a cl by (simp add: hq.accepted_append stream_snoc)
  show ?thesis
  proof (cases "ev_kind ev = EventEnded")
    case False
    then show ?thesis using p a' cl ca e unfolding x_queue_ok_def
      by (intro exI[of _ "qops @ [Push [?ev]]"]) auto
  next
    case True
    have "accepted ((qops @ [Push [?ev]]) @ [Close]) = stream sid xid (evs @ [ev])"
      unfolding hq.accepted_append[of "qops @ [Push [?ev]]"] a' by simp
    then show ?thesis using history_close[OF p] True ca e unfolding x_queue_ok_def
      by (intro exI[of _ "(qops @ [Push [?ev]]) @ [Close]"]) auto
  qed
qed

lemma x_queue_pump:
  assumes "x_queue_ok sid xid evs c q" "eq_step q r"
  shows "x_queue_ok sid xid evs c r"
proof -
  obtain qops where h: "eq_history qops q" and a: "accepted qops = stream sid xid evs"
    and cl: "Close \<in> set qops \<longleftrightarrow> has_ended evs" and ca: "Cancel \<in> set qops \<longleftrightarrow> c"
    using assms by (auto simp: x_queue_ok_def)
  show ?thesis unfolding x_queue_ok_def
    using history_pump[OF h assms(2)] a cl ca
    by (intro exI[of _ "qops @ [Pump]"]) (simp add: hq.accepted_append)
qed

lemma x_queue_cancel:
  assumes "x_queue_ok sid xid evs c q"
  shows "x_queue_ok sid xid evs True (q_cancel q)"
proof -
  obtain qops where h: "eq_history qops q" and a: "accepted qops = stream sid xid evs"
    and cl: "Close \<in> set qops \<longleftrightarrow> has_ended evs"
    using assms by (auto simp: x_queue_ok_def)
  show ?thesis unfolding x_queue_ok_def
    using history_cancel[OF h] a cl
    by (intro exI[of _ "qops @ [Cancel]"]) (simp add: hq.accepted_append)
qed

lemma x_push_final [simp]: "x_final x \<Longrightarrow> x_push ev x = x"
  by (simp add: x_push_def)

lemma x_push_fields [simp]:
  "x_id (x_push ev x) = x_id x" "x_session_id (x_push ev x) = x_session_id x"
  "x_request (x_push ev x) = x_request x" "x_started (x_push ev x) = x_started x"
  "x_cancel_done (x_push ev x) = x_cancel_done x"
  by (simp_all add: x_push_def Let_def case_prod_beta)

lemma pushes_snoc [simp]: "pushes (ops @ [opn]) = pushes ops @ pushed_by opn"
  by (simp add: pushes_def)

lemma x_follows_push:
  assumes "x_follows x0 ops x"
  shows "x_follows x0 (ops @ [XPush ev]) (x_push ev x)"
proof (cases "has_ended (pushes ops)")
  case True
  then show ?thesis using assms by (simp add: x_follows_def upto_ended_append Let_def)
next
  case False
  let ?e = "pushes ops"
  let ?x = "x\<lparr>x_seq := Suc (x_seq x)\<rparr>"
  let ?ev = "ev\<lparr>ev_session_id := x_session_id x, ev_exchange_id := x_id x, ev_seq := Suc (x_seq x)\<rparr>"
  let ?st = "stamped (x_session_id x0) (x_id x0) (?e @ [ev]) (length ?e)"
  obtain ev' y where y: "x_fold ?ev ?x = (ev', y)" by (cases "x_fold ?ev ?x")
  have e: "upto_ended ?e = ?e" "upto_ended (?e @ [ev]) = ?e @ [ev]"
    using False by (simp_all add: upto_ended_append upto_ended_id)
  have f: "x_result ?x = summary ?e" "x_err ?x = first_err ?e"
    and f': "x_final x = False" "x_seq x = length ?e"
    "x_session_id x = x_session_id x0" "x_id x = x_id x0"
    using assms False by (simp_all add: x_follows_def Let_def e)
  have st: "ev' = ?st"
    using x_fold_event[of ?ev ?x, unfolded y fst_conv] f f' by (simp add: stamped_last Let_def)
  have s: "summary (?e @ [?ev]) = summary (?e @ [ev])" "first_err (?e @ [?ev]) = first_err (?e @ [ev])"
    by (simp_all add: summary_def first_err_snoc map_filter_snoc Let_def split: option.split)
  have "x_queue_ok (x_session_id x0) (x_id x0) ?e (XClose \<in> set ops) (x_events x)"
    using assms by (simp add: x_follows_def Let_def e)
  note q = x_queue_push[OF this False, of ev]
  have push: "x_push ev x =
      (let z = y\<lparr>x_events := eq_push [?st] (x_events x)\<rparr> in
       if ev_kind ev = EventEnded
       then z\<lparr>x_events := eq_close (x_events z), x_ended := True, x_watched := False\<rparr> else z)"
    using f'(1) y x_fold_simps(1,6)[of ?ev ?x, unfolded y snd_conv fst_conv]
    by (simp add: x_push_def Let_def flip: st)
  show ?thesis
    using x_fold_simps[of ?ev ?x, unfolded y snd_conv fst_conv]
      x_fold_result[OF f(1), of ?ev, unfolded y snd_conv s]
      x_fold_err[OF f(2), of ?ev, unfolded y snd_conv s] assms q f' False
    unfolding push x_follows_def Let_def by (auto simp: e)
qed

lemma x_follows_op:
  assumes "x_follows x0 ops x" and "\<forall>q. opn = XPump q \<longrightarrow> eq_step (x_events x) q"
  shows "x_follows x0 (ops @ [opn]) (x_apply opn x)"
proof (cases opn)
  case (XPush ev)
  then show ?thesis using x_follows_push[OF assms(1)] by simp
qed (use assms in \<open>auto simp: x_follows_def Let_def x_mark_cancelled_def x_cancel_def x_watch_def
    intro: x_queue_pump x_queue_cancel\<close>)

lemma x_follows_new: "x_follows (new_exchange sid req xid now) [] (new_exchange sid req xid now)"
proof -
  have "eq_history [] (new_queue :: event equeue)" by (rule history_start)
  then have "x_queue_ok sid xid [] False new_queue" unfolding x_queue_ok_def
    by (intro exI[of _ "[]"]) simp
  then show ?thesis by (simp add: x_follows_def new_exchange_def pushes_def Let_def kind_events_def)
qed

lemma x_run_follows:
  "x_run (new_exchange sid req xid now) ops x \<Longrightarrow> x_follows (new_exchange sid req xid now) ops x"
  by (induction rule: x_run.induct) (auto intro: x_follows_new x_follows_op)

lemma x_run_cases:
  assumes "x_run (new_exchange sid req xid now) ops x"
  shows "x_id x = xid" "x_session_id x = sid" "x_request x = req" "x_started x = now"
    "x_final x = has_ended (pushes ops)" "x_ended x = has_ended (pushes ops)"
    "x_result x = summary (upto_ended (pushes ops))" "x_err x = first_err (upto_ended (pushes ops))"
    "x_queue_ok sid xid (upto_ended (pushes ops)) (XClose \<in> set ops) (x_events x)"
  using x_run_follows[OF assms] by (simp_all add: x_follows_def Let_def new_exchange_def)

lemma stream_seqs: "map ev_seq (stream sid xid evs) = [1..<Suc (length evs)]"
  by (rule nth_equalityI) (simp_all add: stream_def del: upt_Suc)

lemma stream_kinds: "map ev_kind (stream sid xid evs) = map ev_kind evs"
  by (rule nth_equalityI) (simp_all add: stream_def)

lemma x_fail_run:
  assumes "x_run x0 ops x"
  shows "x_run x0 (ops @ [XPush ((event_of EventError)\<lparr>ev_err := Some e\<rparr>), XPush (event_of EventEnded)])
    (x_fail e x)"
  using x_run_op[OF x_run_op[OF assms, of "XPush ((event_of EventError)\<lparr>ev_err := Some e\<rparr>)"],
      of "XPush (event_of EventEnded)"]
  by (simp add: x_fail_def)

section \<open>Properties\<close>

text \<open>
  Wait returns exactly when an EventEnded has been pushed, and then returns the summary of
  the events up to it: the stop reason and text of the last message, the last structured
  response, the sum of the usages, and the first error. Nothing pushed later, and no
  cancellation, watch or step of the queue changes it.
\<close>

theorem exchange_wait:
  assumes "x_run (new_exchange sid req xid now) ops x"
  shows "x_wait x =
    (let evs = upto_ended (pushes ops) in
     if has_ended (pushes ops) then Some (summary evs, first_err evs) else None)"
  using x_run_cases[OF assms] by (simp add: x_wait_def Let_def)

theorem exchange_wait_witness:
  "\<exists>x. x_wait x = Some (result_zero, Some ErrBusy)"
proof -
  let ?x0 = "new_exchange ''s'' \<lparr>rq_text = [], rq_images = [], rq_schema = []\<rparr> uuid_nil 0"
  have r: "x_run ?x0 ([] @ [XPush ((event_of EventError)\<lparr>ev_err := Some ErrBusy\<rparr>), XPush (event_of EventEnded)])
      (x_fail ErrBusy ?x0)"
    by (rule x_fail_run) (rule x_run_start)
  show ?thesis
    using exchange_wait[OF r]
    by (intro exI[of _ "x_fail ErrBusy ?x0"])
      (simp add: pushes_def event_of_def has_ended_def summary_def kind_events_def first_err_def
        last_of_def List.map_filter_def result_zero_def Let_def)
qed

text \<open>
  C36: as long as the session's lifetime lasts, what an exchange's consumer has received is a
  prefix of the exchange's stream, and the queue can still deliver all of it and then close once
  the exchange has ended. The stream is every event pushed up to the first EventEnded, in
  order, each once, with the exchange's IDs and the sequence numbers 1, 2, 3 and so on; no
  event but the last is an EventEnded.
\<close>

theorem exchange_delivers:
  assumes "x_run (new_exchange sid req xid now) ops x" and "XClose \<notin> set ops"
  defines "s \<equiv> stream sid xid (upto_ended (pushes ops))"
  shows "q_out (x_events x) @ q_held (x_events x) = s
    \<and> (\<exists>q. eq_step\<^sup>*\<^sup>* (x_events x) q \<and> q_out q = s \<and> (has_ended (pushes ops) \<longrightarrow> q_stopped q))
    \<and> map ev_seq s = [1..<Suc (length s)]
    \<and> map ev_kind s = map ev_kind (upto_ended (pushes ops))
    \<and> (\<forall>ev \<in> set s. ev_session_id ev = sid \<and> ev_exchange_id ev = xid)
    \<and> (\<forall>ev \<in> set (butlast (map ev_kind s)). ev \<noteq> EventEnded)"
proof -
  obtain qops where h: "eq_history qops (x_events x)" and a: "accepted qops = s"
    and cl: "Close \<in> set qops \<longleftrightarrow> has_ended (pushes ops)" and ca: "Cancel \<notin> set qops"
    using x_run_cases(9)[OF assms(1)] assms(2) by (auto simp: x_queue_ok_def s_def)
  have "map ev_seq s = [1..<Suc (length s)]"
    unfolding s_def by (simp add: stream_seqs) (simp add: stream_def)
  moreover have "\<forall>ev \<in> set (butlast (map ev_kind s)). ev \<noteq> EventEnded"
    unfolding s_def stream_kinds using upto_ended_butlast by (auto simp flip: map_butlast)
  ultimately show ?thesis
    using hq.fifo_order[OF h ca] hq.eventually_drained[OF h ca] a cl
    by (auto simp: s_def stream_kinds) (auto simp: stream_def)
qed

theorem exchange_delivers_witness:
  "\<exists>q :: event equeue. q_stopped q \<and> map ev_seq (q_out q) = [1, 2] \<and> map ev_kind (q_out q) = [EventError, EventEnded]"
proof -
  let ?x0 = "new_exchange ''s'' \<lparr>rq_text = [], rq_images = [], rq_schema = []\<rparr> uuid_nil 0"
  let ?ops = "[XPush ((event_of EventError)\<lparr>ev_err := Some ErrBusy\<rparr>), XPush (event_of EventEnded)]"
  have r: "x_run ?x0 ([] @ ?ops) (x_fail ErrBusy ?x0)"
    by (rule x_fail_run) (rule x_run_start)
  have p: "pushes ([] @ ?ops) = [(event_of EventError)\<lparr>ev_err := Some ErrBusy\<rparr>, event_of EventEnded]"
    "XClose \<notin> set ([] @ ?ops)"
    by (simp_all add: pushes_def)
  have e: "has_ended (pushes ([] @ ?ops))"
    "map ev_kind (upto_ended (pushes ([] @ ?ops))) = [EventError, EventEnded]"
    unfolding p by (simp_all add: has_ended_def event_of_def)
  obtain q where q: "q_out q = stream ''s'' uuid_nil (upto_ended (pushes ([] @ ?ops)))" "q_stopped q"
    using exchange_delivers[OF r p(2)] e by blast
  have l: "length (q_out q) = 2" unfolding q(1) p(1) by (simp add: stream_def event_of_def)
  have "map ev_seq (q_out q) = [1..<Suc (length (q_out q))]"
    "map ev_kind (q_out q) = [EventError, EventEnded]"
    using exchange_delivers[OF r p(2), folded q(1)] unfolding e(2) by blast+
  moreover have "[1..<Suc 2] = [1, 2::nat]" by (simp add: upt_rec)
  ultimately show ?thesis using q(2) unfolding l by metis
qed

text \<open>
  Fail ends an exchange that has not ended, with the error unless one came before it, and
  its record then carries that error's text, the request without image data, the summary of its
  events and the entries it is bound to.
\<close>

theorem exchange_fail_record:
  assumes "x_run (new_exchange sid req xid now) ops x" and "\<not> has_ended (pushes ops)"
  shows "(let e' = (case first_err (pushes ops) of None \<Rightarrow> e | Some e' \<Rightarrow> e') in
    x_wait (x_fail e x) = Some (summary (pushes ops), Some e')
    \<and> x_record (x_fail e x) entries er t =
       \<lparr>re_session_id = sid, re_exchange_id = xid, re_request = recorded req,
        re_result = summary (pushes ops), re_err = err_text e', re_entries = entries,
        re_started = now, re_ended = t\<rparr>)"
proof -
  let ?e' = "case first_err (pushes ops) of None \<Rightarrow> e | Some e' \<Rightarrow> e'"
  let ?evs = "[(event_of EventError)\<lparr>ev_err := Some e\<rparr>, event_of EventEnded]"
  note r = x_run_cases[OF x_fail_run[OF assms(1), of e]]
  have p: "pushes (ops @ [XPush ((event_of EventError)\<lparr>ev_err := Some e\<rparr>), XPush (event_of EventEnded)])
      = pushes ops @ ?evs"
    by (simp add: pushes_def)
  have u: "upto_ended (pushes ops @ ?evs) = (pushes ops @ [?evs ! 0]) @ [?evs ! 1]"
    and h: "has_ended (pushes ops @ ?evs)"
    using assms(2) by (simp_all add: upto_ended_append event_of_def has_ended_def)
  have s: "summary ((pushes ops @ [?evs ! 0]) @ [?evs ! 1]) = summary (pushes ops)"
    unfolding summary_def kind_events_snoc by (simp add: event_of_def)
  have f: "first_err ((pushes ops @ [?evs ! 0]) @ [?evs ! 1]) = Some ?e'"
    unfolding first_err_snoc by (auto simp: event_of_def split: option.splits)
  show ?thesis
    using r h unfolding p u s f x_wait_def x_record_def by (simp add: Let_def)
qed

theorem exchange_fail_record_witness:
  "x_wait (x_fail ErrClosed (new_exchange ''s'' \<lparr>rq_text = [], rq_images = [], rq_schema = []\<rparr> uuid_nil 0))
     = Some (result_zero, Some ErrClosed)"
proof -
  note x_run_start[of "new_exchange ''s'' \<lparr>rq_text = [], rq_images = [], rq_schema = []\<rparr> uuid_nil 0"]
  note t = exchange_fail_record[OF this, of ErrClosed]
  show ?thesis using t by (simp add: pushes_def)
qed

end
