(* ===== verification/Session.thy ===== *)
theory Session
  imports Exchange "HOL-Library.Sublist"
begin

text \<open>
  A session (harness/session.go): the one-exchange-at-a-time machine between callers, the route
  goroutine and cancellations. The state holds the session's fields, its exchanges, where each
  Send, the cancellation in flight and route stand, and the two things outside it that its
  records rest on: the harness's journal (\<open>s_log\<close>) and the store (\<open>s_records\<close>). Every critical
  section of the session's mutex, every operation of an exchange, and every call to the
  connection, the journal or the store is one atomic step, so all interleavings are runs of
  \<open>s_step\<close>. A Connection's answers are arguments of the steps; the journal answers what the
  Journal interface documents (connection.go), or fails.
\<close>

section \<open>State\<close>

datatype send_pc =
    SendResync bool       \<comment> \<open>the open critical section is over; resyncCursor is next\<close>
  | SendPrompt            \<comment> \<open>Connection.Prompt is next\<close>
  | SendDrop err          \<comment> \<open>err is set: the critical section that drops the exchange is next\<close>
  | SendFail err          \<comment> \<open>Exchange.fail is next\<close>
  | SendWatch             \<comment> \<open>Exchange.watch is next\<close>

datatype cancel_pc = CancelMark | CancelCall | CancelReport err | CancelDone

datatype route_pc =
    RouteRecv
  | RouteCheck uuid event
  | RouteBind uuid event
  | RouteSince uuid event string
  | RouteBound uuid event "err + string list"
  | RouteRecord uuid event "string list" "err option"
  | RoutePut uuid event exchange_record "err option"
  | RouteReport uuid event err
  | RouteClear uuid event
  | RoutePush uuid event
  | RouteExitRecord uuid err
  | RouteExitPut uuid err exchange_record
  | RouteExitReport uuid err err
  | RouteExitFail uuid err
  | RouteEnd
  | RouteDone

record session =
  s_id :: string
  s_store :: bool
  s_journal :: bool
  s_closed :: bool
  s_open :: "uuid option"
  s_run_ended :: bool
  s_cursor :: string
  s_resync :: bool
  s_exited :: bool
  s_exit_err :: "err option"
  s_cancelling :: "(uuid \<times> cancel_pc) option"
  s_done :: bool
  s_exchanges :: "uuid \<Rightarrow> exchange option"
  s_sends :: "uuid \<Rightarrow> send_pc option"
  s_route :: route_pc
  s_log :: "string list"
  s_records :: "exchange_record list"

section \<open>The journal\<close>

text \<open>Journal.Head and Journal.Since as connection.go documents them, on the entries' IDs.\<close>

definition journal_head :: "string list \<Rightarrow> string" where
  "journal_head log = (if log = [] then [] else last log)"

definition journal_since :: "string list \<Rightarrow> string \<Rightarrow> err + string list" where
  "journal_since log entry =
     (if entry = [] then Inr log
      else case dropWhile (\<lambda>e. e \<noteq> entry) log of
             [] \<Rightarrow> Inl ErrUnknownEntry
           | e # rest \<Rightarrow> Inr rest)"

section \<open>NewSession\<close>

text \<open>The last recorded entry: that of the last record that has any.\<close>

fun last_recorded :: "string \<Rightarrow> exchange_record list \<Rightarrow> string" where
  "last_recorded acc [] = acc"
| "last_recorded acc (r # rs) =
     last_recorded (if re_entries r \<noteq> [] then last (re_entries r) else acc) rs"

definition s_verify ::
  "string \<Rightarrow> (err + exchange_record list) \<Rightarrow> (string \<Rightarrow> err + string list) \<Rightarrow> err option" where
  "s_verify sid records since =
     (case records of
        Inl e \<Rightarrow> Some (wrap (''harness: records of session '' @ sid) e)
      | Inr recs \<Rightarrow>
          (let entry = last_recorded [] recs in
           if entry = [] then None
           else case since entry of
                  Inr _ \<Rightarrow> None
                | Inl e \<Rightarrow>
                    if err_is e ErrUnknownEntry
                    then Some (Errorf (err_text ErrJournalMismatch @ '': session '' @ sid
                           @ '', entry '' @ entry) [ErrJournalMismatch])
                    else Some (wrap ''harness: journal'' e)))"

definition session_start :: "string \<Rightarrow> bool \<Rightarrow> bool \<Rightarrow> string \<Rightarrow> string list
    \<Rightarrow> exchange_record list \<Rightarrow> session" where
  "session_start sid store journal cursor log recs =
     \<lparr>s_id = sid, s_store = store, s_journal = journal, s_closed = False, s_open = None,
      s_run_ended = False, s_cursor = cursor, s_resync = False, s_exited = False,
      s_exit_err = None, s_cancelling = None, s_done = False, s_exchanges = (\<lambda>_. None),
      s_sends = (\<lambda>_. None), s_route = RouteRecv, s_log = log, s_records = recs\<rparr>"

text \<open>
  NewSession over a connection that keeps a journal or not. The arguments after \<open>journal\<close> are
  the answers of Head, Records and Since; \<open>log\<close> and \<open>recs\<close> what the journal and store hold.
\<close>

definition new_session ::
  "string \<Rightarrow> bool \<Rightarrow> bool \<Rightarrow> (err + string) \<Rightarrow> (err + exchange_record list)
     \<Rightarrow> (string \<Rightarrow> err + string list) \<Rightarrow> string list \<Rightarrow> exchange_record list \<Rightarrow> err + session" where
  "new_session sid store journal head records since log recs =
     (if journal \<and> store then
        (case head of
           Inl e \<Rightarrow> Inl (wrap ''harness: journal head'' e)
         | Inr h \<Rightarrow>
             (case s_verify sid records since of
                Some e \<Rightarrow> Inl e
              | None \<Rightarrow> Inr (session_start sid store True h log recs)))
      else Inr (session_start sid store False [] log recs))"

section \<open>Send\<close>

text \<open>Send's checks of the request, before it takes the lock.\<close>

definition send_refuse :: "request \<Rightarrow> err option" where
  "send_refuse req =
     (case (if rq_schema req \<noteq> [] then validate_schema (rq_schema req) else None) of
        Some e \<Rightarrow> Some e
      | None \<Rightarrow> validate_images (rq_images req))"

datatype send_answer = SendWait | SendRefused err | SendOpens

definition send_check :: "session \<Rightarrow> send_answer" where
  "send_check s =
     (if s_cancelling s \<noteq> None then SendWait
      else if s_closed s then SendRefused ErrClosed
      else if s_exited s then SendRefused (case s_exit_err s of Some e \<Rightarrow> e | None \<Rightarrow> ErrClosed)
      else if s_open s \<noteq> None then SendRefused ErrBusy
      else SendOpens)"

definition send_open :: "request \<Rightarrow> uuid \<Rightarrow> time \<Rightarrow> session \<Rightarrow> session" where
  "send_open req xid now s =
     s\<lparr>s_exchanges := (s_exchanges s)(xid \<mapsto> new_exchange (s_id s) req xid now),
       s_open := Some xid,
       s_sends := (s_sends s)(xid \<mapsto> SendResync (s_resync s))\<rparr>"

definition send_at :: "uuid \<Rightarrow> send_pc option \<Rightarrow> session \<Rightarrow> session" where
  "send_at xid pc s = s\<lparr>s_sends := (s_sends s)(xid := pc)\<rparr>"

text \<open>What Send makes of a failed call: the session's close is the cause once it is closed.\<close>

definition send_cause :: "err \<Rightarrow> session \<Rightarrow> err" where
  "send_cause e s = (if s_closed s then ErrClosed else e)"

definition send_resync :: "uuid \<Rightarrow> bool \<Rightarrow> (err + string) \<Rightarrow> session \<Rightarrow> session" where
  "send_resync xid resync head s =
     (if \<not> resync then send_at xid (Some SendPrompt) s
      else case head of
             Inl e \<Rightarrow> send_at xid (Some (SendDrop (send_cause (wrap ''harness: journal head'' e) s))) s
           | Inr h \<Rightarrow> send_at xid (Some SendPrompt) (s\<lparr>s_cursor := h, s_resync := False\<rparr>))"

definition send_prompt :: "uuid \<Rightarrow> err option \<Rightarrow> session \<Rightarrow> session" where
  "send_prompt xid answer s =
     (case answer of
        None \<Rightarrow> send_at xid (Some SendWatch) s
      | Some e \<Rightarrow> send_at xid (Some (SendDrop (send_cause e s))) s)"

definition on_exchange :: "uuid \<Rightarrow> (exchange \<Rightarrow> exchange) \<Rightarrow> session \<Rightarrow> session" where
  "on_exchange xid f s = s\<lparr>s_exchanges := (s_exchanges s)(xid := map_option f (s_exchanges s xid))\<rparr>"

definition send_drop :: "uuid \<Rightarrow> err \<Rightarrow> session \<Rightarrow> session" where
  "send_drop xid e s =
     send_at xid (Some (SendFail e)) (if s_open s = Some xid then s\<lparr>s_open := None\<rparr> else s)"

definition send_fail :: "uuid \<Rightarrow> err \<Rightarrow> session \<Rightarrow> session" where
  "send_fail xid e s = send_at xid None (on_exchange xid (x_fail e) s)"

definition send_watch :: "uuid \<Rightarrow> session \<Rightarrow> session" where
  "send_watch xid s = send_at xid None (on_exchange xid x_watch s)"

section \<open>Cancellation\<close>

text \<open>
  Exchange.Cancel, and the hook it runs the first time, up to the end of the hook's critical
  section.
\<close>

definition s_cancel :: "uuid \<Rightarrow> session \<Rightarrow> session" where
  "s_cancel xid s =
     (if s_open s \<noteq> Some xid \<or> s_run_ended s then s
      else s\<lparr>s_cancelling := Some (xid, CancelMark)\<rparr>)"

definition exchange_cancel :: "uuid \<Rightarrow> session \<Rightarrow> session" where
  "exchange_cancel xid s =
     (case s_exchanges s xid of
        None \<Rightarrow> s
      | Some x \<Rightarrow>
          (let s' = on_exchange xid (\<lambda>x. fst (x_cancel x)) s
           in if snd (x_cancel x) then s_cancel xid s' else s'))"

definition cancel_mark :: "uuid \<Rightarrow> session \<Rightarrow> session" where
  "cancel_mark xid s =
     (on_exchange xid x_mark_cancelled s)\<lparr>s_cancelling := Some (xid, CancelCall)\<rparr>"

text \<open>The answer of Connection.Cancel.\<close>

definition cancel_call :: "uuid \<Rightarrow> err option \<Rightarrow> session \<Rightarrow> session" where
  "cancel_call xid answer s =
     s\<lparr>s_cancelling := Some (xid,
         case answer of
           Some e \<Rightarrow> if s_closed s then CancelDone else CancelReport e
         | None \<Rightarrow> CancelDone)\<rparr>"

definition error_event :: "err \<Rightarrow> event" where
  "error_event e = (event_of EventError)\<lparr>ev_err := Some e\<rparr>"

definition cancel_report :: "uuid \<Rightarrow> err \<Rightarrow> session \<Rightarrow> session" where
  "cancel_report xid e s =
     (on_exchange xid (x_push (error_event e)) s)\<lparr>s_cancelling := Some (xid, CancelDone)\<rparr>"

definition cancel_done :: "session \<Rightarrow> session" where
  "cancel_done s = s\<lparr>s_cancelling := None\<rparr>"

section \<open>route\<close>

definition route_at :: "route_pc \<Rightarrow> session \<Rightarrow> session" where
  "route_at pc s = s\<lparr>s_route := pc\<rparr>"

definition route_recv :: "event \<Rightarrow> session \<Rightarrow> session" where
  "route_recv ev s =
     (case s_open s of
        None \<Rightarrow> s
      | Some xid \<Rightarrow>
          if ev_kind ev = EventEnded then route_at (RouteCheck xid ev) (s\<lparr>s_run_ended := True\<rparr>)
          else route_at (RoutePush xid ev) s)"

definition route_check :: "uuid \<Rightarrow> event \<Rightarrow> session \<Rightarrow> session" where
  "route_check xid ev s =
     route_at (if s_store s then RouteBind xid ev else RouteClear xid ev)
       (on_exchange xid
         (\<lambda>x. if x_unanswered x then x_push (error_event ErrNoStructuredResponse) x else x) s)"

definition route_bind :: "uuid \<Rightarrow> event \<Rightarrow> session \<Rightarrow> session" where
  "route_bind xid ev s =
     route_at (if s_journal s then RouteSince xid ev (s_cursor s) else RouteRecord xid ev [] None) s"

definition route_since :: "uuid \<Rightarrow> event \<Rightarrow> (err + string list) \<Rightarrow> session \<Rightarrow> session" where
  "route_since xid ev answer s = route_at (RouteBound xid ev answer) s"

definition route_bound :: "uuid \<Rightarrow> event \<Rightarrow> (err + string list) \<Rightarrow> session \<Rightarrow> session" where
  "route_bound xid ev answer s =
     (case answer of
        Inl e \<Rightarrow>
          route_at (RouteRecord xid ev []
              (Some (wrap (''harness: bind exchange '' @ uuid_text xid @ '' to the journal'') e)))
            (s\<lparr>s_resync := True\<rparr>)
      | Inr ids \<Rightarrow>
          if ids = [] then route_at (RouteRecord xid ev [] None) s
          else route_at (RouteRecord xid ev ids None) (s\<lparr>s_cursor := last ids\<rparr>))"

definition route_record :: "uuid \<Rightarrow> event \<Rightarrow> string list \<Rightarrow> err option \<Rightarrow> time \<Rightarrow> session \<Rightarrow> session" where
  "route_record xid ev entries bind_err now s =
     (case s_exchanges s xid of
        None \<Rightarrow> s
      | Some x \<Rightarrow> route_at (RoutePut xid ev (x_record x entries bind_err now) bind_err) s)"

text \<open>put, given the store's answer: the records it leaves, and put's error.\<close>

definition s_put :: "exchange_record \<Rightarrow> err option \<Rightarrow> session \<Rightarrow> session \<times> err option" where
  "s_put rec answer s =
     (if \<not> s_store s then (s, None)
      else case answer of
             None \<Rightarrow> (s\<lparr>s_records := s_records s @ [rec]\<rparr>, None)
           | Some e \<Rightarrow>
               (s, Some (wrap (''harness: store exchange '' @ uuid_text (re_exchange_id rec)) e)))"

definition route_put :: "uuid \<Rightarrow> event \<Rightarrow> exchange_record \<Rightarrow> err option \<Rightarrow> err option \<Rightarrow> session \<Rightarrow> session" where
  "route_put xid ev rec bind_err answer s =
     (let (s, put_err) = s_put rec answer s;
          e = (case put_err of None \<Rightarrow> bind_err | Some _ \<Rightarrow> errors_join [bind_err, put_err])
      in case e of
           None \<Rightarrow> route_at (RouteClear xid ev) s
         | Some e \<Rightarrow> route_at (RouteReport xid ev e) s)"

definition route_report :: "uuid \<Rightarrow> event \<Rightarrow> err \<Rightarrow> session \<Rightarrow> session" where
  "route_report xid ev e s = route_at (RouteClear xid ev) (on_exchange xid (x_push (error_event e)) s)"

definition route_clear :: "uuid \<Rightarrow> event \<Rightarrow> session \<Rightarrow> session" where
  "route_clear xid ev s =
     route_at (RoutePush xid ev)
       ((if s_open s = Some xid then s\<lparr>s_open := None\<rparr> else s)\<lparr>s_run_ended := False\<rparr>)"

definition route_push :: "uuid \<Rightarrow> event \<Rightarrow> session \<Rightarrow> session" where
  "route_push xid ev s = route_at RouteRecv (on_exchange xid (x_push ev) s)"

text \<open>The Connection's events have closed; \<open>answer\<close> is its Err.\<close>

definition route_exit :: "err option \<Rightarrow> session \<Rightarrow> session" where
  "route_exit answer s =
     (let e = (case answer of None \<Rightarrow> ErrClosed | Some e \<Rightarrow> e) in
      route_at (case s_open s of None \<Rightarrow> RouteEnd | Some xid \<Rightarrow> RouteExitRecord xid e)
        (s\<lparr>s_exited := True, s_exit_err := Some e, s_open := None\<rparr>))"

definition route_exit_record :: "uuid \<Rightarrow> err \<Rightarrow> time \<Rightarrow> session \<Rightarrow> session" where
  "route_exit_record xid e now s =
     (case s_exchanges s xid of
        None \<Rightarrow> s
      | Some x \<Rightarrow> route_at (RouteExitPut xid e (x_record x [] (Some e) now)) s)"

definition route_exit_put :: "uuid \<Rightarrow> err \<Rightarrow> exchange_record \<Rightarrow> err option \<Rightarrow> session \<Rightarrow> session" where
  "route_exit_put xid e rec answer s =
     (let (s, put_err) = s_put rec answer s in
      route_at (case put_err of None \<Rightarrow> RouteExitFail xid e | Some e' \<Rightarrow> RouteExitReport xid e e') s)"

definition route_exit_report :: "uuid \<Rightarrow> err \<Rightarrow> err \<Rightarrow> session \<Rightarrow> session" where
  "route_exit_report xid e e' s =
     route_at (RouteExitFail xid e) (on_exchange xid (x_push (error_event e')) s)"

definition route_exit_fail :: "uuid \<Rightarrow> err \<Rightarrow> session \<Rightarrow> session" where
  "route_exit_fail xid e s = route_at RouteEnd (on_exchange xid (x_fail e) s)"

definition route_end :: "session \<Rightarrow> session" where
  "route_end s = route_at RouteDone (s\<lparr>s_done := True\<rparr>)"

section \<open>Close, and what happens outside\<close>

text \<open>Close's cancellation of the session's lifetime, the context of every exchange's queue.\<close>

definition s_close :: "session \<Rightarrow> session" where
  "s_close s =
     s\<lparr>s_closed := True,
       s_exchanges := (\<lambda>xid. map_option (x_apply XClose) (s_exchanges s xid))\<rparr>"

text \<open>The harness appends an entry to its journal.\<close>

definition s_append :: "string \<Rightarrow> session \<Rightarrow> session" where
  "s_append entry s = s\<lparr>s_log := s_log s @ [entry]\<rparr>"

section \<open>Steps\<close>

definition since_answer :: "session \<Rightarrow> string \<Rightarrow> (err + string list) \<Rightarrow> bool" where
  "since_answer s entry answer \<longleftrightarrow>
     answer = journal_since (s_log s) entry \<or> (\<exists>e. answer = Inl e)"

definition head_answer :: "session \<Rightarrow> (err + string) \<Rightarrow> bool" where
  "head_answer s answer \<longleftrightarrow> answer = Inr (journal_head (s_log s)) \<or> (\<exists>e. answer = Inl e)"

text \<open>The queue of an exchange takes a step of its pump.\<close>

definition s_pump :: "uuid \<Rightarrow> event equeue \<Rightarrow> session \<Rightarrow> session" where
  "s_pump xid q s = on_exchange xid (x_apply (XPump q)) s"

inductive s_step :: "session \<Rightarrow> session \<Rightarrow> bool" where
  step_open: "send_refuse req = None \<Longrightarrow> send_check s = SendOpens \<Longrightarrow> s_exchanges s xid = None \<Longrightarrow>
    s_step s (send_open req xid now s)"
| step_resync: "s_sends s xid = Some (SendResync b) \<Longrightarrow> head_answer s head \<Longrightarrow>
    s_step s (send_resync xid b head s)"
| step_prompt: "s_sends s xid = Some SendPrompt \<Longrightarrow> s_step s (send_prompt xid answer s)"
| step_drop: "s_sends s xid = Some (SendDrop e) \<Longrightarrow> s_step s (send_drop xid e s)"
| step_fail: "s_sends s xid = Some (SendFail e) \<Longrightarrow> s_step s (send_fail xid e s)"
| step_watch: "s_sends s xid = Some SendWatch \<Longrightarrow> s_step s (send_watch xid s)"
| step_cancel: "s_step s (exchange_cancel xid s)"
| step_cancel_mark: "s_cancelling s = Some (xid, CancelMark) \<Longrightarrow> s_step s (cancel_mark xid s)"
| step_cancel_call: "s_cancelling s = Some (xid, CancelCall) \<Longrightarrow>
    s_step s (cancel_call xid answer s)"
| step_cancel_report: "s_cancelling s = Some (xid, CancelReport e) \<Longrightarrow>
    s_step s (cancel_report xid e s)"
| step_cancel_done: "s_cancelling s = Some (xid, CancelDone) \<Longrightarrow> s_step s (cancel_done s)"
| step_recv: "s_route s = RouteRecv \<Longrightarrow> s_step s (route_recv ev s)"
| step_check: "s_route s = RouteCheck xid ev \<Longrightarrow> s_step s (route_check xid ev s)"
| step_bind: "s_route s = RouteBind xid ev \<Longrightarrow> s_step s (route_bind xid ev s)"
| step_since: "s_route s = RouteSince xid ev cursor \<Longrightarrow> since_answer s cursor answer \<Longrightarrow>
    s_step s (route_since xid ev answer s)"
| step_bound: "s_route s = RouteBound xid ev answer \<Longrightarrow> s_step s (route_bound xid ev answer s)"
| step_record: "s_route s = RouteRecord xid ev entries e \<Longrightarrow>
    s_step s (route_record xid ev entries e now s)"
| step_put: "s_route s = RoutePut xid ev rec e \<Longrightarrow> s_step s (route_put xid ev rec e answer s)"
| step_report: "s_route s = RouteReport xid ev e \<Longrightarrow> s_step s (route_report xid ev e s)"
| step_clear: "s_route s = RouteClear xid ev \<Longrightarrow> s_step s (route_clear xid ev s)"
| step_push: "s_route s = RoutePush xid ev \<Longrightarrow> s_step s (route_push xid ev s)"
| step_exit: "s_route s = RouteRecv \<Longrightarrow> s_step s (route_exit answer s)"
| step_exit_record: "s_route s = RouteExitRecord xid e \<Longrightarrow> s_step s (route_exit_record xid e now s)"
| step_exit_put: "s_route s = RouteExitPut xid e rec \<Longrightarrow>
    s_step s (route_exit_put xid e rec answer s)"
| step_exit_report: "s_route s = RouteExitReport xid e e' \<Longrightarrow>
    s_step s (route_exit_report xid e e' s)"
| step_exit_fail: "s_route s = RouteExitFail xid e \<Longrightarrow> s_step s (route_exit_fail xid e s)"
| step_end: "s_route s = RouteEnd \<Longrightarrow> s_step s (route_end s)"
| step_close: "\<not> s_closed s \<Longrightarrow> s_step s (s_close s)"
| step_append: "entry \<noteq> [] \<Longrightarrow> entry \<notin> set (s_log s) \<Longrightarrow> s_step s (s_append entry s)"
| step_pump: "s_exchanges s xid = Some x \<Longrightarrow> eq_step (x_events x) q \<Longrightarrow> s_step s (s_pump xid q s)"

abbreviation s_reach :: "session \<Rightarrow> session \<Rightarrow> bool" where
  "s_reach \<equiv> s_step\<^sup>*\<^sup>*"

section \<open>Who will end an exchange\<close>

text \<open>The exchange route is ending, in an EventEnded or in the harness's exit.\<close>

fun route_ending :: "route_pc \<Rightarrow> uuid option" where
  "route_ending RouteRecv = None"
| "route_ending (RouteCheck xid ev) = Some xid"
| "route_ending (RouteBind xid ev) = Some xid"
| "route_ending (RouteSince xid ev cursor) = Some xid"
| "route_ending (RouteBound xid ev answer) = Some xid"
| "route_ending (RouteRecord xid ev entries e) = Some xid"
| "route_ending (RoutePut xid ev rec e) = Some xid"
| "route_ending (RouteReport xid ev e) = Some xid"
| "route_ending (RouteClear xid ev) = Some xid"
| "route_ending (RoutePush xid ev) = (if ev_kind ev = EventEnded then Some xid else None)"
| "route_ending (RouteExitRecord xid e) = Some xid"
| "route_ending (RouteExitPut xid e rec) = Some xid"
| "route_ending (RouteExitReport xid e e') = Some xid"
| "route_ending (RouteExitFail xid e) = Some xid"
| "route_ending RouteEnd = None"
| "route_ending RouteDone = None"

text \<open>The event route holds while it records an exchange.\<close>

fun route_event :: "route_pc \<Rightarrow> event option" where
  "route_event (RouteCheck xid ev) = Some ev"
| "route_event (RouteBind xid ev) = Some ev"
| "route_event (RouteSince xid ev cursor) = Some ev"
| "route_event (RouteBound xid ev answer) = Some ev"
| "route_event (RouteRecord xid ev entries e) = Some ev"
| "route_event (RoutePut xid ev rec e) = Some ev"
| "route_event (RouteReport xid ev e) = Some ev"
| "route_event (RouteClear xid ev) = Some ev"
| "route_event _ = None"

fun route_exiting :: "route_pc \<Rightarrow> bool" where
  "route_exiting (RouteExitRecord xid e) = True"
| "route_exiting (RouteExitPut xid e rec) = True"
| "route_exiting (RouteExitReport xid e e') = True"
| "route_exiting (RouteExitFail xid e) = True"
| "route_exiting RouteEnd = True"
| "route_exiting RouteDone = True"
| "route_exiting _ = False"

text \<open>Some predicate holds of an exchange the session has.\<close>

definition s_has :: "(exchange \<Rightarrow> bool) \<Rightarrow> session \<Rightarrow> uuid \<Rightarrow> bool" where
  "s_has P s xid \<longleftrightarrow> (case s_exchanges s xid of None \<Rightarrow> False | Some x \<Rightarrow> P x)"

abbreviation unended :: "session \<Rightarrow> uuid \<Rightarrow> bool" where
  "unended \<equiv> s_has (\<lambda>x. \<not> x_final x)"

abbreviation known :: "session \<Rightarrow> uuid \<Rightarrow> bool" where
  "known \<equiv> s_has (\<lambda>x. True)"

lemma on_exchange_frame [simp]:
  "s_id (on_exchange xid f s) = s_id s" "s_store (on_exchange xid f s) = s_store s"
  "s_journal (on_exchange xid f s) = s_journal s" "s_closed (on_exchange xid f s) = s_closed s"
  "s_open (on_exchange xid f s) = s_open s" "s_run_ended (on_exchange xid f s) = s_run_ended s"
  "s_cursor (on_exchange xid f s) = s_cursor s" "s_resync (on_exchange xid f s) = s_resync s"
  "s_exited (on_exchange xid f s) = s_exited s" "s_exit_err (on_exchange xid f s) = s_exit_err s"
  "s_cancelling (on_exchange xid f s) = s_cancelling s" "s_done (on_exchange xid f s) = s_done s"
  "s_sends (on_exchange xid f s) = s_sends s" "s_route (on_exchange xid f s) = s_route s"
  "s_log (on_exchange xid f s) = s_log s" "s_records (on_exchange xid f s) = s_records s"
  by (simp_all add: on_exchange_def)

lemma s_has_frame [simp]:
  "s_has P (s\<lparr>s_store := a1\<rparr>) = s_has P s" "s_has P (s\<lparr>s_closed := b1\<rparr>) = s_has P s"
  "s_has P (s\<lparr>s_open := c\<rparr>) = s_has P s" "s_has P (s\<lparr>s_run_ended := d\<rparr>) = s_has P s"
  "s_has P (s\<lparr>s_cursor := e\<rparr>) = s_has P s" "s_has P (s\<lparr>s_resync := f\<rparr>) = s_has P s"
  "s_has P (s\<lparr>s_exited := g\<rparr>) = s_has P s" "s_has P (s\<lparr>s_exit_err := h\<rparr>) = s_has P s"
  "s_has P (s\<lparr>s_cancelling := i\<rparr>) = s_has P s" "s_has P (s\<lparr>s_done := j\<rparr>) = s_has P s"
  "s_has P (s\<lparr>s_sends := k\<rparr>) = s_has P s" "s_has P (s\<lparr>s_route := l\<rparr>) = s_has P s"
  "s_has P (s\<lparr>s_log := m\<rparr>) = s_has P s" "s_has P (s\<lparr>s_records := n\<rparr>) = s_has P s"
  by (simp_all add: s_has_def fun_eq_iff)

lemma s_has_upd [simp]:
  "s_has P (s\<lparr>s_exchanges := (s_exchanges s)(y \<mapsto> x)\<rparr>) xid = (if xid = y then P x else s_has P s xid)"
  by (simp add: s_has_def)

lemma s_close_frame [simp]:
  "s_has P (s_close s) = s_has (\<lambda>x. P (x_apply XClose x)) s"
  "s_id (s_close s) = s_id s" "s_store (s_close s) = s_store s" "s_journal (s_close s) = s_journal s"
  "s_open (s_close s) = s_open s" "s_run_ended (s_close s) = s_run_ended s"
  "s_cursor (s_close s) = s_cursor s" "s_resync (s_close s) = s_resync s"
  "s_exited (s_close s) = s_exited s" "s_exit_err (s_close s) = s_exit_err s"
  "s_cancelling (s_close s) = s_cancelling s" "s_done (s_close s) = s_done s"
  "s_sends (s_close s) = s_sends s" "s_route (s_close s) = s_route s"
  "s_log (s_close s) = s_log s" "s_records (s_close s) = s_records s" "s_closed (s_close s)"
  by (simp_all add: s_close_def s_has_def fun_eq_iff split: option.split)

lemma s_has_on_other [simp]: "xid \<noteq> y \<Longrightarrow> s_has P (on_exchange y f s) xid = s_has P s xid"
  by (simp add: s_has_def on_exchange_def)

lemma s_has_on [simp]: "s_has P (on_exchange y f s) y = s_has (P \<circ> f) s y"
  by (simp add: s_has_def on_exchange_def split: option.split)

lemma s_has_on_same [simp]:
  "(\<And>x. P (f x) = P x) \<Longrightarrow> s_has P (on_exchange y f s) = s_has P s"
  by (auto simp: fun_eq_iff s_has_def on_exchange_def split: option.split)

lemma s_has_on_never [simp]:
  "(\<And>x. \<not> P (f x)) \<Longrightarrow> s_has P (on_exchange y f s) xid \<longleftrightarrow> xid \<noteq> y \<and> s_has P s xid"
  by (auto simp: s_has_def on_exchange_def split: option.split)

lemma s_has_on_always [simp]:
  "(\<And>x. P (f x)) \<Longrightarrow>
     s_has P (on_exchange y f s) xid \<longleftrightarrow> (if xid = y then known s y else s_has P s xid)"
  by (auto simp: s_has_def on_exchange_def split: option.split)

lemma known_iff: "known s xid \<longleftrightarrow> s_exchanges s xid \<noteq> None"
  by (simp add: s_has_def split: option.split)

lemma s_has_on_mono:
  "(\<And>x. P (f x) \<Longrightarrow> P x) \<Longrightarrow> s_has P (on_exchange y f s) xid \<Longrightarrow> s_has P s xid"
  by (auto simp: s_has_def on_exchange_def split: option.splits if_splits)

lemma s_has_mono: "s_has P s xid \<Longrightarrow> (\<And>x. P x \<Longrightarrow> Q x) \<Longrightarrow> s_has Q s xid"
  by (auto simp: s_has_def split: option.splits)

text \<open>And of every exchange the session has.\<close>

definition s_all :: "(uuid \<Rightarrow> exchange \<Rightarrow> bool) \<Rightarrow> session \<Rightarrow> bool" where
  "s_all P s \<longleftrightarrow> (\<forall>xid x. s_exchanges s xid = Some x \<longrightarrow> P xid x)"

lemma s_all_frame [simp]:
  "s_all P (s\<lparr>s_store := a1\<rparr>) = s_all P s" "s_all P (s\<lparr>s_closed := b1\<rparr>) = s_all P s"
  "s_all P (s\<lparr>s_open := c\<rparr>) = s_all P s" "s_all P (s\<lparr>s_run_ended := d\<rparr>) = s_all P s"
  "s_all P (s\<lparr>s_cursor := e\<rparr>) = s_all P s" "s_all P (s\<lparr>s_resync := f\<rparr>) = s_all P s"
  "s_all P (s\<lparr>s_exited := g\<rparr>) = s_all P s" "s_all P (s\<lparr>s_exit_err := h\<rparr>) = s_all P s"
  "s_all P (s\<lparr>s_cancelling := i\<rparr>) = s_all P s" "s_all P (s\<lparr>s_done := j\<rparr>) = s_all P s"
  "s_all P (s\<lparr>s_sends := k\<rparr>) = s_all P s" "s_all P (s\<lparr>s_route := l\<rparr>) = s_all P s"
  "s_all P (s\<lparr>s_log := m\<rparr>) = s_all P s" "s_all P (s\<lparr>s_records := n\<rparr>) = s_all P s"
  by (simp_all add: s_all_def)

lemma s_all_mono: "s_all P s \<Longrightarrow> (\<And>xid x. s_exchanges s xid = Some x \<Longrightarrow> P xid x \<Longrightarrow> Q xid x) \<Longrightarrow> s_all Q s"
  by (simp add: s_all_def)

lemma s_all_upd:
  "s_all P s \<Longrightarrow> Q y x \<Longrightarrow> (\<And>xid x. P xid x \<Longrightarrow> Q xid x) \<Longrightarrow>
     s_all Q (s\<lparr>s_exchanges := (s_exchanges s)(y \<mapsto> x)\<rparr>)"
  by (simp add: s_all_def)

lemma s_all_on:
  "s_all P s \<Longrightarrow> (\<And>x. s_exchanges s y = Some x \<Longrightarrow> P y x \<Longrightarrow> Q y (f x)) \<Longrightarrow> (\<And>xid x. xid \<noteq> y \<Longrightarrow> P xid x \<Longrightarrow> Q xid x) \<Longrightarrow>
     s_all Q (on_exchange y f s)"
  by (auto simp: s_all_def on_exchange_def)

lemma s_all_close:
  "s_all P s \<Longrightarrow> (\<And>xid x. P xid x \<Longrightarrow> Q xid (x_apply XClose x)) \<Longrightarrow> s_all Q (s_close s)"
  by (auto simp: s_all_def s_close_def)

lemmas s_all_rules = s_all_mono s_all_upd s_all_on s_all_close

definition s_phase :: "session \<Rightarrow> bool" where
  "s_phase s \<longleftrightarrow>
     (\<forall>ev. route_event (s_route s) = Some ev \<longrightarrow> ev_kind ev = EventEnded)
     \<and> (s_exited s \<longleftrightarrow> route_exiting (s_route s))
     \<and> (s_exited s \<longrightarrow> s_open s = None)
     \<and> (s_done s \<longleftrightarrow> s_route s = RouteDone)"

definition s_ending :: "session \<Rightarrow> bool" where
  "s_ending s \<longleftrightarrow>
     (\<forall>xid. unended s xid \<longrightarrow>
        s_open s = Some xid \<or> route_ending (s_route s) = Some xid
        \<or> (\<exists>e. s_sends s xid = Some (SendFail e)))"

definition s_known :: "session \<Rightarrow> bool" where
  "s_known s \<longleftrightarrow>
     (\<forall>xid. s_open s = Some xid \<or> route_ending (s_route s) = Some xid \<longrightarrow> known s xid)"

lemma x_final_simps [simp]:
  "x_final (x_push ev x) \<longleftrightarrow> x_final x \<or> ev_kind ev = EventEnded"
  "x_final (x_fail e x)"
  "x_final (x_mark_cancelled x) = x_final x"
  "x_final (x_watch x) = x_final x"
  by (simp_all add: x_push_def x_fail_def x_mark_cancelled_def x_watch_def Let_def case_prod_beta
      event_of_def)

lemma x_cancel_done_simps [simp]:
  "x_cancel_done (x_fail e x) = x_cancel_done x"
  "x_cancel_done (x_mark_cancelled x) = x_cancel_done x"
  "x_cancel_done (x_watch x) = x_cancel_done x"
  by (simp_all add: x_fail_def x_mark_cancelled_def x_watch_def)

lemma error_event_kind [simp]: "ev_kind (error_event e) = EventError" "ev_err (error_event e) = Some e"
  by (simp_all add: error_event_def)

lemma send_check_opens:
  "send_check s = SendOpens \<longleftrightarrow>
     s_cancelling s = None \<and> \<not> s_closed s \<and> \<not> s_exited s \<and> s_open s = None"
  by (cases "s_cancelling s") (auto simp: send_check_def)

lemma not_known: "s_exchanges s xid = None \<Longrightarrow> \<not> known s xid"
  by (simp add: known_iff)

text \<open>route's step after the store's answer, apart from the records it leaves.\<close>

definition put_pc :: "uuid \<Rightarrow> event \<Rightarrow> exchange_record \<Rightarrow> err option \<Rightarrow> err option \<Rightarrow> session \<Rightarrow> route_pc" where
  "put_pc xid ev rec bind_err answer s = s_route (route_put xid ev rec bind_err answer s)"

lemma route_put_eq:
  "route_put xid ev rec e answer s =
     s\<lparr>s_records := s_records s @ (if s_store s \<and> answer = None then [rec] else []),
       s_route := put_pc xid ev rec e answer s\<rparr>"
  by (simp add: put_pc_def route_put_def s_put_def route_at_def split: option.split)

lemma put_pc_cases:
  "put_pc xid ev rec e answer s = RouteClear xid ev
     \<or> (\<exists>e'. put_pc xid ev rec e answer s = RouteReport xid ev e')"
  by (auto simp: put_pc_def route_put_def s_put_def route_at_def split: option.split)

lemma put_pc_simps [simp]:
  "route_ending (put_pc xid ev rec e answer s) = Some xid"
  "route_event (put_pc xid ev rec e answer s) = Some ev"
  "\<not> route_exiting (put_pc xid ev rec e answer s)"
  "put_pc xid ev rec e answer s \<noteq> RouteDone"
  using put_pc_cases[of xid ev rec e answer s] by auto

lemmas session_defs =
  send_open_def send_at_def send_resync_def send_prompt_def send_drop_def send_fail_def
  send_watch_def s_cancel_def exchange_cancel_def cancel_mark_def cancel_call_def
  cancel_report_def cancel_done_def route_at_def route_recv_def route_check_def route_bind_def
  route_since_def route_bound_def route_record_def s_put_def route_put_eq route_report_def
  route_clear_def route_push_def route_exit_def route_exit_record_def route_exit_put_def
  route_exit_report_def route_exit_fail_def route_end_def s_append_def s_pump_def

lemma s_phase_step: "s_step s s' \<Longrightarrow> s_phase s \<Longrightarrow> s_phase s'"
  unfolding s_phase_def
  by (erule s_step.cases;
      auto simp: session_defs send_check_opens Let_def split: option.splits sum.splits if_splits)

lemma s_ending_step: "s_step s s' \<Longrightarrow> s_phase s \<Longrightarrow> s_ending s \<Longrightarrow> s_ending s'"
  unfolding s_ending_def s_phase_def
  by (erule s_step.cases;
      auto simp: session_defs send_check_opens x_cancel_def Let_def comp_def
        split: option.splits sum.splits if_splits)

lemma s_known_step: "s_step s s' \<Longrightarrow> s_known s \<Longrightarrow> s_known s'"
  unfolding s_known_def
  by (erule s_step.cases;
      auto simp: session_defs x_cancel_def Let_def comp_def
        split: option.splits sum.splits if_splits)

section \<open>Cancellation\<close>

text \<open>
  A cancellation in flight is for the open exchange, or for one that ended since: no other
  exchange opens before it is over. An exchange is cancelled once.
\<close>

definition s_cancel_ok :: "session \<Rightarrow> bool" where
  "s_cancel_ok s \<longleftrightarrow>
     (\<forall>xid pc. s_cancelling s = Some (xid, pc) \<longrightarrow>
        (s_open s = None \<or> s_open s = Some xid) \<and> s_has x_cancel_done s xid)"

lemma s_cancel_ok_step: "s_step s s' \<Longrightarrow> s_cancel_ok s \<Longrightarrow> s_cancel_ok s'"
  unfolding s_cancel_ok_def
  by (erule s_step.cases;
      auto simp: session_defs known_iff send_check_opens x_cancel_def Let_def comp_def
        split: option.splits sum.splits if_splits)

section \<open>Structured responses\<close>

text \<open>Past route's check, the exchange being ended owes no structured response.\<close>

fun route_checked :: "route_pc \<Rightarrow> uuid option" where
  "route_checked (RouteCheck xid ev) = None"
| "route_checked (RouteExitRecord xid e) = None"
| "route_checked (RouteExitPut xid e rec) = None"
| "route_checked (RouteExitReport xid e e') = None"
| "route_checked (RouteExitFail xid e) = None"
| "route_checked pc = route_ending pc"

lemma x_push_error [simp]:
  "x_result (x_push (error_event e) x) = x_result x"
  "x_cancelled (x_push (error_event e) x) = x_cancelled x"
  "x_err (x_push (error_event e) x) = (if x_final x \<or> x_err x \<noteq> None then x_err x else Some e)"
  by (simp_all add: x_push_def x_fold_def Let_def)

lemma x_push_ended:
  assumes "ev_kind ev = EventEnded"
  shows "x_result (x_push ev x) = x_result x" "x_cancelled (x_push ev x) = x_cancelled x"
    "x_err (x_push ev x) = x_err x"
  using assms by (simp_all add: x_push_def x_fold_def Let_def)

lemma x_fail_fields [simp]:
  "x_result (x_fail e x) = x_result x" "x_cancelled (x_fail e x) = x_cancelled x"
  "x_err (x_fail e x) = (if x_final x \<or> x_err x \<noteq> None then x_err x else Some e)"
  "x_id (x_fail e x) = x_id x" "x_session_id (x_fail e x) = x_session_id x"
  "x_request (x_fail e x) = x_request x" "x_started (x_fail e x) = x_started x"
  using x_push_error[of e x] x_push_ended[of "event_of EventEnded" "x_push (error_event e) x"]
  by (simp_all add: x_fail_def error_event_def)

lemma x_unanswered_apply:
  "x_unanswered (x_mark_cancelled x) = False"
  "x_unanswered (x_watch x) = x_unanswered x"
  "x_unanswered (x\<lparr>x_cancel_done := b\<rparr>) = x_unanswered x"
  "x_unanswered (x\<lparr>x_events := q\<rparr>) = x_unanswered x"
  "x_unanswered (x_push (error_event e) x) = (x_final x \<and> x_unanswered x)"
  "x_unanswered (x_fail e x) = (x_final x \<and> x_unanswered x)"
  "ev_kind ev = EventEnded \<Longrightarrow> x_unanswered (x_push ev x) = x_unanswered x"
  by (auto simp: x_unanswered_def x_mark_cancelled_def x_watch_def x_push_ended)

lemma x_push_final_unanswered:
  "ev_kind ev \<noteq> EventEnded \<Longrightarrow>
     x_final (x_push ev x) \<and> x_unanswered (x_push ev x) \<longleftrightarrow> x_final x \<and> x_unanswered x"
  by (cases "x_final x") simp_all

lemma put_pc_checked [simp]: "route_checked (put_pc xid ev rec e answer s) = Some xid"
  using put_pc_cases[of xid ev rec e answer s] by auto

definition s_answered :: "session \<Rightarrow> bool" where
  "s_answered s \<longleftrightarrow>
     s_all (\<lambda>xid x. \<not> (x_final x \<and> x_unanswered x)
       \<and> (route_checked (s_route s) = Some xid \<longrightarrow> \<not> x_unanswered x)) s"

lemma route_checked_ending: "route_checked pc = Some xid \<Longrightarrow> route_ending pc = Some xid"
  by (cases pc) auto

lemma s_answered_step:
  "s_step s s' \<Longrightarrow> s_phase s \<Longrightarrow> s_known s \<Longrightarrow> s_answered s \<Longrightarrow> s_answered s'"
  unfolding s_answered_def s_phase_def s_known_def known_iff
  by (erule s_step.cases;
      auto simp: session_defs send_check_opens x_cancel_def Let_def x_unanswered_apply
          x_push_final_unanswered new_exchange_def
        elim!: s_all_rules dest: route_checked_ending
        split: option.splits sum.splits if_splits)

section \<open>Exchanges\<close>

text \<open>Every exchange of the session is a run of the exchange's own operations.\<close>

definition x_lives :: "string \<Rightarrow> uuid \<Rightarrow> bool \<Rightarrow> exchange \<Rightarrow> bool" where
  "x_lives sid xid closed x \<longleftrightarrow>
     (\<exists>ops req now. x_run (new_exchange sid req xid now) ops x \<and> (XClose \<in> set ops \<longleftrightarrow> closed))"

definition s_lives :: "session \<Rightarrow> bool" where
  "s_lives s \<longleftrightarrow>
     s_all (\<lambda>xid. x_lives (s_id s) xid (s_closed s)) s"

lemma x_lives_apply:
  assumes "x_lives sid xid closed x" "\<forall>q. opn = XPump q \<longrightarrow> eq_step (x_events x) q"
  shows "x_lives sid xid (closed \<or> opn = XClose) (x_apply opn x)"
proof -
  obtain ops req now where r: "x_run (new_exchange sid req xid now) ops x"
    and "XClose \<in> set ops \<longleftrightarrow> closed"
    using assms(1) by (auto simp: x_lives_def)
  with x_run_op[OF r assms(2)] show ?thesis unfolding x_lives_def
    by (intro exI[of _ "ops @ [opn]"] exI[of _ req] exI[of _ now]) auto
qed

lemma x_lives_ops:
  assumes "x_lives sid xid closed x"
  shows "x_lives sid xid closed (x_push ev x)" "x_lives sid xid closed (x_mark_cancelled x)"
    "x_lives sid xid closed (x_watch x)" "x_lives sid xid closed (x\<lparr>x_cancel_done := True\<rparr>)"
    "eq_step (x_events x) q \<Longrightarrow> x_lives sid xid closed (x\<lparr>x_events := q\<rparr>)"
    "x_lives sid xid True (x\<lparr>x_events := q_cancel (x_events x)\<rparr>)"
  using x_lives_apply[OF assms, of "XPush ev"] x_lives_apply[OF assms, of XMark]
    x_lives_apply[OF assms, of XCancel] x_lives_apply[OF assms, of XWatch]
    x_lives_apply[OF assms, of "XPump q"] x_lives_apply[OF assms, of XClose]
  by (simp_all add: x_cancel_def)

lemma x_lives_fail: "x_lives sid xid closed x \<Longrightarrow> x_lives sid xid closed (x_fail e x)"
  by (simp add: x_fail_def x_lives_ops)

lemma x_lives_new: "x_lives sid xid False (new_exchange sid req xid now)"
  unfolding x_lives_def by (intro exI[of _ "[]"]) (auto intro: x_run_start)

lemma s_lives_step: "s_step s s' \<Longrightarrow> s_lives s \<Longrightarrow> s_lives s'"
  unfolding s_lives_def
  by (erule s_step.cases;
      auto simp: session_defs send_check_opens x_cancel_def Let_def comp_def 
          x_lives_new x_lives_ops x_lives_fail
        elim!: s_all_rules
        split: option.splits sum.splits if_splits)


section \<open>Records\<close>

text \<open>The exchange route has yet to record, and the record it has made of one.\<close>

fun route_unrecorded :: "route_pc \<Rightarrow> uuid option" where
  "route_unrecorded (RouteReport xid ev e) = None"
| "route_unrecorded (RouteClear xid ev) = None"
| "route_unrecorded (RoutePush xid ev) = (if ev_kind ev = EventEnded then None else Some xid)"
| "route_unrecorded (RouteExitReport xid e e') = None"
| "route_unrecorded (RouteExitFail xid e) = None"
| "route_unrecorded pc = route_ending pc"

fun route_rec :: "route_pc \<Rightarrow> exchange_record option" where
  "route_rec (RoutePut xid ev rec e) = Some rec"
| "route_rec (RouteExitPut xid e rec) = Some rec"
| "route_rec _ = None"

fun route_reported :: "route_pc \<Rightarrow> uuid option" where
  "route_reported (RouteReport xid ev e) = Some xid"
| "route_reported (RouteClear xid ev) = Some xid"
| "route_reported _ = None"

text \<open>
  The records put since the session started, the first \<open>n\<close> being those of before: at most one
  per exchange.
\<close>

abbreviation new_ids :: "nat \<Rightarrow> session \<Rightarrow> uuid list" where
  "new_ids n s \<equiv> map re_exchange_id (drop n (s_records s))"

definition s_once :: "nat \<Rightarrow> session \<Rightarrow> bool" where
  "s_once n s \<longleftrightarrow>
     n \<le> length (s_records s) \<and> distinct (new_ids n s)
     \<and> (\<forall>xid \<in> set (new_ids n s). known s xid)
     \<and> (\<forall>xid. s_open s = Some xid \<longrightarrow> route_reported (s_route s) \<noteq> Some xid \<longrightarrow> xid \<notin> set (new_ids n s))
     \<and> (\<forall>xid. route_unrecorded (s_route s) = Some xid \<longrightarrow> xid \<notin> set (new_ids n s) \<and> known s xid)
     \<and> (\<forall>rec. route_rec (s_route s) = Some rec \<longrightarrow>
          route_unrecorded (s_route s) = Some (re_exchange_id rec))"

lemma x_record_id [simp]: "re_exchange_id (x_record x entries e now) = x_id x"
  "re_entries (x_record x entries e now) = entries"
  by (simp_all add: x_record_def Let_def)

lemma s_lives_id: "s_lives s \<Longrightarrow> s_exchanges s xid = Some x \<Longrightarrow> x_id x = xid"
  using x_run_cases(1) by (fastforce simp: s_lives_def s_all_def x_lives_def)

lemma put_pc_recorded [simp]:
  "route_unrecorded (put_pc xid ev rec e answer s) = None"
  "route_rec (put_pc xid ev rec e answer s) = None"
  "route_reported (put_pc xid ev rec e answer s) = Some xid"
  using put_pc_cases[of xid ev rec e answer s] by auto

lemma s_once_step: "s_step s s' \<Longrightarrow> s_phase s \<Longrightarrow> s_known s \<Longrightarrow> s_lives s \<Longrightarrow> s_once n s \<Longrightarrow> s_once n s'"
  unfolding s_once_def s_known_def s_phase_def
  by (erule s_step.cases;
      auto simp: session_defs send_check_opens x_cancel_def Let_def not_known dest: s_lives_id
        split: option.splits sum.splits if_splits)

text \<open>A record agrees with its exchange, from when it is made.\<close>

definition rec_matches :: "exchange_record \<Rightarrow> exchange \<Rightarrow> bool" where
  "rec_matches rec x \<longleftrightarrow>
     re_result rec = x_result x \<and> re_request rec = recorded (x_request x)
     \<and> re_session_id rec = x_session_id x \<and> re_started rec = x_started x"

definition s_content :: "nat \<Rightarrow> session \<Rightarrow> bool" where
  "s_content n s \<longleftrightarrow>
     s_all (\<lambda>xid x. \<forall>rec \<in> set (drop n (s_records s)) \<union> set_option (route_rec (s_route s)).
              re_exchange_id rec = xid \<longrightarrow> rec_matches rec x) s"

lemma rec_matches_simps [simp]:
  "rec_matches rec (x_mark_cancelled x) = rec_matches rec x"
  "rec_matches rec (x_watch x) = rec_matches rec x"
  "rec_matches rec (x\<lparr>x_cancel_done := b\<rparr>) = rec_matches rec x"
  "rec_matches rec (x\<lparr>x_events := q\<rparr>) = rec_matches rec x"
  "rec_matches rec (x_push (error_event e) x) = rec_matches rec x"
  "rec_matches rec (x_fail e x) = rec_matches rec x"
  "rec_matches (x_record x entries er now) x"
  "ev_kind ev = EventEnded \<Longrightarrow> rec_matches rec (x_push ev x) = rec_matches rec x"
  by (auto simp: rec_matches_def x_mark_cancelled_def x_watch_def x_push_ended x_record_def Let_def)

lemma s_content_step:
  "s_step s s' \<Longrightarrow> s_phase s \<Longrightarrow> s_once n s \<Longrightarrow> s_lives s \<Longrightarrow> s_content n s \<Longrightarrow> s_content n s'"
  unfolding s_content_def s_once_def s_phase_def
  by (erule s_step.cases;
      auto simp: session_defs send_check_opens x_cancel_def Let_def not_known
        elim!: s_all_rules dest: s_lives_id
        split: option.splits sum.splits if_splits)

section \<open>Entries\<close>

text \<open>Entry IDs are not empty and not repeated; a cursor is a position in the journal.\<close>

definition log_ok :: "string list \<Rightarrow> bool" where
  "log_ok log \<longleftrightarrow> distinct log \<and> [] \<notin> set log"

definition at_pos :: "string list \<Rightarrow> string \<Rightarrow> nat \<Rightarrow> bool" where
  "at_pos log c k \<longleftrightarrow> k \<le> length log \<and> c = (if k = 0 then [] else log ! (k - 1))"

text \<open>The entries \<open>ids\<close> are those of the journal from some position past \<open>b\<close> up to \<open>m\<close>.\<close>

definition segment :: "string list \<Rightarrow> nat \<Rightarrow> nat \<Rightarrow> string list \<Rightarrow> bool" where
  "segment log b m ids \<longleftrightarrow> (\<exists>j. b \<le> j \<and> j \<le> m \<and> m \<le> length log \<and> ids = drop j (take m log))"

lemma at_pos_append: "at_pos log c k \<Longrightarrow> at_pos (log @ es) c k"
  by (auto simp: at_pos_def nth_append)

lemma at_pos_le: "at_pos log c k \<Longrightarrow> k \<le> length log"
  by (simp add: at_pos_def)

lemma segment_append: "segment log b m ids \<Longrightarrow> segment (log @ es) b m ids"
  by (auto simp: segment_def)

lemma head_at_pos: "at_pos log (journal_head log) (length log)"
  by (auto simp: at_pos_def journal_head_def last_conv_nth)

lemma dropWhile_nth:
  "distinct log \<Longrightarrow> k < length log \<Longrightarrow> dropWhile (\<lambda>e. e \<noteq> log ! k) log = drop k log"
proof (induction log arbitrary: k)
  case (Cons e log)
  then show ?case by (cases k) auto
qed simp

lemma since_at_pos:
  assumes "log_ok log" "at_pos log c k"
  shows "journal_since log c = Inr (drop k log)"
proof (cases k)
  case 0
  with assms show ?thesis by (simp add: at_pos_def journal_since_def)
next
  case (Suc j)
  then have "c = log ! j" "j < length log" "log ! j \<in> set log"
    using assms by (auto simp: at_pos_def log_ok_def)
  then have "c \<noteq> []" using assms \<open>c = log ! j\<close> by (metis log_ok_def)
  with assms Suc \<open>c = log ! j\<close> \<open>j < length log\<close> show ?thesis
    by (simp add: journal_since_def dropWhile_nth log_ok_def Cons_nth_drop_Suc[symmetric] flip: Cons_nth_drop_Suc)
qed

lemma segment_last: "segment log b m ids \<Longrightarrow> ids \<noteq> [] \<Longrightarrow> at_pos log (last ids) m"
  by (auto simp: segment_def at_pos_def last_conv_nth nth_append)

lemma segment_Nil: "b \<le> length log \<Longrightarrow> segment log b b []"
  by (auto simp: segment_def)

lemma segment_sublist: "segment log b m ids \<Longrightarrow> sublist ids log"
  unfolding segment_def by (metis sublist_drop sublist_order.order.trans sublist_take)

lemma segment_subseq:
  assumes "subseq xs (drop a (take b log))" "segment log b m ids" "a \<le> b"
  shows "subseq (xs @ ids) (drop a (take m log))"
proof -
  obtain j where j: "b \<le> j" "j \<le> m" "m \<le> length log" "ids = drop j (take m log)"
    using assms(2) by (auto simp: segment_def)
  have "take m log = take b log @ drop b (take j log) @ ids"
    using j by (metis append_take_drop_id min.absorb1 min.absorb2 take_take append.assoc le_trans)
  moreover have "b \<le> length log" using j by simp
  ultimately have "drop a (take m log) = drop a (take b log) @ drop b (take j log) @ ids"
    using assms(3) by simp
  then show ?thesis using assms(1) by (simp add: list_emb_append_mono list_emb_append2)
qed

text \<open>
  Where route's cursor and the entries it holds lie: past the \<open>b\<close> entries bound so far, and up to
  the session's cursor \<open>k\<close> once bound.
\<close>

fun route_pos :: "string list \<Rightarrow> nat \<Rightarrow> nat \<Rightarrow> route_pc \<Rightarrow> bool" where
  "route_pos log b k (RouteSince xid ev c) = (\<exists>j. b \<le> j \<and> at_pos log c j)"
| "route_pos log b k (RouteBound xid ev (Inr ids)) = (\<exists>m. segment log b m ids)"
| "route_pos log b k (RouteRecord xid ev ids e) = (\<exists>m \<le> k. segment log b m ids)"
| "route_pos log b k (RoutePut xid ev rec e) = (\<exists>m \<le> k. segment log b m (re_entries rec))"
| "route_pos log b k (RouteExitPut xid e rec) = (re_entries rec = [])"
| "route_pos log b k _ = True"

definition s_bound :: "nat \<Rightarrow> nat \<Rightarrow> nat \<Rightarrow> nat \<Rightarrow> session \<Rightarrow> bool" where
  "s_bound n a b k s \<longleftrightarrow>
     a \<le> b \<and> b \<le> k \<and> n \<le> length (s_records s) \<and> at_pos (s_log s) (s_cursor s) k
     \<and> subseq (concat (map re_entries (drop n (s_records s)))) (drop a (take b (s_log s)))
     \<and> (\<forall>rec \<in> set (drop n (s_records s)). sublist (re_entries rec) (s_log s))
     \<and> route_pos (s_log s) b k (s_route s)"

lemma put_pc_pos [simp]: "route_pos log b k (put_pc xid ev rec e answer s)"
  using put_pc_cases[of xid ev rec e answer s] by auto

lemma segment_mono: "segment log b m ids \<Longrightarrow> b' \<le> b \<Longrightarrow> segment log b' m ids"
  unfolding segment_def using order.trans by blast

lemma segment_range: "segment log b m ids \<Longrightarrow> b \<le> m \<and> m \<le> length log"
  by (auto simp: segment_def)

lemma route_pos_mono: "route_pos log b k pc \<Longrightarrow> k \<le> k' \<Longrightarrow> route_pos log b k' pc"
  by (cases "(log, b, k, pc)" rule: route_pos.cases) (auto intro: order.trans)

lemma route_pos_append: "route_pos log b k pc \<Longrightarrow> route_pos (log @ es) b k pc"
  by (cases "(log, b, k, pc)" rule: route_pos.cases) (auto intro: at_pos_append segment_append)

lemma sublist_append_right: "sublist xs ys \<Longrightarrow> sublist xs (ys @ es)"
  by (metis sublist_append_rightI sublist_order.order.trans)

lemma s_bound_append: "s_bound n a b k s \<Longrightarrow> s_bound n a b k (s_append entry s)"
  using at_pos_le[of "s_log s" "s_cursor s" k]
  by (auto simp: s_bound_def s_append_def at_pos_append route_pos_append sublist_append_right)

lemma s_bound_put:
  assumes "s_bound n a b k s" "segment (s_log s) b m (re_entries rec)" "m \<le> k"
  shows "s_bound n a m k (s\<lparr>s_records := s_records s @ [rec], s_route := put_pc xid ev rec e answer s\<rparr>)"
  using assms segment_subseq[of _ a b "s_log s" m "re_entries rec"] segment_range[OF assms(2)]
  by (auto simp: s_bound_def segment_sublist)

definition s_bounded :: "nat \<Rightarrow> nat \<Rightarrow> session \<Rightarrow> bool" where
  "s_bounded n a s \<longleftrightarrow> log_ok (s_log s) \<and> (\<exists>b k. s_bound n a b k s)"

lemma s_bound_cursor:
  "s_bound n a b k s \<Longrightarrow> at_pos (s_log s) c k' \<Longrightarrow> k \<le> k' \<Longrightarrow> s_bound n a b k' (s\<lparr>s_cursor := c\<rparr>)"
  by (auto simp: s_bound_def intro: route_pos_mono)

lemma s_bound_quiet:
  "s_bound n a b k s \<Longrightarrow> s_records s' = s_records s \<Longrightarrow> s_log s' = s_log s \<Longrightarrow> s_cursor s' = s_cursor s \<Longrightarrow>
     route_pos (s_log s) b k (s_route s') \<Longrightarrow> \<exists>b k. s_bound n a b k s'"
  unfolding s_bound_def by auto

lemma s_bound_route: "s_bound n a b k s \<Longrightarrow> route_pos (s_log s) b k (s_route s)"
  by (simp add: s_bound_def)

lemma s_bound_since:
  assumes "log_ok (s_log s)" "s_bound n a b k s" "s_route s = RouteSince xid ev c"
    and "since_answer s c answer"
  shows "route_pos (s_log s) b k (RouteBound xid ev answer)"
proof (cases answer)
  case (Inr ids)
  obtain j where j: "b \<le> j" "at_pos (s_log s) c j"
    using s_bound_route[OF assms(2)] assms(3) by auto
  then have "ids = drop j (s_log s)" using assms(4) Inr since_at_pos[OF assms(1) j(2)]
    by (auto simp: since_answer_def)
  then have "segment (s_log s) b (length (s_log s)) ids"
    using j at_pos_le[OF j(2)] by (auto simp: segment_def)
  then show ?thesis using Inr by auto
qed simp

lemma s_bound_bound:
  assumes "s_bound n a b k s" "s_route s = RouteBound xid ev answer"
  shows "\<exists>b k. s_bound n a b k (route_bound xid ev answer s)"
proof (cases "\<exists>ids. answer = Inr ids \<and> ids \<noteq> []")
  case True
  then obtain ids m where ids: "answer = Inr ids" "ids \<noteq> []" and m: "segment (s_log s) b m ids"
    using s_bound_route[OF assms(1)] assms(2) by auto
  have "s_bound n a b m (route_bound xid ev answer s)"
    using assms(1) m segment_last[OF m ids(2)] segment_range[OF m]
    by (auto simp: s_bound_def route_bound_def route_at_def ids)
  then show ?thesis by blast
next
  case False
  have "segment (s_log s) b b []" using assms(1) at_pos_le
    by (fastforce simp: s_bound_def intro: segment_Nil)
  then show ?thesis using False assms
    by (intro s_bound_quiet[OF assms(1)])
      (auto simp: route_bound_def route_at_def s_bound_def split: sum.split)
qed

lemma s_bound_resync:
  assumes "s_bound n a b k s" "head_answer s head"
  shows "\<exists>b k. s_bound n a b k (send_resync xid r head s)"
proof (cases "\<exists>h. r \<and> head = Inr h")
  case True
  then obtain h where h: "r" "head = Inr h" "h = journal_head (s_log s)"
    using assms(2) by (auto simp: head_answer_def)
  have "s_bound n a b (length (s_log s)) (s\<lparr>s_cursor := h\<rparr>)"
    using assms(1) at_pos_le[of "s_log s" "s_cursor s" k] head_at_pos unfolding h(3)
    by (intro s_bound_cursor) (auto simp: s_bound_def)
  from this s_bound_route[OF this] show ?thesis using h(1,2)
    by (elim s_bound_quiet) (simp_all add: s_bound_def send_resync_def send_at_def)
next
  case False
  then show ?thesis using s_bound_route[OF assms(1)]
    by (intro s_bound_quiet[OF assms(1)])
      (auto simp: send_resync_def send_at_def split: sum.split)
qed

lemma log_ok_step: "s_step s s' \<Longrightarrow> log_ok (s_log s) \<Longrightarrow> log_ok (s_log s')"
  by (erule s_step.cases)
    (auto simp: session_defs log_ok_def Let_def split: option.splits sum.splits)

lemma s_bounded_step: "s_step s s' \<Longrightarrow> s_bounded n a s \<Longrightarrow> s_bounded n a s'"
proof -
  assume st: "s_step s s'" and "s_bounded n a s"
  then obtain b k where ok: "log_ok (s_log s)" and bk: "s_bound n a b k s"
    by (auto simp: s_bounded_def)
  note r = s_bound_route[OF bk]
  have "\<exists>b k. s_bound n a b k s'"
    using st
  proof (cases rule: s_step.cases)
    case (step_put xid ev rec e answer)
    then obtain m where m: "m \<le> k" "segment (s_log s) b m (re_entries rec)" using r by auto
    show ?thesis
    proof (cases "s_store s \<and> answer = None")
      case True
      then show ?thesis using s_bound_put[OF bk m(2,1), of xid ev e answer] step_put(1)
        by (simp add: route_put_eq) blast
    next
      case False
      then show ?thesis using step_put by (intro s_bound_quiet[OF bk]) (auto simp: route_put_eq)
    qed
  next
    case (step_exit_put xid e rec answer)
    then have "re_entries rec = []" using r by simp
    then show ?thesis using step_exit_put bk
      by (intro exI[of _ b] exI[of _ k])
        (auto simp: s_bound_def route_exit_put_def s_put_def route_at_def split: option.splits)
  next
    case (step_append entry)
    then show ?thesis using s_bound_append[OF bk] by blast
  next
    case (step_bound xid ev answer)
    then show ?thesis using s_bound_bound[OF bk] by blast
  next
    case (step_resync xid r head)
    then show ?thesis using s_bound_resync[OF bk] by blast
  next
    case (step_since xid ev cursor answer)
    then show ?thesis using s_bound_since[OF ok bk]
      by (intro s_bound_quiet[OF bk]) (simp_all add: session_defs del: route_pos.simps)
  next
    case (step_bind xid ev)
    have "segment (s_log s) b b []" "b \<le> k" "at_pos (s_log s) (s_cursor s) k" using bk at_pos_le
      by (fastforce simp: s_bound_def intro: segment_Nil)+
    then show ?thesis using step_bind
      by (intro s_bound_quiet[OF bk]) (auto simp: session_defs)
  qed (use r in \<open>auto intro!: s_bound_quiet[OF bk] simp: session_defs Let_def
      split: option.splits sum.splits\<close>)
  then show ?thesis using log_ok_step[OF st ok] by (simp add: s_bounded_def)
qed



section \<open>Reachable sessions\<close>

definition s_inv :: "nat \<Rightarrow> nat \<Rightarrow> session \<Rightarrow> bool" where
  "s_inv n a s \<longleftrightarrow> s_phase s \<and> s_known s \<and> s_ending s \<and> s_cancel_ok s \<and> s_answered s
     \<and> s_lives s \<and> s_once n s \<and> s_content n s \<and> s_bounded n a s"

lemma s_inv_step: "s_step s s' \<Longrightarrow> s_inv n a s \<Longrightarrow> s_inv n a s'"
  by (simp add: s_inv_def s_phase_step s_known_step s_ending_step s_cancel_ok_step
      s_answered_step s_lives_step s_once_step s_content_step s_bounded_step)

lemma s_inv_reach: "s_reach s s' \<Longrightarrow> s_inv n a s \<Longrightarrow> s_inv n a s'"
  by (induction rule: rtranclp_induct) (auto intro: s_inv_step)

lemma s_inv_start:
  assumes "log_ok log" "at_pos log c a"
  shows "s_inv (length recs) a (session_start sid store journal c log recs)"
proof -
  have "s_bound (length recs) a a a (session_start sid store journal c log recs)"
    using assms by (simp add: s_bound_def session_start_def)
  then show ?thesis using assms(1)
    by (auto simp: s_inv_def s_phase_def s_known_def s_ending_def s_cancel_ok_def s_answered_def
        s_lives_def s_once_def s_content_def s_bounded_def s_all_def s_has_def session_start_def)
qed

text \<open>
  How far into the journal a session's bindings start: at its head when the session opens, if it
  is journaled.
\<close>

definition session_base :: "bool \<Rightarrow> bool \<Rightarrow> string list \<Rightarrow> nat" where
  "session_base store journal log = (if journal \<and> store then length log else 0)"

lemma new_session_inv:
  assumes "new_session sid store journal (Inr (journal_head log)) records since log recs = Inr s0"
    and "log_ok log" "s_reach s0 s"
  shows "s_inv (length recs) (session_base store journal log) s"
proof -
  have "s_inv (length recs) (session_base store journal log) s0"
    using assms(1,2) head_at_pos[of log]
    by (auto simp: new_session_def session_base_def at_pos_def[of _ _ 0]
        intro!: s_inv_start split: if_splits option.splits)
  then show ?thesis using s_inv_reach[OF assms(3)] by blast
qed

definition no_sends :: "session \<Rightarrow> bool" where
  "no_sends s \<longleftrightarrow> (\<forall>xid. s_sends s xid = None)"

text \<open>
  An example: a session on an empty journal carries one exchange, whose run appends an entry,
  and the harness exits.
\<close>

definition demo :: session where
  "demo = session_start ''s'' True True [] [] []"

definition demo_request :: request where
  "demo_request = \<lparr>rq_text = ''hi'', rq_images = [], rq_schema = ''{\"type\":\"object\"}''\<rparr>"

definition demo_open :: session where
  "demo_open = s_append ''e1'' (send_watch uuid_nil (send_prompt uuid_nil None
     (send_resync uuid_nil False (Inr []) (send_open demo_request uuid_nil 0 demo))))"

definition demo_bound :: session where
  "demo_bound =
     (let ev = event_of EventEnded in
      route_bound uuid_nil ev (Inr [''e1'']) (route_since uuid_nil ev (Inr [''e1''])
       (route_bind uuid_nil ev (route_check uuid_nil ev (route_recv ev demo_open)))))"

definition demo_recorded :: session where
  "demo_recorded =
     (let ev = event_of EventEnded; x = the (s_exchanges demo_bound uuid_nil) in
      route_put uuid_nil ev (x_record x [''e1''] None 5) None None
       (route_record uuid_nil ev [''e1''] None 5 demo_bound))"

definition demo_done :: session where
  "demo_done =
     (let ev = event_of EventEnded in
      route_end (route_exit None (route_push uuid_nil ev (route_clear uuid_nil ev demo_recorded))))"

lemma demo_new:
  "new_session ''s'' True True (Inr (journal_head [])) (Inr []) (journal_since []) [] [] = Inr demo"
  by (simp add: new_session_def s_verify_def demo_def journal_head_def)

lemma s_reach_snoc: "s_reach a s \<Longrightarrow> s_step s s' \<Longrightarrow> s_reach a s'"
  by (rule rtranclp.rtrancl_into_rtrancl)

lemma demo_open_reach: "s_reach demo demo_open"
  unfolding demo_open_def
  apply (rule s_reach_snoc[OF _ step_append])
  apply (rule s_reach_snoc[OF _ step_watch])
  apply (rule s_reach_snoc[OF _ step_prompt])
  apply (rule s_reach_snoc[OF _ step_resync])
  apply (rule s_reach_snoc[OF _ step_open])
  apply (rule rtranclp.rtrancl_refl)
  unfolding head_answer_def
  by (rule disjI1 | code_simp)+

lemma demo_bound_reach: "s_reach demo demo_bound"
  unfolding demo_bound_def Let_def
  apply (rule s_reach_snoc[OF _ step_bound])
  apply (rule s_reach_snoc[OF _ step_since[where cursor = "[]"]])
  apply (rule s_reach_snoc[OF _ step_bind])
  apply (rule s_reach_snoc[OF _ step_check])
  apply (rule s_reach_snoc[OF _ step_recv])
  apply (rule demo_open_reach)
  unfolding since_answer_def
  by (rule disjI1 | code_simp)+

lemma demo_recorded_reach: "s_reach demo demo_recorded"
  unfolding demo_recorded_def Let_def
  apply (rule s_reach_snoc[OF _ step_put])
  apply (rule s_reach_snoc[OF _ step_record])
  apply (rule demo_bound_reach)
  by code_simp+

lemma demo_done_reach: "s_reach demo demo_done"
  unfolding demo_done_def Let_def
  apply (rule s_reach_snoc[OF _ step_end])
  apply (rule s_reach_snoc[OF _ step_exit])
  apply (rule s_reach_snoc[OF _ step_push])
  apply (rule s_reach_snoc[OF _ step_clear])
  apply (rule demo_recorded_reach)
  by code_simp+

lemma log_ok_Nil: "log_ok []"
  by (simp add: log_ok_def)

section \<open>Properties\<close>

text \<open>
  C34: every exchange ends. Once the harness has gone and no Send is under way, Wait returns for
  every exchange the session ever opened; and at any time an exchange that has not ended is the
  open one, or the one route is ending, or its Send is about to fail it.
\<close>

theorem session_exchange_ends:
  assumes "new_session sid store journal (Inr (journal_head log)) records since log recs = Inr s0"
    and "log_ok log" "s_reach s0 s" "s_exchanges s xid = Some x"
  shows "(s_done s \<and> no_sends s \<longrightarrow> x_wait x \<noteq> None)
    \<and> (x_wait x = None \<longrightarrow> s_open s = Some xid \<or> route_ending (s_route s) = Some xid
         \<or> (\<exists>e. s_sends s xid = Some (SendFail e)))"
proof -
  note i = new_session_inv[OF assms(1-3)]
  then have l: "x_lives (s_id s) xid (s_closed s) x"
    using assms(4) by (auto simp: s_inv_def s_lives_def s_all_def)
  then have "x_wait x = None \<longleftrightarrow> \<not> x_final x"
    using x_run_cases(5,6) unfolding x_lives_def x_wait_def by fastforce
  moreover have "\<not> x_final x \<longrightarrow> unended s xid" using assms(4) by (simp add: s_has_def)
  ultimately show ?thesis using i
    by (auto simp: s_inv_def s_ending_def s_phase_def no_sends_def)
qed

theorem session_exchange_ends_witness:
  "\<exists>x. s_exchanges demo_done uuid_nil = Some x \<and> x_wait x \<noteq> None"
proof -
  have d: "s_done demo_done" "s_exchanges demo_done uuid_nil = Some (the (s_exchanges demo_done uuid_nil))"
    by code_simp+
  have "no_sends demo_done"
    by (simp add: no_sends_def demo_done_def demo_bound_def demo_recorded_def demo_open_def demo_def Let_def
        session_defs session_start_def split: option.split)
  then show ?thesis
    using session_exchange_ends[OF demo_new log_ok_Nil demo_done_reach d(2)] d by blast
qed

text \<open>
  A cancellation reaches only the run it was meant for. One is in flight only while its
  exchange is the open one or none is, no Send opens another before it is over, and the step that
  starts one finds its exchange open with its run not ended; each exchange starts one at most.
\<close>

theorem session_cancel_exclusive:
  assumes "new_session sid store journal (Inr (journal_head log)) records since log recs = Inr s0"
    and "log_ok log" "s_reach s0 s"
  shows "(\<forall>xid pc. s_cancelling s = Some (xid, pc) \<longrightarrow>
      (s_open s = None \<or> s_open s = Some xid) \<and> send_check s = SendWait)
    \<and> (\<forall>s' xid pc. s_step s s' \<longrightarrow> s_cancelling s = None \<longrightarrow> s_cancelling s' = Some (xid, pc) \<longrightarrow>
         s_open s = Some xid \<and> \<not> s_run_ended s \<and> \<not> s_has x_cancel_done s xid
         \<and> s_has x_cancel_done s' xid)"
proof (intro conjI allI impI)
  note i = new_session_inv[OF assms]
  show "s_open s = None \<or> s_open s = Some xid" if "s_cancelling s = Some (xid, pc)" for xid pc
    using i that by (auto simp: s_inv_def s_cancel_ok_def)
  show "send_check s = SendWait" if "s_cancelling s = Some (xid, pc)" for xid pc
    using that by (simp add: send_check_def)
  fix s' xid pc
  assume st: "s_step s s'" "s_cancelling s = None" "s_cancelling s' = Some (xid, pc)"
  then have "s_open s = Some xid \<and> \<not> s_run_ended s \<and> \<not> s_has x_cancel_done s xid"
    by (cases rule: s_step.cases)
      (auto simp: session_defs x_cancel_def s_has_def Let_def split: option.splits sum.splits if_splits)
  then show "s_open s = Some xid" "\<not> s_run_ended s" "\<not> s_has x_cancel_done s xid" by blast+
  show "s_has x_cancel_done s' xid"
    using s_inv_step[OF st(1) i] st(3) by (auto simp: s_inv_def s_cancel_ok_def)
qed

theorem session_cancel_exclusive_witness:
  "s_cancelling (exchange_cancel uuid_nil demo_open) = Some (uuid_nil, CancelMark)
   \<and> send_check (exchange_cancel uuid_nil demo_open) = SendWait"
proof -
  have c: "s_cancelling (exchange_cancel uuid_nil demo_open) = Some (uuid_nil, CancelMark)"
    by code_simp
  show ?thesis
    using session_cancel_exclusive[OF demo_new log_ok_Nil
        s_reach_snoc[OF demo_open_reach step_cancel[of _ uuid_nil]]] c by blast
qed

text \<open>
  An exchange that asked for a structured response and ended without one was cancelled or
  ended in an error: Wait never returns success without it.
\<close>

theorem session_structured:
  assumes "new_session sid store journal (Inr (journal_head log)) records since log recs = Inr s0"
    and "log_ok log" "s_reach s0 s" "s_exchanges s xid = Some x"
    and "x_wait x = Some (r, e)" "rq_schema (x_request x) \<noteq> []" "rs_structured r = []"
  shows "e \<noteq> None \<or> x_cancelled x"
proof -
  note i = new_session_inv[OF assms(1-3)]
  then have l: "x_lives (s_id s) xid (s_closed s) x" and a: "\<not> (x_final x \<and> x_unanswered x)"
    using assms(4) by (auto simp: s_inv_def s_lives_def s_answered_def s_all_def)
  then have "x_final x = x_ended x"
    using x_run_cases(5,6) unfolding x_lives_def by fastforce
  with a assms(5-7) show ?thesis by (auto simp: x_unanswered_def x_wait_def split: if_splits)
qed

theorem session_structured_witness:
  "\<exists>x r e. s_exchanges demo_done uuid_nil = Some x \<and> x_wait x = Some (r, e) \<and> e \<noteq> None"
proof -
  define x where "x = the (s_exchanges demo_done uuid_nil)"
  have d: "s_exchanges demo_done uuid_nil = Some x"
    "x_wait x = Some (fst (the (x_wait x)), snd (the (x_wait x)))"
    "rq_schema (x_request x) \<noteq> []" "rs_structured (fst (the (x_wait x))) = []" "\<not> x_cancelled x"
    unfolding x_def by code_simp+
  have "snd (the (x_wait x)) \<noteq> None"
    using session_structured[OF demo_new log_ok_Nil demo_done_reach d(1-4)] d(5) by blast
  then show ?thesis using d(1,2) by blast
qed

text \<open>
  The records a session puts bind its exchanges to the journal without overlap: each
  record's entries are consecutive in the journal, no entry is in two records or twice in one,
  the records' entries are in the journal's order, and none was there before the session opened.
  That holds whatever calls to the journal or the store failed.
\<close>

theorem session_entries:
  assumes "new_session sid store journal (Inr (journal_head log)) records since log recs = Inr s0"
    and "log_ok log" "s_reach s0 s"
  shows "let new = drop (length recs) (s_records s); bound = concat (map re_entries new) in
    subseq bound (drop (session_base store journal log) (s_log s)) \<and> distinct bound
    \<and> (\<forall>rec \<in> set new. sublist (re_entries rec) (s_log s))"
proof -
  obtain b k where ok: "log_ok (s_log s)"
    and b: "s_bound (length recs) (session_base store journal log) b k s"
    using new_session_inv[OF assms] by (auto simp: s_inv_def s_bounded_def)
  have "subseq (drop a (take b (s_log s))) (drop a (s_log s))" for a
    by (metis append_take_drop_id drop_take list_emb_append_mono append_Nil2 list_emb_Nil
        subseq_order.order_refl)
  then have s: "subseq (concat (map re_entries (drop (length recs) (s_records s))))
      (drop (session_base store journal log) (s_log s))"
    using b unfolding s_bound_def by (meson subseq_order.trans)
  then have "distinct (concat (map re_entries (drop (length recs) (s_records s))))"
    using ok by (metis subseqs_distinctD in_set_subseqs distinct_drop log_ok_def)
  with s b show ?thesis by (simp add: s_bound_def Let_def)
qed

theorem session_entries_witness:
  "map re_entries (s_records demo_done) = [[''e1'']] \<and> subseq [''e1''] (s_log demo_done)"
proof -
  have r: "map re_entries (s_records demo_done) = [[''e1'']]" by code_simp
  show ?thesis
    using session_entries[OF demo_new log_ok_Nil demo_done_reach] r
    by (simp add: Let_def session_base_def)
qed

text \<open>
  C35: an exchange is recorded at most once, and a record the session put agrees with its
  exchange: the request without image data, and the result Wait returns.
\<close>

theorem session_records:
  assumes "new_session sid store journal (Inr (journal_head log)) records since log recs = Inr s0"
    and "log_ok log" "s_reach s0 s"
  shows "distinct (map re_exchange_id (drop (length recs) (s_records s)))
    \<and> (\<forall>rec \<in> set (drop (length recs) (s_records s)). \<exists>x.
         s_exchanges s (re_exchange_id rec) = Some x
         \<and> re_request rec = recorded (x_request x) \<and> re_started rec = x_started x
         \<and> (\<forall>r e. x_wait x = Some (r, e) \<longrightarrow> re_result rec = r))"
proof -
  note i = new_session_inv[OF assms]
  have o: "s_once (length recs) s" and c: "s_content (length recs) s" using i by (simp_all add: s_inv_def)
  have "\<exists>x. s_exchanges s (re_exchange_id rec) = Some x \<and> rec_matches rec x"
    if "rec \<in> set (drop (length recs) (s_records s))" for rec
    using o c that by (fastforce simp: s_once_def s_content_def s_all_def known_iff)
  then show ?thesis using o
    by (fastforce simp: s_once_def rec_matches_def x_wait_def split: if_splits)
qed

theorem session_records_witness:
  "\<exists>x. s_exchanges demo_done uuid_nil = Some x \<and> re_request (hd (s_records demo_done)) = recorded (x_request x)"
proof -
  have r: "hd (s_records demo_done) \<in> set (drop (length []) (s_records demo_done))"
    "re_exchange_id (hd (s_records demo_done)) = uuid_nil"
    by code_simp+
  show ?thesis
    using session_records[OF demo_new log_ok_Nil demo_done_reach] r by (metis (no_types, lifting))
qed

lemma last_recorded_concat:
  "last_recorded acc recs =
     (if concat (map re_entries recs) = [] then acc else last (concat (map re_entries recs)))"
  by (induction recs arbitrary: acc) (auto simp: concat_eq_Nil_conv)

text \<open>
  A session does not open over a journal that lost the session's last recorded entry: with a
  store and a journal, NewSession fails with ErrJournalMismatch exactly when the last entry of
  the last record that has entries is not in the journal.
\<close>

theorem new_session_mismatch:
  "(\<exists>e. new_session sid True True (Inr head) (Inr recs) (journal_since log) log recs = Inl e
      \<and> err_is e ErrJournalMismatch)
   \<longleftrightarrow> (let es = concat (map re_entries recs) in es \<noteq> [] \<and> last es \<noteq> [] \<and> last es \<notin> set log)"
proof -
  have d: "dropWhile (\<lambda>e. e \<noteq> entry) log = [] \<longleftrightarrow> entry \<notin> set log" for entry :: string
    by (auto simp: dropWhile_eq_Nil_conv)
  then have d': "dropWhile (\<lambda>e. e \<noteq> entry) log = e' # es \<Longrightarrow> entry \<in> set log" for entry e' es
    by (metis list.distinct(1))
  show ?thesis
    by (auto simp: new_session_def s_verify_def last_recorded_concat journal_since_def d Let_def
        split: option.splits sum.splits list.splits if_splits dest: d')
qed

end
