(* ===== verification/Workflow_Dag.thy ===== *)
theory Workflow_Dag
  imports Harness
begin

text \<open>
  A workflow (workflow/workflow.go): the DAG of steps over named sessions, its validation, the
  steps another depends on, the search for a cycle, and the rendering of a step's prompt. The
  package text/template is a parameter: \<open>parse\<close> parses a step's template by its name and text,
  \<open>execute\<close> runs a parsed one on its data.
\<close>

section \<open>Data\<close>

record session_spec =
  ss_name :: string
  ss_harness :: string
  ss_provider :: string
  ss_model :: string

record wstep =
  st_id :: string
  st_session :: string
  st_after :: "string list"
  st_prompt :: string
  st_schema :: string

record workflow =
  wf_name :: string
  wf_input :: string
  wf_sessions :: "session_spec list"
  wf_steps :: "wstep list"

record step_result =
  sr_text :: string
  sr_structured :: "json option"

record wcontext =
  cx_input :: string
  cx_steps :: "string \<Rightarrow> step_result option"

type_synonym 't template_parse = "string \<Rightarrow> string \<Rightarrow> err + 't"
type_synonym 't template_execute = "'t \<Rightarrow> wcontext \<Rightarrow> err + string"

definition ErrInvalid :: err where
  "ErrInvalid = Sentinel ''workflow: invalid workflow''"

section \<open>Lookups\<close>

definition wf_step :: "workflow \<Rightarrow> string \<Rightarrow> wstep option" where
  "wf_step w sid = find (\<lambda>st. st_id st = sid) (wf_steps w)"

definition wf_session :: "workflow \<Rightarrow> string \<Rightarrow> session_spec option" where
  "wf_session w name = find (\<lambda>ss. ss_name ss = name) (wf_sessions w)"

text \<open>The After of the step a name finds, which is empty when it finds none.\<close>

definition after :: "workflow \<Rightarrow> string \<Rightarrow> string list" where
  "after w sid = (case wf_step w sid of None \<Rightarrow> [] | Some st \<Rightarrow> st_after st)"

definition step_ids :: "workflow \<Rightarrow> string list" where
  "step_ids w = map st_id (wf_steps w)"

text \<open>The dependencies a workflow declares: \<open>(a, b)\<close> when a comes after b.\<close>

definition deps :: "workflow \<Rightarrow> (string \<times> string) set" where
  "deps w = {(a, b). b \<in> set (after w a)}"

lemma wf_step_Some: "wf_step w sid = Some st \<Longrightarrow> st \<in> set (wf_steps w) \<and> st_id st = sid"
  by (auto simp: wf_step_def find_Some_iff)

lemma after_unknown: "sid \<notin> set (step_ids w) \<Longrightarrow> after w sid = []"
  by (auto simp: after_def step_ids_def split: option.split dest!: wf_step_Some)

lemma wf_step_known: "sid \<in> set (step_ids w) \<Longrightarrow> \<exists>st. wf_step w sid = Some st"
  by (cases "wf_step w sid") (auto simp: wf_step_def step_ids_def find_None_iff)

lemma wf_step_distinct:
  "distinct (step_ids w) \<Longrightarrow> st \<in> set (wf_steps w) \<Longrightarrow> wf_step w (st_id st) = Some st"
  using wf_step_known[of "st_id st" w] wf_step_Some[of w "st_id st"]
  by (auto simp: step_ids_def distinct_map dest: inj_onD)

section \<open>Ancestors\<close>

text \<open>
  The closure visit of Ancestors: \<open>seen\<close> is the map it fills, and the list the After entries
  it still ranges over.
\<close>

function visit :: "workflow \<Rightarrow> string list \<Rightarrow> string set \<Rightarrow> string set" where
  "visit w [] seen = seen"
| "visit w (dep # ds) seen =
     (if dep \<in> seen then visit w ds seen
      else visit w ds (visit w (after w dep) (insert dep seen)))"
  by pat_completeness auto

lemma visit_mono: "visit_dom (w, ds, seen) \<Longrightarrow> seen \<subseteq> visit w ds seen"
  by (induction rule: visit.pinduct) (auto simp: visit.psimps)

definition unseen_steps :: "workflow \<Rightarrow> string set \<Rightarrow> string set" where
  "unseen_steps w seen = set (step_ids w) - seen"

lemma unseen_steps_mono: "seen \<subseteq> seen' \<Longrightarrow> card (unseen_steps w seen') \<le> card (unseen_steps w seen)"
  by (auto simp: unseen_steps_def intro!: card_mono)

lemma unseen_steps_insert:
  "dep \<in> set (step_ids w) \<Longrightarrow> dep \<notin> seen \<Longrightarrow>
     card (unseen_steps w (insert dep seen)) < card (unseen_steps w seen)"
  unfolding unseen_steps_def by (rule psubset_card_mono) auto

termination visit
proof (relation "measures [\<lambda>(w, ds, seen). card (unseen_steps w seen), \<lambda>(w, ds, seen). length ds]")
  fix w dep ds seen
  assume n: "(dep :: string) \<notin> seen"
  show "((w, after w dep, insert dep seen), w, dep # ds, seen)
      \<in> measures [\<lambda>(w, ds, seen). card (unseen_steps w seen), \<lambda>(w, ds, seen). length ds]"
  proof (cases "dep \<in> set (step_ids w)")
    case True
    then show ?thesis using unseen_steps_insert[OF True n] by simp
  next
    case False
    then have "unseen_steps w (insert dep seen) = unseen_steps w seen"
      by (auto simp: unseen_steps_def)
    then show ?thesis using after_unknown[OF False] by simp
  qed
  assume "visit_dom (w, after w dep, insert dep seen)"
  then have "seen \<subseteq> visit w (after w dep) (insert dep seen)" using visit_mono by blast
  then show "((w, ds, visit w (after w dep) (insert dep seen)), w, dep # ds, seen)
      \<in> measures [\<lambda>(w, ds, seen). card (unseen_steps w seen), \<lambda>(w, ds, seen). length ds]"
    using unseen_steps_mono[of seen "visit w (after w dep) (insert dep seen)" w]
    by (auto simp: le_less)
qed auto

definition ancestors :: "workflow \<Rightarrow> string \<Rightarrow> string list" where
  "ancestors w sid =
     (let seen = visit w (after w sid) {} in filter (\<lambda>a. a \<in> seen) (step_ids w))"

text \<open>What visit sees: every name in the list, closed under After apart from what it was given.\<close>

lemma visit_superset: "seen \<union> set ds \<subseteq> visit w ds seen"
proof (induction w ds seen rule: visit.induct)
  case (2 w dep ds seen)
  show ?case
  proof (cases "dep \<in> seen")
    case True
    then show ?thesis using "2.IH"(1) by auto
  next
    case False
    let ?m = "visit w (after w dep) (insert dep seen)"
    have "insert dep seen \<subseteq> ?m" "?m \<union> set ds \<subseteq> visit w ds ?m"
      using "2.IH"(2,3)[OF False] by blast+
    then show ?thesis using False by auto
  qed
qed simp

lemma visit_closed:
  "a \<in> visit w ds seen \<Longrightarrow> a \<in> seen \<or> set (after w a) \<subseteq> visit w ds seen"
proof (induction w ds seen arbitrary: a rule: visit.induct)
  case (2 w dep ds seen)
  show ?case
  proof (cases "dep \<in> seen")
    case True
    then show ?thesis using 2 by simp
  next
    case False
    let ?m = "visit w (after w dep) (insert dep seen)"
    have sub: "?m \<subseteq> visit w ds ?m" using visit_superset by blast
    have "a \<in> ?m \<or> set (after w a) \<subseteq> visit w ds ?m" using 2 False by simp
    then show ?thesis
    proof
      assume "a \<in> ?m"
      then have "a \<in> insert dep seen \<or> set (after w a) \<subseteq> ?m" using "2.IH"(2)[OF False] by blast
      moreover have "set (after w dep) \<subseteq> ?m" using visit_superset by blast
      ultimately show ?thesis using sub False by auto
    qed (use False in simp)
  qed
qed simp

lemma visit_sound: "a \<in> visit w ds seen \<Longrightarrow> a \<in> seen \<or> (\<exists>d \<in> set ds. (d, a) \<in> (deps w)\<^sup>*)"
proof (induction w ds seen arbitrary: a rule: visit.induct)
  case (2 w dep ds seen)
  show ?case
  proof (cases "dep \<in> seen")
    case True
    then show ?thesis using 2 by auto
  next
    case False
    let ?m = "visit w (after w dep) (insert dep seen)"
    from 2 False have "a \<in> ?m \<or> (\<exists>d \<in> set ds. (d, a) \<in> (deps w)\<^sup>*)" by auto
    moreover have "(dep, d) \<in> deps w" if "d \<in> set (after w dep)" for d
      using that by (simp add: deps_def)
    ultimately show ?thesis using "2.IH"(2)[OF False, of a]
      by (auto intro: converse_rtrancl_into_rtrancl)
  qed
qed simp

lemma visit_reachable: "visit w (after w sid) {} = {a. (sid, a) \<in> (deps w)\<^sup>+}"
proof -
  have "a \<in> visit w (after w sid) {}" if "(sid, a) \<in> (deps w)\<^sup>+" for a
    using that
  proof (induction rule: trancl_induct)
    case (base y)
    then show ?case using visit_superset[of "{}" "after w sid" w] by (auto simp: deps_def)
  next
    case (step y z)
    then show ?case using visit_closed[of y w "after w sid" "{}"] by (auto simp: deps_def)
  qed
  moreover have "(sid, a) \<in> (deps w)\<^sup>+" if "a \<in> visit w (after w sid) {}" for a
    using visit_sound[OF that] by (auto simp: deps_def intro: rtrancl_into_trancl2)
  ultimately show ?thesis by blast
qed

section \<open>The search for a cycle\<close>

datatype mark = Unseen | Visiting | Done

text \<open>
  The closure visit of cycle over a list of names: the cycle it finds, or the marks it leaves.
  The path is back at what it was when a visit finds nothing, so it is an argument.
\<close>

definition set_mark :: "string \<Rightarrow> mark \<Rightarrow> (string \<Rightarrow> mark) \<Rightarrow> string \<Rightarrow> mark" where
  "set_mark v k m = m(v := k)"

function cycle_visit ::
  "workflow \<Rightarrow> string list \<Rightarrow> (string \<Rightarrow> mark) \<Rightarrow> string list
     \<Rightarrow> string list option \<times> (string \<Rightarrow> mark)" where
  "cycle_visit w [] m path = (None, m)"
| "cycle_visit w (v # vs) m path =
     (case m v of
        Visiting \<Rightarrow> (Some (dropWhile (\<lambda>u. u \<noteq> v) path @ [v]), m)
      | Done \<Rightarrow> cycle_visit w vs m path
      | Unseen \<Rightarrow>
          (case cycle_visit w (after w v) (set_mark v Visiting m) (path @ [v]) of
             (Some c, m') \<Rightarrow> (Some c, m')
           | (None, m') \<Rightarrow> cycle_visit w vs (set_mark v Done m') path))"
  by pat_completeness auto

definition unmarked :: "(string \<Rightarrow> mark) \<Rightarrow> string set" where
  "unmarked m = {v. m v = Unseen}"

lemma cycle_visit_marks:
  "cycle_visit_dom (w, vs, m, path) \<Longrightarrow>
     unmarked (snd (cycle_visit w vs m path)) \<subseteq> unmarked m"
proof (induction rule: cycle_visit.pinduct)
  case (2 w v vs m path)
  show ?case
  proof (cases "m v")
    case Unseen
    obtain c m' where c: "cycle_visit w (after w v) (set_mark v Visiting m) (path @ [v]) = (c, m')"
      by fastforce
    then have "unmarked m' \<subseteq> unmarked (set_mark v Visiting m)" using "2.IH"(1)[OF Unseen] by simp
    then have "unmarked m' \<subseteq> unmarked m" "unmarked (set_mark v Done m') \<subseteq> unmarked m"
      by (auto simp: unmarked_def set_mark_def split: if_splits)
    then show ?thesis using Unseen c "2.hyps" "2.IH"(2)[OF Unseen c[symmetric]]
      by (cases c) (auto simp: cycle_visit.psimps)
  qed (use 2 in \<open>auto simp: cycle_visit.psimps\<close>)
qed (simp add: cycle_visit.psimps)

definition unmarked_steps :: "workflow \<Rightarrow> (string \<Rightarrow> mark) \<Rightarrow> string set" where
  "unmarked_steps w m = set (step_ids w) \<inter> unmarked m"

lemma unmarked_steps_mono:
  "unmarked m' \<subseteq> unmarked m \<Longrightarrow> card (unmarked_steps w m') \<le> card (unmarked_steps w m)"
  by (auto simp: unmarked_steps_def intro!: card_mono)

lemma unmarked_steps_visiting:
  "v \<in> set (step_ids w) \<Longrightarrow> m v = Unseen \<Longrightarrow>
     card (unmarked_steps w (set_mark v Visiting m)) < card (unmarked_steps w m)"
  unfolding unmarked_steps_def by (rule psubset_card_mono) (auto simp: unmarked_def set_mark_def)

termination cycle_visit
proof (relation "measures [\<lambda>(w, vs, m, path). card (unmarked_steps w m), \<lambda>(w, vs, m, path). length vs]")
  fix w v vs path and m :: "string \<Rightarrow> mark"
  assume v: "m v = Unseen"
  show "((w, after w v, set_mark v Visiting m, path @ [v]), w, v # vs, m, path)
      \<in> measures [\<lambda>(w, vs, m, path). card (unmarked_steps w m), \<lambda>(w, vs, m, path). length vs]"
  proof (cases "v \<in> set (step_ids w)")
    case True
    then show ?thesis using unmarked_steps_visiting[of v w m, OF True v] by simp
  next
    case False
    then have "unmarked_steps w (set_mark v Visiting m) = unmarked_steps w m"
      by (auto simp: unmarked_steps_def unmarked_def set_mark_def)
    then show ?thesis using after_unknown[OF False] by simp
  qed
next
  fix w v vs path and m m' :: "string \<Rightarrow> mark"
  fix c :: "string list option"
  assume v: "m v = Unseen" and d: "cycle_visit_dom (w, after w v, set_mark v Visiting m, path @ [v])"
    and c: "(c, m') = cycle_visit w (after w v) (set_mark v Visiting m) (path @ [v])"
  have "unmarked m' \<subseteq> unmarked (set_mark v Visiting m)"
    using cycle_visit_marks[OF d] by (simp flip: c)
  then have "unmarked (set_mark v Done m') \<subseteq> unmarked m" by (auto simp: unmarked_def set_mark_def split: if_splits)
  then show "((w, vs, set_mark v Done m', path), w, v # vs, m, path)
      \<in> measures [\<lambda>(w, vs, m, path). card (unmarked_steps w m), \<lambda>(w, vs, m, path). length vs]"
    using unmarked_steps_mono[of "set_mark v Done m'" m w] by (auto simp: le_less)
qed auto

definition cycle :: "workflow \<Rightarrow> string list option" where
  "cycle w = fst (cycle_visit w (step_ids w) (\<lambda>_. Unseen) [])"

text \<open>A cycle: a list of names each coming after the next, that ends where it begins.\<close>

definition is_cycle :: "workflow \<Rightarrow> string list \<Rightarrow> bool" where
  "is_cycle w c \<longleftrightarrow> 2 \<le> length c \<and> hd c = last c \<and> successively (\<lambda>a b. b \<in> set (after w a)) c"

definition marked :: "mark \<Rightarrow> (string \<Rightarrow> mark) \<Rightarrow> string set" where
  "marked k m = {v. m v = k}"

lemma marked_upd [simp]:
  "marked k (set_mark v k' m) = (if k = k' then insert v (marked k m) else marked k m - {v})"
  by (auto simp: marked_def set_mark_def)

lemma marked_iff [simp]: "v \<in> marked k m \<longleftrightarrow> m v = k"
  by (simp add: marked_def)

lemma marked_minus [simp]: "m v \<noteq> k \<Longrightarrow> marked k m - {v} = marked k m"
  by (auto simp: marked_def)

definition settled :: "workflow \<Rightarrow> string set \<Rightarrow> bool" where
  "settled w D \<longleftrightarrow> (\<forall>d \<in> D. set (after w d) \<subseteq> D \<and> (d, d) \<notin> (deps w)\<^sup>+)"

lemma settled_trancl: "(a, b) \<in> (deps w)\<^sup>+ \<Longrightarrow> settled w D \<Longrightarrow> a \<in> D \<Longrightarrow> b \<in> D"
  by (induction rule: trancl_induct) (auto simp: settled_def deps_def)

lemma settled_insert:
  assumes "settled w D" "set (after w v) \<subseteq> D" "v \<notin> D"
  shows "settled w (insert v D)"
proof -
  have "(v, v) \<notin> (deps w)\<^sup>+"
  proof
    assume "(v, v) \<in> (deps w)\<^sup>+"
    then obtain d where "(v, d) \<in> deps w" "d = v \<or> (d, v) \<in> (deps w)\<^sup>+"
      by (metis tranclD rtranclD)
    then show False using assms settled_trancl[of d v w D] by (auto simp: deps_def)
  qed
  then show ?thesis using assms by (auto simp: settled_def)
qed

lemma cycle_visit_None:
  "cycle_visit w vs m path = (None, m') \<Longrightarrow>
     marked Visiting m' = marked Visiting m \<and> marked Done m \<subseteq> marked Done m'
     \<and> set vs \<subseteq> marked Done m' \<and> (settled w (marked Done m) \<longrightarrow> settled w (marked Done m'))"
proof (induction w vs m path arbitrary: m' rule: cycle_visit.induct)
  case (2 w v vs m path)
  show ?case
  proof (cases "m v")
    case Unseen
    then obtain m1 where 1: "cycle_visit w (after w v) (set_mark v Visiting m) (path @ [v]) = (None, m1)"
      and 2: "cycle_visit w vs (set_mark v Done m1) path = (None, m')"
      using "2.prems" by (auto split: prod.splits option.splits)
    have i: "marked Visiting m1 = insert v (marked Visiting m)" "marked Done m \<subseteq> marked Done m1"
      "set (after w v) \<subseteq> marked Done m1"
      "settled w (marked Done m) \<longrightarrow> settled w (marked Done m1)"
      using "2.IH"(1)[OF Unseen 1] Unseen by simp_all
    have v: "m1 v = Visiting" using i(1) by (metis insertI1 marked_iff)
    have m1: "marked Done (set_mark v Done m1) = insert v (marked Done m1)"
      "marked Visiting (set_mark v Done m1) = marked Visiting m"
      using i(1) Unseen by auto
    show ?thesis
      using "2.IH"(2)[OF Unseen 1[symmetric] refl 2] i m1 settled_insert[of w "marked Done m1" v] v
      by (simp, blast)
  next
    case Visiting
    then show ?thesis using "2.prems" by simp
  next
    case Done
    then show ?thesis using 2 by auto
  qed
qed simp

lemma cycle_visit_Some:
  "cycle_visit w vs m path = (Some c, m') \<Longrightarrow> marked Visiting m = set path \<Longrightarrow>
     successively (\<lambda>a b. b \<in> set (after w a)) path \<Longrightarrow>
     (path \<noteq> [] \<longrightarrow> set vs \<subseteq> set (after w (last path))) \<Longrightarrow> is_cycle w c"
proof (induction w vs m path arbitrary: m' c rule: cycle_visit.induct)
  case (2 w v vs m path)
  show ?case
  proof (cases "m v")
    case Unseen
    obtain r m1 where 1: "cycle_visit w (after w v) (set_mark v Visiting m) (path @ [v]) = (r, m1)"
      by fastforce
    have p: "marked Visiting (set_mark v Visiting m) = set (path @ [v])"
      "successively (\<lambda>a b. b \<in> set (after w a)) (path @ [v])"
      using "2.prems"(2-4) by (auto simp: successively_append_iff)
    show ?thesis
    proof (cases r)
      case None
      have "v \<notin> set path" using "2.prems"(2) Unseen by (metis mark.distinct(1) marked_iff)
      then have "marked Visiting (set_mark v Done m1) = set path"
        using cycle_visit_None[OF 1[unfolded None]] "2.prems"(2) by simp
      then show ?thesis
        using "2.IH"(2)[OF Unseen 1[symmetric] None] "2.prems" 1 None Unseen by auto
    next
      case (Some c')
      then show ?thesis using "2.IH"(1)[OF Unseen 1[unfolded Some] p] "2.prems"(1) 1 Unseen by auto
    qed
  next
    case Visiting
    then have "v \<in> set path" using "2.prems"(2) by (auto simp: marked_def)
    then obtain p q where pq: "path = p @ v # q" "v \<notin> set p" by (metis split_list_first)
    have "dropWhile (\<lambda>u. u \<noteq> v) path = v # q" unfolding pq(1)
      using pq(2) by (induction p) auto
    then have c: "c = v # q @ [v]" using "2.prems"(1) Visiting by simp
    have "successively (\<lambda>a b. b \<in> set (after w a)) (v # q)" "v \<in> set (after w (last (v # q)))"
      using "2.prems"(3,4) by (auto simp: pq(1) successively_append_iff)
    then show ?thesis using successively_append_iff[of _ "v # q" "[v]"] by (simp add: is_cycle_def c)
  next
    case Done
    then show ?thesis using 2 by auto
  qed
qed simp

lemma is_cycle_trancl: "is_cycle w c \<Longrightarrow> (hd c, hd c) \<in> (deps w)\<^sup>+"
proof -
  have "successively (\<lambda>a b. b \<in> set (after w a)) c \<Longrightarrow> 2 \<le> length c \<Longrightarrow> (hd c, last c) \<in> (deps w)\<^sup>+" for c
  proof (induction c)
    case (Cons a c)
    show ?case
    proof (cases "length c \<ge> 2")
      case True
      then have "(a, hd c) \<in> deps w" "(hd c, last c) \<in> (deps w)\<^sup>+"
        using Cons by (auto simp: deps_def successively_Cons)
      then show ?thesis using True by (auto intro: trancl_into_trancl2)
    next
      case False
      then have "length c = Suc 0" using Cons.prems by simp
      then obtain b where "c = [b]" by (auto simp: length_Suc_conv)
      then show ?thesis using Cons.prems by (auto simp: deps_def)
    qed
  qed simp
  from this[of c] show "is_cycle w c \<Longrightarrow> (hd c, hd c) \<in> (deps w)\<^sup>+" by (simp add: is_cycle_def)
qed

lemma deps_known: "(a, b) \<in> (deps w)\<^sup>+ \<Longrightarrow> a \<in> set (step_ids w)"
proof (induction rule: trancl_induct)
  case (base y)
  then show ?case using after_unknown[of a w] by (cases "a \<in> set (step_ids w)") (auto simp: deps_def)
qed

lemma cycle_Some: "cycle w = Some c \<Longrightarrow> is_cycle w c"
  unfolding cycle_def
  by (rule cycle_visit_Some[of w "step_ids w" "\<lambda>_. Unseen" "[]"])
    (auto simp: marked_def prod_eq_iff)

lemma cycle_None: "cycle w = None \<longleftrightarrow> acyclic (deps w)"
proof
  assume "cycle w = None"
  then obtain m' where "cycle_visit w (step_ids w) (\<lambda>_. Unseen) [] = (None, m')"
    unfolding cycle_def by (metis prod.collapse)
  then have "set (step_ids w) \<subseteq> marked Done m'" "settled w (marked Done m')"
    using cycle_visit_None by (force simp: settled_def marked_def)+
  then show "acyclic (deps w)"
    unfolding acyclic_def using deps_known by (fastforce simp: settled_def)
next
  assume "acyclic (deps w)"
  then show "cycle w = None"
    using is_cycle_trancl[OF cycle_Some, of w] by (cases "cycle w") (auto simp: acyclic_def)
qed

section \<open>Validation\<close>

definition wf_fail :: "string \<Rightarrow> err list \<Rightarrow> err" where
  "wf_fail text wrapped = Errorf (err_text ErrInvalid @ '': '' @ text) (ErrInvalid # wrapped)"

text \<open>The two ranges that fill the maps of declared names, with what each fails on.\<close>

fun session_errs :: "string set \<Rightarrow> session_spec list \<Rightarrow> err list" where
  "session_errs seen [] = []"
| "session_errs seen (ss # rest) =
     (if ss_name ss = [] then [wf_fail ''a session has no name'' []]
      else if ss_name ss \<in> seen then
        [wf_fail (''session '' @ quote (ss_name ss) @ '' is declared twice'') []]
      else [])
     @ session_errs (insert (ss_name ss) seen) rest"

fun step_errs :: "string set \<Rightarrow> wstep list \<Rightarrow> err list" where
  "step_errs seen [] = []"
| "step_errs seen (st # rest) =
     (if st_id st = [] then [wf_fail ''a step has no id'' []]
      else if st_id st \<in> seen then
        [wf_fail (''step '' @ quote (st_id st) @ '' is declared twice'') []]
      else [])
     @ step_errs (insert (st_id st) seen) rest"

definition dep_errs :: "string set \<Rightarrow> wstep \<Rightarrow> string \<Rightarrow> err list" where
  "dep_errs steps st dep =
     (if dep = st_id st then [wf_fail (''step '' @ quote (st_id st) @ '' comes after itself'') []]
      else if dep \<notin> steps then
        [wf_fail (''step '' @ quote (st_id st) @ '' comes after undeclared step '' @ quote dep) []]
      else [])"

definition check_step ::
  "'t template_parse \<Rightarrow> string set \<Rightarrow> string set \<Rightarrow> wstep \<Rightarrow> err list" where
  "check_step parse sessions steps st =
     (if st_session st \<notin> sessions then
        [wf_fail (''step '' @ quote (st_id st) @ '' runs on undeclared session ''
           @ quote (st_session st)) []]
      else [])
     @ concat (map (dep_errs steps st) (st_after st))
     @ (if trim_space (st_prompt st) = [] then
          [wf_fail (''step '' @ quote (st_id st) @ '' has no prompt'') []]
        else case parse (st_id st) (st_prompt st) of
               Inl e \<Rightarrow> [wf_fail (''step '' @ quote (st_id st) @ '': '' @ err_text e) [e]]
             | Inr _ \<Rightarrow> [])
     @ (if st_schema st \<noteq> [] then
          (case validate_schema (st_schema st) of
             Some e \<Rightarrow> [wf_fail (''step '' @ quote (st_id st) @ '': '' @ err_text e) [e]]
           | None \<Rightarrow> [])
        else [])"

definition wf_validate :: "'t template_parse \<Rightarrow> workflow \<Rightarrow> err option" where
  "wf_validate parse w =
     (let errs = (if wf_name w = [] then [wf_fail ''no name'' []] else [])
            @ (if wf_steps w = [] then [wf_fail ''no steps'' []] else [])
            @ session_errs {} (wf_sessions w)
            @ step_errs {} (wf_steps w)
            @ concat (map (check_step parse (set (map ss_name (wf_sessions w))) (set (step_ids w)))
                (wf_steps w));
          errs = (if errs = [] then
                    (case cycle w of
                       Some c \<Rightarrow> [wf_fail (''steps form a cycle: '' @ join '' -> '' c) []]
                     | None \<Rightarrow> [])
                  else errs)
      in errors_join (map Some errs))"

text \<open>What a valid workflow is.\<close>

definition wf_valid_step :: "'t template_parse \<Rightarrow> workflow \<Rightarrow> wstep \<Rightarrow> bool" where
  "wf_valid_step parse w st \<longleftrightarrow>
     st_id st \<noteq> [] \<and> wf_session w (st_session st) \<noteq> None
     \<and> (\<forall>dep \<in> set (st_after st). wf_step w dep \<noteq> None)
     \<and> trim_space (st_prompt st) \<noteq> [] \<and> (\<exists>t. parse (st_id st) (st_prompt st) = Inr t)
     \<and> (st_schema st \<noteq> [] \<longrightarrow> validate_schema (st_schema st) = None)"

definition wf_valid :: "'t template_parse \<Rightarrow> workflow \<Rightarrow> bool" where
  "wf_valid parse w \<longleftrightarrow>
     wf_name w \<noteq> [] \<and> wf_steps w \<noteq> []
     \<and> distinct (map ss_name (wf_sessions w)) \<and> [] \<notin> set (map ss_name (wf_sessions w))
     \<and> distinct (step_ids w) \<and> (\<forall>st \<in> set (wf_steps w). wf_valid_step parse w st)
     \<and> acyclic (deps w)"

lemma session_errs_Nil:
  "session_errs seen ss = [] \<longleftrightarrow>
     distinct (map ss_name ss) \<and> [] \<notin> set (map ss_name ss) \<and> set (map ss_name ss) \<inter> seen = {}"
  by (induction ss arbitrary: seen) auto

lemma step_errs_Nil:
  "step_errs seen sts = [] \<longleftrightarrow>
     distinct (map st_id sts) \<and> [] \<notin> set (map st_id sts) \<and> set (map st_id sts) \<inter> seen = {}"
  by (induction sts arbitrary: seen) auto

lemma wf_session_None: "wf_session w name \<noteq> None \<longleftrightarrow> name \<in> set (map ss_name (wf_sessions w))"
  by (auto simp: wf_session_def find_None_iff)

lemma wf_step_None: "wf_step w sid \<noteq> None \<longleftrightarrow> sid \<in> set (step_ids w)"
  by (auto simp: wf_step_def step_ids_def find_None_iff)

lemma dep_errs_Nil: "dep_errs steps st dep = [] \<longleftrightarrow> dep \<noteq> st_id st \<and> dep \<in> steps"
  by (simp add: dep_errs_def)

lemma check_step_Nil:
  "check_step parse (set (map ss_name (wf_sessions w))) (set (step_ids w)) st = [] \<longleftrightarrow>
     wf_session w (st_session st) \<noteq> None
     \<and> (\<forall>dep \<in> set (st_after st). dep \<noteq> st_id st \<and> wf_step w dep \<noteq> None)
     \<and> trim_space (st_prompt st) \<noteq> [] \<and> (\<exists>t. parse (st_id st) (st_prompt st) = Inr t)
     \<and> (st_schema st \<noteq> [] \<longrightarrow> validate_schema (st_schema st) = None)"
  unfolding wf_session_None wf_step_None
  by (auto simp: check_step_def dep_errs_Nil split: sum.split option.split)

lemma deps_step: "distinct (step_ids w) \<Longrightarrow> st \<in> set (wf_steps w) \<Longrightarrow> after w (st_id st) = st_after st"
  by (simp add: after_def wf_step_distinct)

lemma acyclic_no_self: "acyclic (deps w) \<Longrightarrow> a \<notin> set (after w a)"
  by (auto simp: acyclic_def deps_def)

lemma errors_join_map_Some: "errors_join (map Some es) = (if es = [] then None else Some (Joined es))"
proof -
  have "errs_of (map Some es) = es" by (induction es) simp_all
  then show ?thesis by (simp add: errors_join_def)
qed

text \<open>Every failure wraps ErrInvalid.\<close>

definition all_invalid :: "err list \<Rightarrow> bool" where
  "all_invalid es \<longleftrightarrow> (\<forall>e \<in> set es. err_is e ErrInvalid)"

lemma all_invalid_simps [simp]:
  "all_invalid []" "all_invalid (e # es) \<longleftrightarrow> err_is e ErrInvalid \<and> all_invalid es"
  "all_invalid (es @ es') \<longleftrightarrow> all_invalid es \<and> all_invalid es'"
  "all_invalid (concat ess) \<longleftrightarrow> (\<forall>es \<in> set ess. all_invalid es)"
  "err_is (wf_fail text wrapped) ErrInvalid"
  by (auto simp: all_invalid_def wf_fail_def)

lemma all_invalid_errs [simp]:
  "all_invalid (session_errs seen ss)" "all_invalid (step_errs seen sts)"
  by (induction ss arbitrary: seen; simp) (induction sts arbitrary: seen; simp)

lemma all_invalid_dep [simp]: "all_invalid (dep_errs steps st dep)"
  by (simp add: dep_errs_def)

lemma all_invalid_check [simp]: "all_invalid (check_step parse sessions steps st)"
  by (simp add: check_step_def split: sum.split option.split)

lemma all_invalid_join:
  "all_invalid es \<Longrightarrow>
     (case errors_join (map Some es) of None \<Rightarrow> True | Some e \<Rightarrow> err_is e ErrInvalid)"
  unfolding errors_join_map_Some by (cases es) auto

lemma wf_valid_checks:
  "wf_valid parse w \<longleftrightarrow>
     wf_name w \<noteq> [] \<and> wf_steps w \<noteq> [] \<and> session_errs {} (wf_sessions w) = []
     \<and> step_errs {} (wf_steps w) = []
     \<and> (\<forall>st \<in> set (wf_steps w).
          check_step parse (set (map ss_name (wf_sessions w))) (set (step_ids w)) st = [])
     \<and> cycle w = None"
proof -
  have "dep \<noteq> st_id st" if "acyclic (deps w)" "distinct (step_ids w)" "st \<in> set (wf_steps w)"
    "dep \<in> set (st_after st)" for st dep
    using that acyclic_no_self deps_step by metis
  moreover have "[] \<notin> set (map st_id (wf_steps w)) \<longleftrightarrow> (\<forall>st \<in> set (wf_steps w). st_id st \<noteq> [])"
    by (auto simp: image_iff)
  ultimately show ?thesis
    unfolding wf_valid_def wf_valid_step_def check_step_Nil session_errs_Nil step_errs_Nil cycle_None
    by (simp add: step_ids_def del: set_map) blast
qed

lemma wf_validate_None: "wf_validate parse w = None \<longleftrightarrow> wf_valid parse w"
  unfolding wf_validate_def Let_def wf_valid_checks errors_join_map_Some
  by (auto split: option.split)

section \<open>Prompts\<close>

definition wf_ErrNoStep :: "string \<Rightarrow> err" where
  "wf_ErrNoStep sid = Msg (''workflow: no step '' @ quote sid)"

text \<open>The range over the ancestors that fills the template's data.\<close>

fun fill_steps ::
  "string \<Rightarrow> (string \<Rightarrow> result option) \<Rightarrow> string list \<Rightarrow> (string \<Rightarrow> step_result option)
     \<Rightarrow> err + (string \<Rightarrow> step_result option)" where
  "fill_steps sid results [] data = Inr data"
| "fill_steps sid results (dep # ds) data =
     (case results dep of
        None \<Rightarrow> Inl (Msg (''workflow: step '' @ quote sid @ '': no result of step '' @ quote dep))
      | Some res \<Rightarrow>
          if rs_structured res \<noteq> [] then
            (case json_parse (rs_structured res) of
               None \<Rightarrow> Inl (wrap (''workflow: step '' @ quote dep @ '': structured result'') json_err)
             | Some v \<Rightarrow>
                 fill_steps sid results ds
                   (data(dep \<mapsto> \<lparr>sr_text = rs_text res, sr_structured = Some v\<rparr>)))
          else
            fill_steps sid results ds (data(dep \<mapsto> \<lparr>sr_text = rs_text res, sr_structured = None\<rparr>)))"

definition wf_prompt ::
  "'t template_parse \<Rightarrow> 't template_execute \<Rightarrow> workflow \<Rightarrow> string \<Rightarrow> (string \<Rightarrow> result option)
     \<Rightarrow> err + string" where
  "wf_prompt parse execute w sid results =
     (case wf_step w sid of
        None \<Rightarrow> Inl (wf_ErrNoStep sid)
      | Some st \<Rightarrow>
          (case parse (st_id st) (st_prompt st) of
             Inl e \<Rightarrow> Inl e
           | Inr tmpl \<Rightarrow>
               (case fill_steps sid results (ancestors w sid) (\<lambda>_. None) of
                  Inl e \<Rightarrow> Inl e
                | Inr data \<Rightarrow>
                    (case execute tmpl \<lparr>cx_input = wf_input w, cx_steps = data\<rparr> of
                       Inl e \<Rightarrow> Inl (wrap (''workflow: step '' @ quote sid) e)
                     | Inr text \<Rightarrow> Inr text))))"

text \<open>What a template sees of a result.\<close>

definition step_result_of :: "result \<Rightarrow> step_result" where
  "step_result_of res =
     \<lparr>sr_text = rs_text res,
      sr_structured = (if rs_structured res = [] then None else json_parse (rs_structured res))\<rparr>"

definition result_readable :: "result \<Rightarrow> bool" where
  "result_readable res \<longleftrightarrow> rs_structured res \<noteq> [] \<longrightarrow> json_parse (rs_structured res) \<noteq> None"

lemma fill_steps_Inr:
  "fill_steps sid results ds data = Inr d \<longleftrightarrow>
     (\<forall>dep \<in> set ds. \<exists>res. results dep = Some res \<and> result_readable res)
     \<and> d = (\<lambda>a. if a \<in> set ds then map_option step_result_of (results a) else data a)"
proof (induction ds arbitrary: data)
  case (Cons dep ds)
  then show ?case
    by (auto simp: result_readable_def step_result_of_def fun_eq_iff split: option.splits)
qed auto

lemma fill_steps_Inl:
  "fill_steps sid results ds data = Inl e \<Longrightarrow>
     \<exists>dep. dep \<in> set ds \<and> (\<forall>res. results dep = Some res \<longrightarrow> \<not> result_readable res)"
  using fill_steps_Inr[of sid results ds data
      "\<lambda>a. if a \<in> set ds then map_option step_result_of (results a) else data a"]
  by auto

section \<open>Properties\<close>

text \<open>
  C37: Ancestors returns exactly the declared steps the step depends on, directly or through
  others, in declaration order.
\<close>

theorem ancestors_correct:
  "ancestors w sid = filter (\<lambda>a. (sid, a) \<in> (deps w)\<^sup>+) (step_ids w)"
  by (simp add: ancestors_def visit_reachable)

text \<open>
  C38: cycle finds a cycle exactly when the dependencies have one, and what it returns is one:
  a list of steps each coming after the next, whose last is its first.
\<close>

theorem cycle_correct:
  "(cycle w = None \<longleftrightarrow> acyclic (deps w)) \<and> (case cycle w of None \<Rightarrow> True | Some c \<Rightarrow> is_cycle w c)"
  using cycle_None cycle_Some by (auto split: option.split)

text \<open>
  C39: Validate accepts exactly the valid workflows: named, with steps, the names of sessions and
  of steps given and distinct, every session and step a step names declared, every prompt a
  template, every schema an object schema, and no cycle; and what it returns otherwise is
  ErrInvalid.
\<close>

theorem wf_validate_correct:
  "(wf_validate parse w = None \<longleftrightarrow> wf_valid parse w)
   \<and> (case wf_validate parse w of None \<Rightarrow> True | Some e \<Rightarrow> err_is e ErrInvalid)"
proof
  show "wf_validate parse w = None \<longleftrightarrow> wf_valid parse w" by (rule wf_validate_None)
  show "case wf_validate parse w of None \<Rightarrow> True | Some e \<Rightarrow> err_is e ErrInvalid"
    unfolding wf_validate_def Let_def
    by (rule all_invalid_join) (simp split: option.split)
qed

text \<open>
  A step's prompt renders its template over the workflow's input and exactly the results
  of the steps it depends on: every one of them, and no other.
\<close>

theorem wf_prompt_data:
  "wf_prompt parse execute w sid results = Inr text \<longleftrightarrow>
     (\<exists>st tmpl. wf_step w sid = Some st \<and> parse (st_id st) (st_prompt st) = Inr tmpl
        \<and> list_all (\<lambda>dep. \<exists>res. results dep = Some res \<and> result_readable res) (ancestors w sid)
        \<and> execute tmpl \<lparr>cx_input = wf_input w,
             cx_steps = (\<lambda>a. if a \<in> set (ancestors w sid) then map_option step_result_of (results a) else None)\<rparr>
           = Inr text)"
  by (auto simp: wf_prompt_def fill_steps_Inr list_all_iff dest!: fill_steps_Inl split: option.splits sum.splits)

end
