(* ===== verification/Workflow_State.thy ===== *)
theory Workflow_State
  imports Workflow_Dag
begin

text \<open>
  A run's events and its state (workflow/event.go, workflow/state.go): the state is the fold of
  the run's log. The maps the code ranges over, a state's steps and sessions, are association
  lists with one entry per key, updated by \<open>AList.update\<close>.
\<close>

section \<open>Events\<close>

datatype kind =
    KindRunStarted
  | KindRunResumed
  | KindSessionOpened
  | KindStepStarted
  | KindStepEnded
  | KindRunPaused
  | KindRunEnded
  | KindExchange
  | KindOther string

fun kind_text :: "kind \<Rightarrow> string" where
  "kind_text KindRunStarted = ''run_started''"
| "kind_text KindRunResumed = ''run_resumed''"
| "kind_text KindSessionOpened = ''session_opened''"
| "kind_text KindStepStarted = ''step_started''"
| "kind_text KindStepEnded = ''step_ended''"
| "kind_text KindRunPaused = ''run_paused''"
| "kind_text KindRunEnded = ''run_ended''"
| "kind_text KindExchange = ''exchange''"
| "kind_text (KindOther s) = s"

datatype status =
    StatusPending
  | StatusRunning
  | StatusPaused
  | StatusDone
  | StatusFailed
  | StatusCancelled
  | StatusOther string

fun status_text :: "status \<Rightarrow> string" where
  "status_text StatusPending = ''pending''"
| "status_text StatusRunning = ''running''"
| "status_text StatusPaused = ''paused''"
| "status_text StatusDone = ''done''"
| "status_text StatusFailed = ''failed''"
| "status_text StatusCancelled = ''cancelled''"
| "status_text (StatusOther s) = s"

definition status_ended :: "status \<Rightarrow> bool" where
  "status_ended s \<longleftrightarrow> s = StatusDone \<or> s = StatusFailed \<or> s = StatusCancelled"

record exchange_event =
  xe_kind :: event_kind
  xe_text :: string
  xe_tool :: string
  xe_err :: string

definition exchange_event_of :: "event \<Rightarrow> exchange_event" where
  "exchange_event_of ev =
     \<lparr>xe_kind = ev_kind ev, xe_text = ev_text ev,
      xe_tool = (case ev_tool ev of None \<Rightarrow> [] | Some t \<Rightarrow> te_name t),
      xe_err = (case ev_err ev of None \<Rightarrow> [] | Some e \<Rightarrow> err_text e)\<rparr>"

record wevent =
  we_run_id :: string
  we_seq :: nat
  we_kind :: kind
  we_time :: time
  we_workflow :: "workflow option"
  we_session :: string
  we_session_id :: string
  we_step :: string
  we_exchange_id :: uuid
  we_prompt :: string
  we_status :: status
  we_result :: "result option"
  we_adopted :: bool
  we_err :: string
  we_until :: time
  we_exchange :: "exchange_event option"

text \<open>The event literal \<open>Event{Kind: k}\<close>; the zero Status is the empty string.\<close>

definition wevent_of :: "kind \<Rightarrow> wevent" where
  "wevent_of k =
     \<lparr>we_run_id = [], we_seq = 0, we_kind = k, we_time = 0, we_workflow = None, we_session = [],
      we_session_id = [], we_step = [], we_exchange_id = uuid_nil, we_prompt = [],
      we_status = StatusOther [], we_result = None, we_adopted = False, we_err = [],
      we_until = 0, we_exchange = None\<rparr>"

definition logged :: "wevent \<Rightarrow> bool" where
  "logged e \<longleftrightarrow> we_kind e \<noteq> KindExchange"

section \<open>State\<close>

record step_state =
  sp_status :: status
  sp_exchange_id :: uuid
  sp_result :: "result option"
  sp_adopted :: bool
  sp_err :: string
  sp_started :: time
  sp_ended :: time

record wstate =
  ws_run_id :: string
  ws_workflow :: workflow
  ws_status :: status
  ws_seq :: nat
  ws_sessions :: "(string \<times> string) list"
  ws_steps :: "(string \<times> step_state) list"
  ws_started :: time
  ws_ended :: time
  ws_until :: time
  ws_err :: string

definition empty_workflow :: workflow where
  "empty_workflow = \<lparr>wf_name = [], wf_input = [], wf_sessions = [], wf_steps = []\<rparr>"

definition zero_state :: wstate where
  "zero_state =
     \<lparr>ws_run_id = [], ws_workflow = empty_workflow, ws_status = StatusOther [], ws_seq = 0,
      ws_sessions = [], ws_steps = [], ws_started = 0, ws_ended = 0, ws_until = 0, ws_err = []\<rparr>"

definition step_state_of :: "status \<Rightarrow> step_state" where
  "step_state_of s =
     \<lparr>sp_status = s, sp_exchange_id = uuid_nil, sp_result = None, sp_adopted = False, sp_err = [],
      sp_started = 0, sp_ended = 0\<rparr>"

definition ErrLog :: err where
  "ErrLog = Sentinel ''workflow: inconsistent log''"

definition log_fail :: "wevent \<Rightarrow> string \<Rightarrow> err" where
  "log_fail e text =
     Errorf (err_text ErrLog @ '': event '' @ nat_text (we_seq e) @ '' ('' @ kind_text (we_kind e)
       @ ''): '' @ text) [ErrLog]"

text \<open>The switch of Apply on a log already started, before it sets the state's Seq.\<close>

definition apply_kind :: "wstate \<Rightarrow> wevent \<Rightarrow> err + wstate" where
  "apply_kind s e =
     (case we_kind e of
        KindRunResumed \<Rightarrow> Inr (s\<lparr>ws_status := StatusRunning, ws_until := 0\<rparr>)
      | KindSessionOpened \<Rightarrow>
          if wf_session (ws_workflow s) (we_session e) = None then
            Inl (log_fail e (''no session '' @ quote (we_session e)))
          else Inr (s\<lparr>ws_sessions := AList.update (we_session e) (we_session_id e) (ws_sessions s)\<rparr>)
      | KindStepStarted \<Rightarrow>
          if map_of (ws_steps s) (we_step e) = None then
            Inl (log_fail e (''no step '' @ quote (we_step e)))
          else Inr (s\<lparr>ws_steps := AList.update (we_step e)
                 ((step_state_of StatusRunning)\<lparr>sp_exchange_id := we_exchange_id e,
                    sp_started := we_time e\<rparr>) (ws_steps s)\<rparr>)
      | KindStepEnded \<Rightarrow>
          (case map_of (ws_steps s) (we_step e) of
             None \<Rightarrow> Inl (log_fail e (''no step '' @ quote (we_step e)))
           | Some st \<Rightarrow>
               if \<not> status_ended (we_status e) then
                 Inl (log_fail e (''step status '' @ quote (status_text (we_status e))))
               else
                 (let st = st\<lparr>sp_status := we_status e, sp_result := we_result e,
                        sp_adopted := we_adopted e, sp_err := we_err e, sp_ended := we_time e\<rparr>;
                      st = (if we_exchange_id e \<noteq> uuid_nil
                            then st\<lparr>sp_exchange_id := we_exchange_id e\<rparr> else st)
                  in Inr (s\<lparr>ws_steps := AList.update (we_step e) st (ws_steps s)\<rparr>)))
      | KindRunPaused \<Rightarrow> Inr (s\<lparr>ws_status := StatusPaused, ws_until := we_until e\<rparr>)
      | KindRunEnded \<Rightarrow>
          if \<not> status_ended (we_status e) then
            Inl (log_fail e (''run status '' @ quote (status_text (we_status e))))
          else Inr (s\<lparr>ws_status := we_status e, ws_err := we_err e, ws_ended := we_time e\<rparr>)
      | _ \<Rightarrow> Inl (log_fail e ''unknown kind''))"

definition apply_start :: "wstate \<Rightarrow> wevent \<Rightarrow> err + wstate" where
  "apply_start s e =
     (if ws_seq s \<noteq> 0 then Inl (log_fail e ''the run has already started'')
      else case we_workflow e of
             None \<Rightarrow> Inl (log_fail e ''no workflow'')
           | Some w \<Rightarrow>
               Inr (zero_state\<lparr>ws_run_id := we_run_id e, ws_workflow := w, ws_status := StatusRunning,
                  ws_seq := we_seq e,
                  ws_steps := fold (\<lambda>st. AList.update (st_id st) (step_state_of StatusPending)) (wf_steps w) [],
                  ws_started := we_time e\<rparr>))"

definition apply_event :: "wstate \<Rightarrow> wevent \<Rightarrow> err + wstate" where
  "apply_event s e =
     (if \<not> logged e then Inl (log_fail e ''not a logged event'')
      else if we_seq e \<noteq> ws_seq s + 1 then
        Inl (log_fail e (''follows event '' @ nat_text (ws_seq s)))
      else if we_kind e = KindRunStarted then apply_start s e
      else if ws_seq s = 0 then Inl (log_fail e ''before the run started'')
      else if we_run_id e \<noteq> ws_run_id s then Inl (log_fail e (''belongs to run '' @ we_run_id e))
      else if status_ended (ws_status s) then Inl (log_fail e ''after the run ended'')
      else case apply_kind s e of
             Inl er \<Rightarrow> Inl er
           | Inr s' \<Rightarrow> Inr (s'\<lparr>ws_seq := we_seq e\<rparr>))"

text \<open>Fold: the state it returns, and the error it stops on.\<close>

fun fold_from :: "wstate \<Rightarrow> wevent list \<Rightarrow> wstate \<times> err option" where
  "fold_from s [] = (s, None)"
| "fold_from s (e # es) =
     (case apply_event s e of Inl er \<Rightarrow> (s, Some er) | Inr s' \<Rightarrow> fold_from s' es)"

definition fold_events :: "wevent list \<Rightarrow> wstate \<times> err option" where
  "fold_events es = fold_from zero_state es"

text \<open>Results and Done.\<close>

definition results :: "wstate \<Rightarrow> string \<Rightarrow> result option" where
  "results s sid =
     (case map_of (ws_steps s) sid of
        None \<Rightarrow> None
      | Some st \<Rightarrow> if sp_status st = StatusDone then sp_result st else None)"

definition done_count :: "wstate \<Rightarrow> nat" where
  "done_count s = length (filter (\<lambda>(k, st). sp_status st = StatusDone) (ws_steps s))"

definition step_status :: "wstate \<Rightarrow> string \<Rightarrow> status" where
  "step_status s sid =
     (case map_of (ws_steps s) sid of None \<Rightarrow> StatusOther [] | Some st \<Rightarrow> sp_status st)"

section \<open>What every folded log satisfies\<close>

text \<open>
  The state of a started run: one entry for each of its workflow's steps, one at most for each
  session, each session one the workflow declares.
\<close>

definition steps_ok :: "workflow \<Rightarrow> (string \<times> step_state) list \<Rightarrow> bool" where
  "steps_ok w xs \<longleftrightarrow> distinct (map fst xs) \<and> dom (map_of xs) = set (step_ids w)"

definition sessions_ok :: "workflow \<Rightarrow> (string \<times> string) list \<Rightarrow> bool" where
  "sessions_ok w xs \<longleftrightarrow>
     distinct (map fst xs) \<and> (\<forall>name \<in> dom (map_of xs). wf_session w name \<noteq> None)"

definition ws_wf :: "wstate \<Rightarrow> bool" where
  "ws_wf s \<longleftrightarrow> steps_ok (ws_workflow s) (ws_steps s) \<and> sessions_ok (ws_workflow s) (ws_sessions s)"

lemma steps_ok_update:
  assumes "steps_ok w xs" "map_of xs k = Some v"
  shows "steps_ok w (AList.update k v' xs)"
proof -
  have "k \<in> dom (map_of xs)" using assms(2) by blast
  then show ?thesis using assms(1)
    by (simp add: steps_ok_def distinct_update update_conv' insert_absorb)
qed

lemma sessions_ok_update:
  "sessions_ok w xs \<Longrightarrow> wf_session w k = Some ss \<Longrightarrow> sessions_ok w (AList.update k v xs)"
  by (simp add: sessions_ok_def distinct_update update_conv')

lemma fold_update_distinct:
  "distinct (map fst xs) \<Longrightarrow> distinct (map fst (fold (\<lambda>st. AList.update (st_id st) v) sts xs))"
  by (induction sts arbitrary: xs) (auto simp: distinct_update)

lemma fold_update_map_of:
  "map_of (fold (\<lambda>st. AList.update (st_id st) v) sts xs) =
     (\<lambda>k. if k \<in> st_id ` set sts then Some v else map_of xs k)"
  by (induction sts arbitrary: xs) (auto simp: update_conv' fun_eq_iff)

lemma pending_ok:
  "steps_ok w (fold (\<lambda>st. AList.update (st_id st) v) (wf_steps w) [])"
  by (auto simp: steps_ok_def fold_update_distinct fold_update_map_of step_ids_def dom_def)

lemma apply_kind_wf:
  "apply_kind s e = Inr s' \<Longrightarrow> ws_wf s \<Longrightarrow>
     ws_wf s' \<and> ws_workflow s' = ws_workflow s \<and> ws_run_id s' = ws_run_id s \<and> ws_seq s' = ws_seq s
     \<and> ws_started s' = ws_started s"
  by (auto simp: apply_kind_def ws_wf_def Let_def simp del: map_of_eq_Some_iff
      intro: steps_ok_update sessions_ok_update split: kind.splits if_splits option.splits)

lemma apply_Inr:
  "apply_event s e = Inr s' \<Longrightarrow>
     logged e \<and> we_seq e = ws_seq s + 1 \<and> ws_seq s' = we_seq e
     \<and> (we_kind e = KindRunStarted \<longleftrightarrow> ws_seq s = 0)
     \<and> (ws_seq s \<noteq> 0 \<longrightarrow> we_run_id e = ws_run_id s \<and> \<not> status_ended (ws_status s))"
  by (auto simp: apply_event_def apply_start_def split: if_splits option.splits sum.splits)

lemma apply_wf:
  assumes "apply_event s e = Inr s'" "ws_seq s = 0 \<or> ws_wf s"
  shows "ws_wf s' \<and> ws_run_id s' = we_run_id e
    \<and> (ws_seq s \<noteq> 0 \<longrightarrow> ws_workflow s' = ws_workflow s)
    \<and> (ws_seq s = 0 \<longrightarrow> we_workflow e = Some (ws_workflow s'))"
proof (cases "we_kind e = KindRunStarted")
  case True
  then show ?thesis using assms(1) pending_ok
    by (auto simp: apply_event_def apply_start_def ws_wf_def zero_state_def sessions_ok_def
        split: if_splits option.splits)
next
  case False
  then obtain s1 where s1: "apply_kind s e = Inr s1" "s' = s1\<lparr>ws_seq := we_seq e\<rparr>" "ws_seq s \<noteq> 0"
    "we_run_id e = ws_run_id s"
    using assms(1) by (auto simp: apply_event_def split: if_splits sum.splits)
  then show ?thesis using apply_kind_wf[OF s1(1)] assms(2) by (auto simp: ws_wf_def)
qed

section \<open>Logs\<close>

lemma fold_from_append:
  "fold_from s (es @ es') =
     (case fold_from s es of (s', None) \<Rightarrow> fold_from s' es' | (s', Some er) \<Rightarrow> (s', Some er))"
  by (induction es arbitrary: s) (auto split: sum.splits)

text \<open>One logged event after a log that folds.\<close>

lemma fold_events_snoc:
  "fold_events (es @ [e]) =
     (case fold_events es of
        (s, None) \<Rightarrow> (case apply_event s e of Inl er \<Rightarrow> (s, Some er) | Inr s' \<Rightarrow> (s', None))
      | (s, Some er) \<Rightarrow> (s, Some er))"
  by (auto simp: fold_events_def fold_from_append split: prod.splits option.splits sum.splits)

lemma fold_events_snoc_None:
  "fold_events (es @ [e]) = (s', None) \<longleftrightarrow>
     (\<exists>s. fold_events es = (s, None) \<and> apply_event s e = Inr s')"
  by (auto simp: fold_events_snoc split: prod.splits option.splits sum.splits)

text \<open>A log as every run's is: numbered from 1, started first and once, nothing after its end.\<close>

definition log_shape :: "wevent list \<Rightarrow> bool" where
  "log_shape es \<longleftrightarrow>
     map we_seq es = [1..<Suc (length es)]
     \<and> list_all logged es
     \<and> (es \<noteq> [] \<longrightarrow> we_kind (hd es) = KindRunStarted)
     \<and> list_all (\<lambda>e. we_kind e \<noteq> KindRunStarted) (tl es)
     \<and> list_all (\<lambda>e. we_kind e \<noteq> KindRunEnded) (butlast es)
     \<and> list_all (\<lambda>e. we_run_id e = we_run_id (hd es)) es"

text \<open>The events of a log that bear on a step, and the status the last of them leaves it in.\<close>

definition step_events :: "string \<Rightarrow> wevent list \<Rightarrow> wevent list" where
  "step_events sid es =
     filter (\<lambda>e. (we_kind e = KindStepStarted \<or> we_kind e = KindStepEnded) \<and> we_step e = sid) es"

definition log_status :: "wevent list \<Rightarrow> string \<Rightarrow> status" where
  "log_status es sid =
     (case rev (step_events sid es) of
        [] \<Rightarrow> StatusPending
      | e # _ \<Rightarrow> if we_kind e = KindStepStarted then StatusRunning else we_status e)"

definition log_result :: "wevent list \<Rightarrow> string \<Rightarrow> result option" where
  "log_result es sid =
     (case rev (step_events sid es) of
        [] \<Rightarrow> None
      | e # _ \<Rightarrow> if we_kind e = KindStepEnded \<and> we_status e = StatusDone then we_result e else None)"

text \<open>Where a run stands: ended as its last event says, paused, or running.\<close>

definition log_ended :: "wevent list \<Rightarrow> bool" where
  "log_ended es \<longleftrightarrow> es \<noteq> [] \<and> we_kind (last es) = KindRunEnded"

definition fold_ok :: "wevent list \<Rightarrow> wstate \<Rightarrow> bool" where
  "fold_ok es s \<longleftrightarrow>
     ws_seq s = length es \<and> log_shape es \<and> (status_ended (ws_status s) \<longleftrightarrow> log_ended es)
     \<and> (es \<noteq> [] \<longrightarrow> ws_wf s \<and> ws_run_id s = we_run_id (hd es)
          \<and> we_workflow (hd es) = Some (ws_workflow s)
          \<and> (\<forall>sid \<in> set (step_ids (ws_workflow s)).
               step_status s sid = log_status es sid \<and> results s sid = log_result es sid))"

lemma step_events_snoc:
  "step_events sid (es @ [e]) = step_events sid es
     @ (if (we_kind e = KindStepStarted \<or> we_kind e = KindStepEnded) \<and> we_step e = sid then [e] else [])"
  by (simp add: step_events_def)

lemma log_status_snoc:
  "log_status (es @ [e]) sid =
     (if we_kind e = KindStepStarted \<and> we_step e = sid then StatusRunning
      else if we_kind e = KindStepEnded \<and> we_step e = sid then we_status e
      else log_status es sid)"
  by (auto simp: log_status_def step_events_snoc)

lemma log_result_snoc:
  "log_result (es @ [e]) sid =
     (if we_kind e = KindStepStarted \<and> we_step e = sid then None
      else if we_kind e = KindStepEnded \<and> we_step e = sid
           then (if we_status e = StatusDone then we_result e else None)
      else log_result es sid)"
  by (auto simp: log_result_def step_events_snoc)

lemma log_shape_snoc:
  assumes "log_shape es" "we_seq e = Suc (length es)" "logged e"
    "we_kind e = KindRunStarted \<longleftrightarrow> es = []" "\<not> log_ended es"
    "es \<noteq> [] \<Longrightarrow> we_run_id e = we_run_id (hd es)"
  shows "log_shape (es @ [e])"
proof -
  have "list_all (\<lambda>e. we_kind e \<noteq> KindRunEnded) es"
    using assms(1,5) by (cases es rule: rev_cases) (auto simp: log_shape_def log_ended_def)
  then show ?thesis using assms by (cases es) (auto simp: log_shape_def)
qed

lemma apply_kind_status:
  assumes "apply_kind s e = Inr s'"
  shows "step_status s' sid =
      (if we_kind e = KindStepStarted \<and> we_step e = sid then StatusRunning
       else if we_kind e = KindStepEnded \<and> we_step e = sid then we_status e else step_status s sid)"
    and "results s' sid =
      (if we_kind e = KindStepStarted \<and> we_step e = sid then None
       else if we_kind e = KindStepEnded \<and> we_step e = sid
            then (if we_status e = StatusDone then we_result e else None) else results s sid)"
    and "\<not> status_ended (ws_status s) \<Longrightarrow> status_ended (ws_status s') \<longleftrightarrow> we_kind e = KindRunEnded"
  using assms
  by (auto simp: apply_kind_def step_status_def results_def step_state_of_def update_conv' Let_def
      status_ended_def simp del: map_of_eq_Some_iff split: kind.splits if_splits option.splits)

lemma pending_status:
  "sid \<in> set (step_ids w) \<Longrightarrow>
     map_of (fold (\<lambda>st. AList.update (st_id st) v) (wf_steps w) []) sid = Some v"
  by (auto simp: fold_update_map_of step_ids_def)

lemma fold_events_ok: "fold_events es = (s, None) \<Longrightarrow> fold_ok es s"
proof (induction es arbitrary: s rule: rev_induct)
  case Nil
  then show ?case
    by (auto simp: fold_events_def fold_ok_def log_shape_def log_ended_def zero_state_def status_ended_def)
next
  case (snoc e es)
  then obtain s0 where s0: "fold_events es = (s0, None)" "apply_event s0 e = Inr s"
    by (auto simp: fold_events_snoc_None)
  note ok = snoc.IH[OF s0(1)]
  note a = apply_Inr[OF s0(2)]
  have z: "ws_seq s0 = 0 \<longleftrightarrow> es = []" using ok by (simp add: fold_ok_def)
  have w: "ws_wf s \<and> ws_run_id s = we_run_id e
    \<and> (ws_seq s0 \<noteq> 0 \<longrightarrow> ws_workflow s = ws_workflow s0)
    \<and> (ws_seq s0 = 0 \<longrightarrow> we_workflow e = Some (ws_workflow s))"
    using ok z by (intro apply_wf[OF s0(2)]) (auto simp: fold_ok_def)
  have sh: "log_shape (es @ [e])"
    using ok a z by (intro log_shape_snoc) (auto simp: fold_ok_def log_ended_def)
  show ?case
  proof (cases "es = []")
    case True
    then have k: "we_kind e = KindRunStarted" using a z by simp
    then obtain wf where wf: "we_workflow e = Some wf" "s = zero_state\<lparr>ws_run_id := we_run_id e,
        ws_workflow := wf, ws_status := StatusRunning, ws_seq := we_seq e,
        ws_steps := fold (\<lambda>st. AList.update (st_id st) (step_state_of StatusPending)) (wf_steps wf) [],
        ws_started := we_time e\<rparr>"
      using s0(2) by (auto simp: apply_event_def apply_start_def split: if_splits option.splits)
    show ?thesis
      using sh w z True k wf(1) a unfolding fold_ok_def wf(2)
      by (auto simp: log_ended_def status_ended_def step_status_def results_def pending_status
          step_state_of_def log_status_def log_result_def step_events_def)
  next
    case False
    then obtain s1 where s1: "apply_kind s0 e = Inr s1" "s = s1\<lparr>ws_seq := we_seq e\<rparr>"
      "\<not> status_ended (ws_status s0)"
      using s0(2) a z by (auto simp: apply_event_def split: if_splits sum.splits)
    have st: "step_status s = step_status s1" "results s = results s1" "ws_status s = ws_status s1"
      by (simp_all add: s1(2) step_status_def results_def fun_eq_iff)
    show ?thesis
      using ok sh w z False a apply_kind_status[OF s1(1)] s1(3) unfolding fold_ok_def st
      by (auto simp: log_ended_def log_status_snoc log_result_snoc)
  qed
qed

section \<open>Counting the steps that are done\<close>

lemma done_count_card:
  assumes "ws_wf s"
  shows "done_count s = card {sid \<in> set (step_ids (ws_workflow s)). step_status s sid = StatusDone}"
proof -
  have d: "distinct (map fst (ws_steps s))" and m: "dom (map_of (ws_steps s)) = set (step_ids (ws_workflow s))"
    using assms by (auto simp: ws_wf_def steps_ok_def)
  have "{sid \<in> set (step_ids (ws_workflow s)). step_status s sid = StatusDone}
      = set (map fst (filter (\<lambda>(k, st). sp_status st = StatusDone) (ws_steps s)))"
    unfolding m[symmetric] using d
    by (auto simp: step_status_def dom_map_of_conv_image_fst split: option.splits)
      (auto simp: image_iff Bex_def dest: eq_key_imp_eq_value)
  moreover have "distinct (map fst (filter (\<lambda>(k, st). sp_status st = StatusDone) (ws_steps s)))"
    using d by (simp add: distinct_map_filter)
  ultimately show ?thesis
    by (metis (no_types, lifting) done_count_def distinct_card length_map)
qed

lemma card_filter_eq:
  assumes "finite A"
  shows "card {x \<in> A. P x} = card A \<longleftrightarrow> (\<forall>x \<in> A. P x)"
proof
  assume "card {x \<in> A. P x} = card A"
  then have "{x \<in> A. P x} = A" by (intro card_subset_eq[OF assms]) auto
  then show "\<forall>x \<in> A. P x" by blast
next
  assume "\<forall>x \<in> A. P x"
  then have "{x \<in> A. P x} = A" by blast
  then show "card {x \<in> A. P x} = card A" by simp
qed

lemma all_done:
  assumes "ws_wf s" "distinct (step_ids (ws_workflow s))"
  shows "done_count s = length (wf_steps (ws_workflow s)) \<longleftrightarrow>
     (\<forall>sid \<in> set (step_ids (ws_workflow s)). step_status s sid = StatusDone)"
proof -
  let ?ids = "set (step_ids (ws_workflow s))"
  have "length (wf_steps (ws_workflow s)) = length (step_ids (ws_workflow s))" by (simp add: step_ids_def)
  then have l: "length (wf_steps (ws_workflow s)) = card ?ids" using assms(2) by (simp add: distinct_card)
  show ?thesis unfolding done_count_card[OF assms(1)] l by (rule card_filter_eq[OF finite_set])
qed

section \<open>What Apply accepts\<close>

lemma log_fail_is: "err_is (log_fail e m) ErrLog"
  by (simp add: log_fail_def)

lemma apply_kind_err: "case apply_kind s e of Inl er \<Rightarrow> err_is er ErrLog | Inr _ \<Rightarrow> True"
  by (cases "we_kind e") (simp_all add: apply_kind_def log_fail_is Let_def split: option.split)

lemma apply_start_err: "case apply_start s e of Inl er \<Rightarrow> err_is er ErrLog | Inr _ \<Rightarrow> True"
  by (simp add: apply_start_def log_fail_is split: option.split)

definition kind_follows :: "wstate \<Rightarrow> wevent \<Rightarrow> bool" where
  "kind_follows s e \<longleftrightarrow>
     (case we_kind e of
        KindRunResumed \<Rightarrow> True
      | KindRunPaused \<Rightarrow> True
      | KindSessionOpened \<Rightarrow> wf_session (ws_workflow s) (we_session e) \<noteq> None
      | KindStepStarted \<Rightarrow> map_of (ws_steps s) (we_step e) \<noteq> None
      | KindStepEnded \<Rightarrow> map_of (ws_steps s) (we_step e) \<noteq> None \<and> status_ended (we_status e)
      | KindRunEnded \<Rightarrow> status_ended (we_status e)
      | _ \<Rightarrow> False)"

lemma apply_kind_Inr: "(\<exists>s'. apply_kind s e = Inr s') \<longleftrightarrow> kind_follows s e"
  by (cases "we_kind e")
    (simp_all add: apply_kind_def kind_follows_def Let_def split: option.split del: map_of_eq_Some_iff)

lemma apply_start_Inr: "(\<exists>s'. apply_start s e = Inr s') \<longleftrightarrow> ws_seq s = 0 \<and> we_workflow e \<noteq> None"
  by (simp add: apply_start_def split: option.split)

lemma kind_follows_kind: "kind_follows s e \<Longrightarrow> logged e \<and> we_kind e \<noteq> KindRunStarted"
  by (cases "we_kind e") (simp_all add: kind_follows_def logged_def)

section \<open>An example\<close>

definition demo_steps :: "wstep list" where
  "demo_steps =
     [\<lparr>st_id = ''a'', st_session = ''s'', st_after = [], st_prompt = ''go'', st_schema = []\<rparr>,
      \<lparr>st_id = ''b'', st_session = ''s'', st_after = [''a''], st_prompt = ''go on'', st_schema = []\<rparr>]"

definition demo_workflow :: workflow where
  "demo_workflow =
     \<lparr>wf_name = ''demo'', wf_input = [],
      wf_sessions = [\<lparr>ss_name = ''s'', ss_harness = [], ss_provider = [], ss_model = []\<rparr>],
      wf_steps = demo_steps\<rparr>"

definition demo_log :: "wevent list" where
  "demo_log =
     [(wevent_of KindRunStarted)\<lparr>we_run_id := ''r'', we_seq := 1, we_workflow := Some demo_workflow\<rparr>,
      (wevent_of KindSessionOpened)\<lparr>we_run_id := ''r'', we_seq := 2, we_session := ''s'', we_session_id := ''h''\<rparr>,
      (wevent_of KindStepStarted)\<lparr>we_run_id := ''r'', we_seq := 3, we_step := ''a'', we_exchange_id := Uuid 7\<rparr>,
      (wevent_of KindStepEnded)\<lparr>we_run_id := ''r'', we_seq := 4, we_step := ''a'', we_status := StatusDone,
         we_result := Some result_zero\<rparr>]"

definition demo_state :: wstate where
  "demo_state = fst (fold_events demo_log)"

lemma demo_fold: "fold_events demo_log = (demo_state, None)"
proof -
  have "snd (fold_events demo_log) = None" by code_simp
  then show ?thesis by (simp add: demo_state_def prod_eq_iff)
qed

section \<open>Properties\<close>

text \<open>
  Apply accepts exactly the events that follow: a run's start with its workflow on an empty
  log, and after it, numbered one past the last and of the same run, until the run has ended, a
  resumption, a pause, a session the workflow declares, the start of a step it declares, the end
  of one with a final status, and the run's end with a final status. It fails with ErrLog on
  every other.
\<close>

theorem apply_accepts:
  "((\<exists>s'. apply_event s e = Inr s') \<longleftrightarrow>
     we_seq e = Suc (ws_seq s)
     \<and> (if ws_seq s = 0 then we_kind e = KindRunStarted \<and> we_workflow e \<noteq> None
        else we_run_id e = ws_run_id s \<and> \<not> status_ended (ws_status s)
          \<and> kind_follows s e))
   \<and> (case apply_event s e of Inl er \<Rightarrow> err_is er ErrLog | Inr _ \<Rightarrow> True)"
proof
  show "case apply_event s e of Inl er \<Rightarrow> err_is er ErrLog | Inr _ \<Rightarrow> True"
    using apply_kind_err[of s e] apply_start_err[of s e]
    by (auto simp: apply_event_def log_fail_is split: sum.splits)
next
  have "(\<exists>s'. apply_event s e = Inr s') \<longleftrightarrow>
      logged e \<and> we_seq e = Suc (ws_seq s)
      \<and> (if we_kind e = KindRunStarted then \<exists>s'. apply_start s e = Inr s'
         else ws_seq s \<noteq> 0 \<and> we_run_id e = ws_run_id s \<and> \<not> status_ended (ws_status s)
           \<and> (\<exists>s'. apply_kind s e = Inr s'))"
    by (auto simp: apply_event_def split: sum.splits)
  then show "(\<exists>s'. apply_event s e = Inr s') \<longleftrightarrow> we_seq e = Suc (ws_seq s)
     \<and> (if ws_seq s = 0 then we_kind e = KindRunStarted \<and> we_workflow e \<noteq> None
        else we_run_id e = ws_run_id s \<and> \<not> status_ended (ws_status s) \<and> kind_follows s e)"
    unfolding apply_start_Inr apply_kind_Inr
    using kind_follows_kind[of s e] by (auto simp: logged_def)
qed

text \<open>
  A log that folds is numbered 1, 2, 3 and so on, holds no live event, starts with the
  run's only run_started, belongs to one run, and has nothing after a run_ended; and the state's
  run has ended exactly when the log's last event is a run_ended.
\<close>

theorem fold_log_shape:
  assumes "fold_events es = (s, None)"
  shows "log_shape es \<and> ws_seq s = length es \<and> (status_ended (ws_status s) \<longleftrightarrow> log_ended es)"
  using fold_events_ok[OF assms] by (simp add: fold_ok_def)

theorem fold_log_shape_witness: "log_shape demo_log \<and> \<not> status_ended (ws_status demo_state)"
  using fold_log_shape[OF demo_fold] by (simp add: log_ended_def demo_log_def wevent_of_def)

text \<open>
  C40: in a folded state a step's status and result are those of the last event that names it:
  pending with none, running after its start, and what its end says after that, with a result
  only when it ended done.
\<close>

theorem fold_log_steps:
  assumes "fold_events es = (s, None)" and "wf_step (ws_workflow s) sid \<noteq> None"
  shows "step_status s sid = log_status es sid \<and> results s sid = log_result es sid"
proof -
  have "sid \<in> set (step_ids (ws_workflow s))" using assms(2) by (simp add: wf_step_None[symmetric])
  moreover from this have "es \<noteq> []" using assms(1)
    by (auto simp: fold_events_def zero_state_def step_ids_def empty_workflow_def)
  ultimately show ?thesis using fold_events_ok[OF assms(1)] by (simp add: fold_ok_def)
qed

theorem fold_log_steps_witness:
  "step_status demo_state ''a'' = StatusDone \<and> step_status demo_state ''b'' = StatusPending"
proof -
  have "wf_step (ws_workflow demo_state) ''a'' \<noteq> None" "wf_step (ws_workflow demo_state) ''b'' \<noteq> None"
    by code_simp+
  then show ?thesis using fold_log_steps[OF demo_fold]
    by (simp add: log_status_def step_events_def demo_log_def wevent_of_def)
qed

end
