(* ===== verification/Runner.thy ===== *)
theory Runner
  imports Workflow_State Event_Queues
begin

text \<open>
  The workflow runner (workflow/runner.go). A run's state holds the fields of the code's run, the
  position of its loop and of each step's goroutine, its log in the Store, and the tokens of the
  slots channel, which every run shares; a token is labelled with the run and step that took it.
  Every critical section of the run's mutex, every append to the Store and every call to a
  session, the opener or a template is one atomic step of \<open>run_step\<close>, so all interleavings of the
  loop, the steps, cancellation, shutdown, subscribers and the other runs are its runs.

  The template package, the opener, the harness sessions and the Store answer as arguments of the
  steps. The Store is taken to append an event or to fail and leave the log as it was.
\<close>

section \<open>State\<close>

definition ErrUnknownRun :: err where "ErrUnknownRun = Sentinel ''workflow: unknown run''"
definition ErrRunActive :: err where "ErrRunActive = Sentinel ''workflow: run is active''"
definition ErrRunEnded :: err where "ErrRunEnded = Sentinel ''workflow: run has ended''"
definition ErrCancelled :: err where "ErrCancelled = Sentinel ''workflow: run cancelled''"
definition ErrShutdown :: err where "ErrShutdown = Sentinel ''workflow: runner shut down''"

text \<open>The cause of a context cancelled without one.\<close>

definition ErrContextCanceled :: err where
  "ErrContextCanceled = Sentinel ''context canceled''"

datatype loop_pc =
    LoopTop              \<comment> \<open>the head of the loop\<close>
  | LoopWait bool bool   \<comment> \<open>the select: whether it watches the context, and the timer\<close>
  | LoopLogDone
  | LoopLogResumed
  | LoopExit
  | LoopLogFailed err
  | LoopLogCancelled
  | LoopFinish
  | LoopGone

datatype step_pc =
    StepSession
  | StepOpen string
  | StepOpened string
  | StepPlan
  | StepAdopt uuid "string \<Rightarrow> result option"
  | StepLogAdopted uuid result
  | StepPrompt "string \<Rightarrow> result option"
  | StepSend string
  | StepLogStarted uuid string
  | StepFollow uuid
  | StepEnd uuid "result option" "err option"
  | StepLogEnd wevent "err option"
  | StepPause time err
  | StepLogPause time err
  | StepFail err
  | StepStop
  | StepSlot
  | StepRelease
  | StepLeave

record wrun =
  rn_id :: string
  rn_state :: wstate
  rn_subs :: "(nat \<times> wevent equeue) list"
  rn_sessions :: "string \<Rightarrow> string option"
  rn_busy :: "string set"
  rn_inflight :: "string set"
  rn_failure :: "err option"
  rn_err :: "err option"
  rn_finished :: bool
  rn_cause :: "err option"
  rn_stopped :: bool
  rn_wake :: bool
  rn_loop :: loop_pc
  rn_threads :: "string \<Rightarrow> (wstep \<times> step_pc) option"
  rn_log :: "wevent list"
  rn_limit :: "nat option"
  rn_slots :: "(string \<times> string) list"

definition new_run :: "string \<Rightarrow> wstate \<Rightarrow> wevent list \<Rightarrow> nat option \<Rightarrow> (string \<times> string) list \<Rightarrow> wrun" where
  "new_run rid s log limit slots =
     \<lparr>rn_id = rid, rn_state = s, rn_subs = [], rn_sessions = (\<lambda>_. None), rn_busy = {},
      rn_inflight = {}, rn_failure = None, rn_err = None, rn_finished = False, rn_cause = None,
      rn_stopped = False, rn_wake = False, rn_loop = LoopTop, rn_threads = (\<lambda>_. None),
      rn_log = log, rn_limit = limit, rn_slots = slots\<rparr>"

section \<open>Contexts, signals and slots\<close>

text \<open>The run's context: the first cause stands.\<close>

definition run_cancel :: "err \<Rightarrow> wrun \<Rightarrow> wrun" where
  "run_cancel e rn = (if rn_cause rn = None then rn\<lparr>rn_cause := Some e\<rparr> else rn)"

definition run_stop :: "wrun \<Rightarrow> wrun" where
  "run_stop rn = rn\<lparr>rn_stopped := True\<rparr>"

definition steps_ended :: "wrun \<Rightarrow> bool" where
  "steps_ended rn \<longleftrightarrow> rn_cause rn \<noteq> None \<or> rn_stopped rn"

definition interrupted :: "wrun \<Rightarrow> bool" where
  "interrupted rn \<longleftrightarrow>
     (case rn_cause rn of None \<Rightarrow> False | Some c \<Rightarrow> \<not> err_is c ErrCancelled)"

definition run_signal :: "wrun \<Rightarrow> wrun" where
  "run_signal rn = rn\<lparr>rn_wake := True\<rparr>"

definition slot_free :: "wrun \<Rightarrow> bool" where
  "slot_free rn \<longleftrightarrow> (case rn_limit rn of None \<Rightarrow> True | Some n \<Rightarrow> length (rn_slots rn) < n)"

definition slot_take :: "string \<times> string \<Rightarrow> wrun \<Rightarrow> wrun" where
  "slot_take tok rn = (case rn_limit rn of None \<Rightarrow> rn | Some _ \<Rightarrow> rn\<lparr>rn_slots := rn_slots rn @ [tok]\<rparr>)"

text \<open>Runner.release: a slot is freed and every run is woken.\<close>

definition slot_release :: "string \<times> string \<Rightarrow> wrun \<Rightarrow> wrun" where
  "slot_release tok rn =
     (case rn_limit rn of
        None \<Rightarrow> rn
      | Some _ \<Rightarrow> run_signal (rn\<lparr>rn_slots := remove1 tok (rn_slots rn)\<rparr>))"

section \<open>The log\<close>

text \<open>The events that reach every subscriber still there.\<close>

definition push_subs :: "wevent \<Rightarrow> (nat \<times> wevent equeue) list \<Rightarrow> (nat \<times> wevent equeue) list" where
  "push_subs e subs = map (\<lambda>(past, q). (past, wq_push [e] q)) subs"

definition run_log :: "wevent \<Rightarrow> time \<Rightarrow> err option \<Rightarrow> wrun \<Rightarrow> wrun \<times> err option" where
  "run_log e now answer rn =
     (let e = e\<lparr>we_run_id := rn_id rn, we_seq := ws_seq (rn_state rn) + 1, we_time := now\<rparr> in
      case apply_event (rn_state rn) e of
        Inl er \<Rightarrow> (rn, Some er)
      | Inr next \<Rightarrow>
          (case answer of
             Some er \<Rightarrow>
               (let er = wrap (''workflow: log run '' @ rn_id rn) er in (run_cancel er rn, Some er))
           | None \<Rightarrow>
               (rn\<lparr>rn_state := next, rn_log := rn_log rn @ [e],
                   rn_subs := push_subs e (filter (\<lambda>(past, q). \<not> wq_gone q) (rn_subs rn))\<rparr>,
                None)))"

definition run_live :: "wevent \<Rightarrow> time \<Rightarrow> wrun \<Rightarrow> wrun" where
  "run_live e now rn =
     rn\<lparr>rn_subs := push_subs (e\<lparr>we_run_id := rn_id rn, we_time := now\<rparr>) (rn_subs rn)\<rparr>"

section \<open>settle and ready\<close>

fun settle_steps :: "wstep list \<Rightarrow> wrun \<Rightarrow> wrun" where
  "settle_steps [] rn = rn"
| "settle_steps (st # sts) rn =
     settle_steps sts
       (case step_status (rn_state rn) (st_id st) of
          StatusFailed \<Rightarrow>
            if rn_failure rn = None
            then rn\<lparr>rn_failure := Some (Msg (''step '' @ quote (st_id st) @ '': ''
                   @ (case map_of (ws_steps (rn_state rn)) (st_id st) of
                        None \<Rightarrow> [] | Some s \<Rightarrow> sp_err s)))\<rparr>
            else rn
        | StatusCancelled \<Rightarrow> run_cancel ErrCancelled rn
        | _ \<Rightarrow> rn)"

definition settle :: "wrun \<Rightarrow> wrun" where
  "settle rn =
     (let rn = settle_steps (wf_steps (ws_workflow (rn_state rn))) rn in
      if rn_failure rn \<noteq> None then run_stop rn else rn)"

fun ready_from :: "wrun \<Rightarrow> string set \<Rightarrow> wstep list \<Rightarrow> wstep list" where
  "ready_from rn busy [] = []"
| "ready_from rn busy (st # sts) =
     (let s = step_status (rn_state rn) (st_id st) in
      if s \<noteq> StatusPending \<and> s \<noteq> StatusRunning \<or> st_id st \<in> rn_inflight rn \<or> st_session st \<in> busy
      then ready_from rn busy sts
      else if \<not> list_ex (\<lambda>dep. step_status (rn_state rn) dep \<noteq> StatusDone) (st_after st)
      then st # ready_from rn (insert (st_session st) busy) sts
      else ready_from rn busy sts)"

definition ready :: "wrun \<Rightarrow> wstep list" where
  "ready rn = ready_from rn (rn_busy rn) (wf_steps (ws_workflow (rn_state rn)))"

section \<open>The loop\<close>

definition loop_at :: "loop_pc \<Rightarrow> wrun \<Rightarrow> wrun" where
  "loop_at pc rn = rn\<lparr>rn_loop := pc\<rparr>"

definition thread_at :: "wstep \<Rightarrow> step_pc option \<Rightarrow> wrun \<Rightarrow> wrun" where
  "thread_at st pc rn =
     rn\<lparr>rn_threads := (rn_threads rn)(st_id st := map_option (\<lambda>p. (st, p)) pc)\<rparr>"

text \<open>The steps launched, in order, while a slot is free.\<close>

fun launch :: "wstep list \<Rightarrow> wrun \<Rightarrow> wrun" where
  "launch [] rn = rn"
| "launch (st # sts) rn =
     (if \<not> slot_free rn then rn
      else launch sts
        (thread_at st (Some StepSession)
          ((slot_take (rn_id rn, st_id st) rn)
             \<lparr>rn_inflight := insert (st_id st) (rn_inflight rn),
              rn_busy := insert (st_session st) (rn_busy rn)\<rparr>)))"

definition no_start :: err where
  "no_start = Msg ''workflow: no step can start''"

definition loop_top :: "time \<Rightarrow> wrun \<Rightarrow> wrun" where
  "loop_top now rn =
     (if rn_cause rn \<noteq> None \<or> rn_failure rn \<noteq> None then
        (if rn_inflight rn = {} then loop_at LoopExit rn else loop_at (LoopWait False False) rn)
      else if done_count (rn_state rn) = length (wf_steps (ws_workflow (rn_state rn))) then
        loop_at LoopLogDone rn
      else if ws_status (rn_state rn) = StatusPaused then
        (if ws_until (rn_state rn) - now > 0 then loop_at (LoopWait True True) rn
         else loop_at LoopLogResumed rn)
      else if ready rn = [] \<and> rn_inflight rn = {} then rn\<lparr>rn_failure := Some no_start\<rparr>
      else loop_at (LoopWait True False) (launch (ready rn) rn))"

definition loop_wake :: "wrun \<Rightarrow> wrun" where
  "loop_wake rn = loop_at LoopTop (rn\<lparr>rn_wake := False\<rparr>)"

text \<open>An append to the log whose error the loop drops.\<close>

definition loop_log :: "wevent \<Rightarrow> loop_pc \<Rightarrow> time \<Rightarrow> err option \<Rightarrow> wrun \<Rightarrow> wrun" where
  "loop_log e pc now answer rn = loop_at pc (fst (run_log e now answer rn))"

definition ended_event :: "status \<Rightarrow> string \<Rightarrow> wevent" where
  "ended_event s er = (wevent_of KindRunEnded)\<lparr>we_status := s, we_err := er\<rparr>"

definition loop_exit :: "wrun \<Rightarrow> wrun" where
  "loop_exit rn =
     loop_at (case rn_failure rn of
                Some e \<Rightarrow> LoopLogFailed e
              | None \<Rightarrow> if interrupted rn then LoopFinish else LoopLogCancelled) rn"

text \<open>
  finish: the run's subscribers are closed and its sessions forgotten. The code drops its list of
  subscribers; the closed queues stay in the model's, so that what they deliver can be stated,
  and a closed queue takes no event.
\<close>

definition close_subs :: "(nat \<times> wevent equeue) list \<Rightarrow> (nat \<times> wevent equeue) list" where
  "close_subs subs = map (\<lambda>(past, q). (past, wq_close q)) subs"

definition loop_finish :: "wrun \<Rightarrow> wrun" where
  "loop_finish rn =
     (let rn = run_stop rn;
          rn = rn\<lparr>rn_sessions := (\<lambda>_. None), rn_finished := True,
                  rn_err := (if interrupted rn then rn_cause rn else rn_err rn),
                  rn_subs := close_subs (rn_subs rn)\<rparr>
      in loop_at LoopGone (run_cancel ErrContextCanceled rn))"

section \<open>A step\<close>

text \<open>session, up to its two calls and its append.\<close>

definition step_session :: "wstep \<Rightarrow> wrun \<Rightarrow> wrun" where
  "step_session st rn =
     (case rn_sessions rn (st_session st) of
        Some _ \<Rightarrow> thread_at st (Some StepPlan) rn
      | None \<Rightarrow>
          thread_at st (Some (StepOpen
            (case map_of (ws_sessions (rn_state rn)) (st_session st) of None \<Rightarrow> [] | Some sid \<Rightarrow> sid))) rn)"

definition step_open :: "wstep \<Rightarrow> string \<Rightarrow> (err + string) \<Rightarrow> wrun \<Rightarrow> wrun" where
  "step_open st known answer rn =
     (case answer of
        Inl e \<Rightarrow>
          thread_at st (Some (StepEnd uuid_nil None
            (Some (wrap (''open session '' @ quote (st_session st)) e)))) rn
      | Inr sid \<Rightarrow>
          thread_at st (Some (if sid \<noteq> known then StepOpened sid else StepPlan))
            (rn\<lparr>rn_sessions := (rn_sessions rn)(st_session st \<mapsto> sid)\<rparr>))"

definition step_opened :: "wstep \<Rightarrow> string \<Rightarrow> time \<Rightarrow> err option \<Rightarrow> wrun \<Rightarrow> wrun" where
  "step_opened st sid now answer rn =
     (case run_log ((wevent_of KindSessionOpened)\<lparr>we_session := st_session st, we_session_id := sid\<rparr>)
             now answer rn of
        (rn, None) \<Rightarrow> thread_at st (Some StepPlan) rn
      | (rn, Some e) \<Rightarrow> thread_at st (Some (StepEnd uuid_nil None (Some e))) rn)"

definition prior_exchange :: "wstep \<Rightarrow> wrun \<Rightarrow> uuid option" where
  "prior_exchange st rn =
     (case map_of (ws_steps (rn_state rn)) (st_id st) of
        None \<Rightarrow> None
      | Some s \<Rightarrow> if sp_status s = StatusRunning \<and> sp_exchange_id s \<noteq> uuid_nil
                  then Some (sp_exchange_id s) else None)"

definition step_plan :: "wstep \<Rightarrow> wrun \<Rightarrow> wrun" where
  "step_plan st rn =
     thread_at st (Some
       (case prior_exchange st rn of
          Some xid \<Rightarrow> StepAdopt xid (results (rn_state rn))
        | None \<Rightarrow> StepPrompt (results (rn_state rn)))) rn"

text \<open>adopt's reading of the session's records: the result it takes, if it takes one.\<close>

definition adoptable :: "uuid \<Rightarrow> exchange_record list \<Rightarrow> result option" where
  "adoptable xid recs =
     (case find (\<lambda>rec. re_exchange_id rec = xid) recs of
        None \<Rightarrow> None
      | Some rec \<Rightarrow>
          if re_err rec \<noteq> [] \<or> rs_stop_reason (re_result rec) = []
             \<or> rs_stop_reason (re_result rec) = ''aborted''
          then None else Some (re_result rec))"

definition step_adopt ::
  "wstep \<Rightarrow> uuid \<Rightarrow> (string \<Rightarrow> result option) \<Rightarrow> (err + exchange_record list) \<Rightarrow> wrun \<Rightarrow> wrun" where
  "step_adopt st xid res answer rn =
     thread_at st (Some
       (case answer of
          Inl e \<Rightarrow> StepEnd xid None (Some e)
        | Inr recs \<Rightarrow>
            (case adoptable xid recs of
               None \<Rightarrow> StepPrompt res
             | Some r \<Rightarrow> StepLogAdopted xid r))) rn"

text \<open>The step event of a step, with its session and exchange.\<close>

definition step_event :: "kind \<Rightarrow> wstep \<Rightarrow> uuid \<Rightarrow> wevent" where
  "step_event k st xid =
     (wevent_of k)\<lparr>we_step := st_id st, we_session := st_session st, we_exchange_id := xid\<rparr>"

definition step_adopted :: "wstep \<Rightarrow> uuid \<Rightarrow> result \<Rightarrow> time \<Rightarrow> err option \<Rightarrow> wrun \<Rightarrow> wrun" where
  "step_adopted st xid r now answer rn =
     (case run_log ((step_event KindStepEnded st xid)
               \<lparr>we_status := StatusDone, we_result := Some r, we_adopted := True\<rparr>) now answer rn of
        (rn, None) \<Rightarrow> thread_at st (Some StepSlot) rn
      | (rn, Some e) \<Rightarrow> thread_at st (Some (StepEnd xid None (Some e))) rn)"

definition step_prompt ::
  "'t template_parse \<Rightarrow> 't template_execute \<Rightarrow> wstep \<Rightarrow> (string \<Rightarrow> result option) \<Rightarrow> wrun \<Rightarrow> wrun" where
  "step_prompt parse execute st res rn =
     thread_at st (Some
       (case wf_prompt parse execute (ws_workflow (rn_state rn)) (st_id st) res of
          Inl e \<Rightarrow> StepEnd uuid_nil None (Some e)
        | Inr text \<Rightarrow> StepSend text)) rn"

definition step_send :: "wstep \<Rightarrow> string \<Rightarrow> (err + uuid) \<Rightarrow> wrun \<Rightarrow> wrun" where
  "step_send st text answer rn =
     thread_at st (Some
       (case answer of
          Inl e \<Rightarrow> StepEnd uuid_nil None (Some e)
        | Inr xid \<Rightarrow> StepLogStarted xid text)) rn"

text \<open>The step is logged as started; when that fails its exchange is cancelled, and followed all the same.\<close>

definition step_started :: "wstep \<Rightarrow> uuid \<Rightarrow> string \<Rightarrow> time \<Rightarrow> err option \<Rightarrow> wrun \<Rightarrow> wrun" where
  "step_started st xid text now answer rn =
     thread_at st (Some (StepFollow xid))
       (fst (run_log ((step_event KindStepStarted st xid)\<lparr>we_prompt := text\<rparr>) now answer rn))"

definition step_live :: "wstep \<Rightarrow> uuid \<Rightarrow> event \<Rightarrow> time \<Rightarrow> wrun \<Rightarrow> wrun" where
  "step_live st xid ev now rn =
     run_live ((step_event KindExchange st xid)\<lparr>we_exchange := Some (exchange_event_of ev)\<rparr>) now rn"

definition step_waited :: "wstep \<Rightarrow> uuid \<Rightarrow> result \<Rightarrow> err option \<Rightarrow> wrun \<Rightarrow> wrun" where
  "step_waited st xid r er rn = thread_at st (Some (StepEnd xid (Some r) er)) rn"

definition limit_retry :: time where
  "limit_retry = 60000000000"

text \<open>end, up to its append.\<close>

definition step_end :: "wstep \<Rightarrow> uuid \<Rightarrow> result option \<Rightarrow> err option \<Rightarrow> time \<Rightarrow> wrun \<Rightarrow> wrun" where
  "step_end st xid res er now rn =
     (let e = (step_event KindStepEnded st xid)\<lparr>we_result := res\<rparr> in
      thread_at st (Some
        (if interrupted rn then StepSlot
         else if steps_ended rn then StepLogEnd (e\<lparr>we_status := StatusCancelled\<rparr>) er
         else case er of
                None \<Rightarrow> StepLogEnd (e\<lparr>we_status := StatusDone\<rparr>) er
              | Some er' \<Rightarrow>
                  (case as_limit er' of
                     Some (resets, m) \<Rightarrow>
                       StepPause (if is_zero resets then now + limit_retry else resets) er'
                   | None \<Rightarrow>
                       StepLogEnd (e\<lparr>we_status := StatusFailed, we_err := err_text er'\<rparr>) er))) rn)"

definition step_pause :: "wstep \<Rightarrow> time \<Rightarrow> err \<Rightarrow> wrun \<Rightarrow> wrun" where
  "step_pause st until er rn =
     thread_at st (Some
       (if ws_status (rn_state rn) \<noteq> StatusPaused \<or> until > ws_until (rn_state rn)
        then StepLogPause until er else StepSlot)) rn"

definition step_log_pause :: "wstep \<Rightarrow> time \<Rightarrow> err \<Rightarrow> time \<Rightarrow> err option \<Rightarrow> wrun \<Rightarrow> wrun" where
  "step_log_pause st until er now answer rn =
     thread_at st (Some StepSlot)
       (fst (run_log ((wevent_of KindRunPaused)
          \<lparr>we_step := st_id st, we_until := until, we_err := err_text er\<rparr>) now answer rn))"

definition step_log_end :: "wstep \<Rightarrow> wevent \<Rightarrow> err option \<Rightarrow> time \<Rightarrow> err option \<Rightarrow> wrun \<Rightarrow> wrun" where
  "step_log_end st e er now answer rn =
     (case run_log e now answer rn of
        (rn, lerr) \<Rightarrow>
          thread_at st (Some
            (if lerr \<noteq> None \<or> we_status e \<noteq> StatusFailed then StepSlot
             else case er of None \<Rightarrow> StepSlot | Some er' \<Rightarrow> StepFail er')) rn)"

definition step_fail :: "wstep \<Rightarrow> err \<Rightarrow> wrun \<Rightarrow> wrun" where
  "step_fail st er rn =
     thread_at st (Some StepStop)
       (if rn_failure rn = None
        then rn\<lparr>rn_failure := Some (wrap (''step '' @ quote (st_id st)) er)\<rparr> else rn)"

definition step_stop :: "wstep \<Rightarrow> wrun \<Rightarrow> wrun" where
  "step_stop st rn = thread_at st (Some StepSlot) (run_stop rn)"

text \<open>The two deferred releases: the slot, then the session.\<close>

definition step_slot :: "wstep \<Rightarrow> wrun \<Rightarrow> wrun" where
  "step_slot st rn = thread_at st (Some StepRelease) (slot_release (rn_id rn, st_id st) rn)"

definition step_release :: "wstep \<Rightarrow> wrun \<Rightarrow> wrun" where
  "step_release st rn =
     thread_at st (Some StepLeave)
       (if \<not> list_ex (\<lambda>s. st_session s = st_session st
               \<and> step_status (rn_state rn) (st_id s) \<noteq> StatusDone) (wf_steps (ws_workflow (rn_state rn)))
        then rn\<lparr>rn_sessions := (rn_sessions rn)(st_session st := None)\<rparr> else rn)"

definition step_leave :: "wstep \<Rightarrow> wrun \<Rightarrow> wrun" where
  "step_leave st rn =
     run_signal (thread_at st None
       (rn\<lparr>rn_inflight := rn_inflight rn - {st_id st}, rn_busy := rn_busy rn - {st_session st}\<rparr>))"

section \<open>Subscribers, cancellation, and the other runs\<close>

text \<open>
  Subscribe on a run not finished: the log past \<open>past\<close>, then the events to come. The number kept
  beside the queue is the model's own: the Seq the subscription takes up after, which is the
  log's last when \<open>past\<close> lies beyond it.
\<close>

definition run_subscribe :: "nat \<Rightarrow> wrun \<Rightarrow> wrun" where
  "run_subscribe past rn =
     (if rn_finished rn then rn
      else rn\<lparr>rn_subs := rn_subs rn
             @ [(min past (ws_seq (rn_state rn)),
                 wq_push (filter (\<lambda>e. we_seq e > past) (rn_log rn)) new_queue)]\<rparr>)"

text \<open>A subscriber's queue takes a step of its pump, or its context ends.\<close>

definition run_sub_at :: "nat \<Rightarrow> wevent equeue \<Rightarrow> wrun \<Rightarrow> wrun" where
  "run_sub_at i q rn = rn\<lparr>rn_subs := (rn_subs rn)[i := (fst (rn_subs rn ! i), q)]\<rparr>"

text \<open>Another run takes a slot, or frees one.\<close>

definition other_takes :: "string \<times> string \<Rightarrow> wrun \<Rightarrow> wrun" where
  "other_takes tok rn = slot_take tok rn"

definition other_frees :: "string \<times> string \<Rightarrow> wrun \<Rightarrow> wrun" where
  "other_frees tok rn = slot_release tok rn"

section \<open>Steps\<close>

inductive run_step ::
  "'t template_parse \<Rightarrow> 't template_execute \<Rightarrow> wrun \<Rightarrow> wrun \<Rightarrow> bool" for parse execute where
  loop_step_top: "rn_loop rn = LoopTop \<Longrightarrow> run_step parse execute rn (loop_top now rn)"
| loop_step_wake: "rn_loop rn = LoopWait d t \<Longrightarrow> rn_wake rn \<Longrightarrow> run_step parse execute rn (loop_wake rn)"
| loop_step_ctx: "rn_loop rn = LoopWait True t \<Longrightarrow> rn_cause rn \<noteq> None \<Longrightarrow>
    run_step parse execute rn (loop_at LoopTop rn)"
| loop_step_timer: "rn_loop rn = LoopWait d True \<Longrightarrow> run_step parse execute rn (loop_at LoopTop rn)"
| loop_step_done: "rn_loop rn = LoopLogDone \<Longrightarrow>
    run_step parse execute rn (loop_log (ended_event StatusDone []) LoopFinish now answer rn)"
| loop_step_resumed: "rn_loop rn = LoopLogResumed \<Longrightarrow>
    run_step parse execute rn (loop_log (wevent_of KindRunResumed) LoopTop now answer rn)"
| loop_step_exit: "rn_loop rn = LoopExit \<Longrightarrow> run_step parse execute rn (loop_exit rn)"
| loop_step_failed: "rn_loop rn = LoopLogFailed e \<Longrightarrow>
    run_step parse execute rn
      (loop_log (ended_event StatusFailed (err_text e)) LoopFinish now answer rn)"
| loop_step_cancelled: "rn_loop rn = LoopLogCancelled \<Longrightarrow>
    run_step parse execute rn (loop_log (ended_event StatusCancelled []) LoopFinish now answer rn)"
| loop_step_finish: "rn_loop rn = LoopFinish \<Longrightarrow> run_step parse execute rn (loop_finish rn)"
| thread_session: "rn_threads rn sid = Some (st, StepSession) \<Longrightarrow>
    run_step parse execute rn (step_session st rn)"
| thread_open: "rn_threads rn sid = Some (st, StepOpen known) \<Longrightarrow>
    run_step parse execute rn (step_open st known opened rn)"
| thread_opened: "rn_threads rn sid = Some (st, StepOpened h) \<Longrightarrow>
    run_step parse execute rn (step_opened st h now answer rn)"
| thread_plan: "rn_threads rn sid = Some (st, StepPlan) \<Longrightarrow>
    run_step parse execute rn (step_plan st rn)"
| thread_adopt: "rn_threads rn sid = Some (st, StepAdopt xid res) \<Longrightarrow>
    run_step parse execute rn (step_adopt st xid res records rn)"
| thread_adopted: "rn_threads rn sid = Some (st, StepLogAdopted xid r) \<Longrightarrow>
    run_step parse execute rn (step_adopted st xid r now answer rn)"
| thread_prompt: "rn_threads rn sid = Some (st, StepPrompt res) \<Longrightarrow>
    run_step parse execute rn (step_prompt parse execute st res rn)"
| thread_send: "rn_threads rn sid = Some (st, StepSend text) \<Longrightarrow>
    run_step parse execute rn (step_send st text sent rn)"
| thread_started: "rn_threads rn sid = Some (st, StepLogStarted xid text) \<Longrightarrow>
    run_step parse execute rn (step_started st xid text now answer rn)"
| thread_live: "rn_threads rn sid = Some (st, StepFollow xid) \<Longrightarrow>
    run_step parse execute rn (step_live st xid ev now rn)"
| thread_waited: "rn_threads rn sid = Some (st, StepFollow xid) \<Longrightarrow>
    run_step parse execute rn (step_waited st xid r er rn)"
| thread_end: "rn_threads rn sid = Some (st, StepEnd xid res er) \<Longrightarrow>
    run_step parse execute rn (step_end st xid res er now rn)"
| thread_pause: "rn_threads rn sid = Some (st, StepPause until e) \<Longrightarrow>
    run_step parse execute rn (step_pause st until e rn)"
| thread_log_pause: "rn_threads rn sid = Some (st, StepLogPause until e) \<Longrightarrow>
    run_step parse execute rn (step_log_pause st until e now answer rn)"
| thread_log_end: "rn_threads rn sid = Some (st, StepLogEnd ev er) \<Longrightarrow>
    run_step parse execute rn (step_log_end st ev er now answer rn)"
| thread_fail: "rn_threads rn sid = Some (st, StepFail e) \<Longrightarrow>
    run_step parse execute rn (step_fail st e rn)"
| thread_stop: "rn_threads rn sid = Some (st, StepStop) \<Longrightarrow>
    run_step parse execute rn (step_stop st rn)"
| thread_slot: "rn_threads rn sid = Some (st, StepSlot) \<Longrightarrow>
    run_step parse execute rn (step_slot st rn)"
| thread_release: "rn_threads rn sid = Some (st, StepRelease) \<Longrightarrow>
    run_step parse execute rn (step_release st rn)"
| thread_leave: "rn_threads rn sid = Some (st, StepLeave) \<Longrightarrow>
    run_step parse execute rn (step_leave st rn)"
| env_cancel: "run_step parse execute rn (run_cancel ErrCancelled rn)"
| env_shutdown: "run_step parse execute rn (run_cancel ErrShutdown rn)"
| env_subscribe: "run_step parse execute rn (run_subscribe past rn)"
| env_deliver: "i < length (rn_subs rn) \<Longrightarrow> wq_step (snd (rn_subs rn ! i)) q \<Longrightarrow>
    run_step parse execute rn (run_sub_at i q rn)"
| env_leave: "i < length (rn_subs rn) \<Longrightarrow>
    run_step parse execute rn (run_sub_at i (q_cancel (snd (rn_subs rn ! i))) rn)"
| env_takes: "fst tok \<noteq> rn_id rn \<Longrightarrow> slot_free rn \<Longrightarrow> run_step parse execute rn (other_takes tok rn)"
| env_frees: "fst tok \<noteq> rn_id rn \<Longrightarrow> tok \<in> set (rn_slots rn) \<Longrightarrow>
    run_step parse execute rn (other_frees tok rn)"

section \<open>What an append does\<close>

lemma run_logE:
  assumes "run_log e now answer rn = (rn', er)"
  obtains (failed) x c where "er = Some x" "rn' = rn\<lparr>rn_cause := c\<rparr>" "rn_cause rn \<noteq> None \<Longrightarrow> c = rn_cause rn"
  | (appended) e' s where "er = None" "e' = e\<lparr>we_run_id := rn_id rn, we_seq := ws_seq (rn_state rn) + 1, we_time := now\<rparr>"
      "apply_event (rn_state rn) e' = Inr s"
      "rn' = rn\<lparr>rn_state := s, rn_log := rn_log rn @ [e'],
         rn_subs := push_subs e' (filter (\<lambda>(past, q). \<not> wq_gone q) (rn_subs rn))\<rparr>"
proof (cases "apply_event (rn_state rn) (e\<lparr>we_run_id := rn_id rn, we_seq := ws_seq (rn_state rn) + 1, we_time := now\<rparr>)")
  case (Inl x)
  then show ?thesis using assms that(1)[of x "rn_cause rn"] by (simp add: run_log_def Let_def)
next
  case (Inr s)
  then show ?thesis
  proof (cases answer)
    case None
    then show ?thesis using assms Inr that(2)[OF _ refl Inr] by (simp add: run_log_def Let_def)
  next
    case (Some x)
    then show ?thesis using assms Inr that(1)
      by (cases "rn_cause rn") (auto simp: run_log_def run_cancel_def Let_def)
  qed
qed

text \<open>The status of the steps after an event.\<close>

definition status_after :: "wevent \<Rightarrow> (string \<Rightarrow> status) \<Rightarrow> string \<Rightarrow> status" where
  "status_after e f =
     (if we_kind e = KindStepStarted then f(we_step e := StatusRunning)
      else if we_kind e = KindStepEnded then f(we_step e := we_status e) else f)"

lemma apply_event_status:
  assumes "apply_event s e = Inr s'" "we_kind e \<noteq> KindRunStarted"
  shows "step_status s' = status_after e (step_status s)" "ws_workflow s' = ws_workflow s"
    "\<not> status_ended (ws_status s)" "ws_status s' = (case we_kind e of KindRunResumed \<Rightarrow> StatusRunning
       | KindRunPaused \<Rightarrow> StatusPaused | KindRunEnded \<Rightarrow> we_status e | _ \<Rightarrow> ws_status s)"
proof -
  obtain s1 where s1: "apply_kind s e = Inr s1" "s' = s1\<lparr>ws_seq := we_seq e\<rparr>" "\<not> status_ended (ws_status s)"
    using assms by (auto simp: apply_event_def split: if_splits sum.splits)
  have "step_status s' sid = step_status s1 sid" for sid by (simp add: s1(2) step_status_def)
  then show "step_status s' = status_after e (step_status s)"
    using apply_kind_status(1)[OF s1(1)] by (auto simp: fun_eq_iff status_after_def)
  show "ws_workflow s' = ws_workflow s" "\<not> status_ended (ws_status s)"
    "ws_status s' = (case we_kind e of KindRunResumed \<Rightarrow> StatusRunning
       | KindRunPaused \<Rightarrow> StatusPaused | KindRunEnded \<Rightarrow> we_status e | _ \<Rightarrow> ws_status s)"
    using s1 by (auto simp: apply_kind_def Let_def split: kind.splits if_splits option.splits)
qed

section \<open>Scheduling\<close>

abbreviation status_of :: "wrun \<Rightarrow> string \<Rightarrow> status" where
  "status_of rn \<equiv> step_status (rn_state rn)"

text \<open>A goroutine that may still log an event of its step.\<close>

fun active :: "step_pc \<Rightarrow> bool" where
  "active (StepFail e) = False"
| "active StepStop = False"
| "active StepSlot = False"
| "active StepRelease = False"
| "active StepLeave = False"
| "active _ = True"

text \<open>What a step that is about to log its end logs.\<close>

fun end_ok :: "wrun \<Rightarrow> wstep \<Rightarrow> step_pc \<Rightarrow> bool" where
  "end_ok rn st (StepLogEnd e er) \<longleftrightarrow>
     we_kind e = KindStepEnded \<and> we_step e = st_id st
     \<and> (we_status e = StatusDone \<or> we_status e = StatusFailed \<and> er \<noteq> None
        \<or> we_status e = StatusCancelled \<and> steps_ended rn)"
| "end_ok rn st _ \<longleftrightarrow> True"

definition thread_ok :: "wrun \<Rightarrow> wstep \<Rightarrow> step_pc \<Rightarrow> bool" where
  "thread_ok rn st pc \<longleftrightarrow>
     (\<forall>dep \<in> set (st_after st). status_of rn dep = StatusDone)
     \<and> (active pc \<longrightarrow> status_of rn (st_id st) = StatusPending \<or> status_of rn (st_id st) = StatusRunning)
     \<and> end_ok rn st pc"

definition n_threads :: "wrun \<Rightarrow> bool" where
  "n_threads rn \<longleftrightarrow>
     (\<forall>sid st pc. rn_threads rn sid = Some (st, pc) \<longrightarrow>
        st_id st = sid \<and> st \<in> set (wf_steps (ws_workflow (rn_state rn))) \<and> thread_ok rn st pc)
     \<and> rn_inflight rn = dom (rn_threads rn)
     \<and> rn_busy rn = {ss. \<exists>sid st pc. rn_threads rn sid = Some (st, pc) \<and> st_session st = ss}
     \<and> (\<forall>sid st pc sid' st' pc'. rn_threads rn sid = Some (st, pc) \<longrightarrow> rn_threads rn sid' = Some (st', pc')
          \<longrightarrow> st_session st = st_session st' \<longrightarrow> sid = sid')"

text \<open>What a step leaves alone but for the step \<open>sid\<close>.\<close>

definition frame :: "string \<Rightarrow> wrun \<Rightarrow> wrun \<Rightarrow> bool" where
  "frame sid rn rn' \<longleftrightarrow>
     ws_workflow (rn_state rn') = ws_workflow (rn_state rn)
     \<and> (\<forall>s. s \<noteq> sid \<longrightarrow> status_of rn' s = status_of rn s)
     \<and> (status_of rn sid = StatusDone \<longrightarrow> status_of rn' sid = StatusDone)
     \<and> (steps_ended rn \<longrightarrow> steps_ended rn')
     \<and> rn_inflight rn' = rn_inflight rn \<and> rn_busy rn' = rn_busy rn"

lemma end_ok_mono: "end_ok rn st pc \<Longrightarrow> (steps_ended rn \<Longrightarrow> steps_ended rn') \<Longrightarrow> end_ok rn' st pc"
  by (cases pc) auto

lemma thread_ok_frame:
  "thread_ok rn st pc \<Longrightarrow> frame sid rn rn' \<Longrightarrow> st_id st \<noteq> sid \<Longrightarrow> thread_ok rn' st pc"
  unfolding thread_ok_def frame_def by (metis end_ok_mono)

lemma n_threads_move:
  assumes n: "n_threads rn" and t: "rn_threads rn sid = Some (st, pc)" and f: "frame sid rn rn'"
    and t': "rn_threads rn' = (rn_threads rn)(sid \<mapsto> (st, pc'))"
    and a: "active pc' \<Longrightarrow> status_of rn' sid = StatusPending \<or> status_of rn' sid = StatusRunning"
    and e: "end_ok rn' st pc'"
  shows "n_threads rn'"
proof -
  have st: "st_id st = sid" "st \<in> set (wf_steps (ws_workflow (rn_state rn)))" "thread_ok rn st pc"
    using n t by (auto simp: n_threads_def)
  then have "thread_ok rn' st pc'"
    using f a e unfolding thread_ok_def frame_def by metis
  moreover have "thread_ok rn' st2 pc2"
    if "rn_threads rn sid2 = Some (st2, pc2)" "sid2 \<noteq> sid" for sid2 st2 pc2
    using thread_ok_frame[OF _ f] n that by (auto simp: n_threads_def)
  moreover have "dom (rn_threads rn') = dom (rn_threads rn)" using t t' by auto
  moreover have "(\<exists>sid st pc. rn_threads rn' sid = Some (st, pc) \<and> st_session st = ss)
      \<longleftrightarrow> (\<exists>sid st pc. rn_threads rn sid = Some (st, pc) \<and> st_session st = ss)" for ss
    unfolding t' using t by (metis fun_upd_apply option.inject prod.inject)
  moreover have "ws_workflow (rn_state rn') = ws_workflow (rn_state rn)"
    "rn_inflight rn' = rn_inflight rn" "rn_busy rn' = rn_busy rn"
    using f by (auto simp: frame_def)
  ultimately show ?thesis using n st t unfolding n_threads_def t'
    by (simp add: t'[symmetric]) (auto simp: t' split: if_splits)
qed

lemma n_threads_env:
  assumes n: "n_threads rn" and f: "\<And>sid. frame sid rn rn'" and t: "rn_threads rn' = rn_threads rn"
  shows "n_threads rn'"
proof -
  have s: "status_of rn' = status_of rn" using f unfolding frame_def by (metis ext list.distinct(1))
  have "thread_ok rn' st pc" if "thread_ok rn st pc" for st pc
    using that f[of "[]"] end_ok_mono[of rn st pc rn'] unfolding thread_ok_def s frame_def by blast
  then show ?thesis using n f[of "[]"] unfolding n_threads_def t frame_def by auto
qed

lemma n_threads_leave:
  assumes n: "n_threads rn" and t: "rn_threads rn sid = Some (st, pc)"
  shows "n_threads (step_leave st rn)"
proof -
  have st: "st_id st = sid" using n t by (auto simp: n_threads_def)
  have x: "st_session st2 \<noteq> st_session st" if "rn_threads rn sid2 = Some (st2, pc2)" "sid2 \<noteq> sid" for sid2 st2 pc2
    using n t that unfolding n_threads_def by blast
  have ok: "thread_ok (step_leave st rn) st2 pc2 = thread_ok rn st2 pc2" for st2 pc2
    by (cases pc2) (simp_all add: thread_ok_def step_leave_def run_signal_def thread_at_def steps_ended_def)
  have "{ss. \<exists>sid st pc. rn_threads rn sid = Some (st, pc) \<and> st_session st = ss} - {st_session st}
      = {ss. \<exists>sid2 st pc. ((rn_threads rn)(sid := None)) sid2 = Some (st, pc) \<and> st_session st = ss}"
    using x t by (auto split: if_splits) (metis option.inject prod.inject)
  then show ?thesis using n ok unfolding n_threads_def
    by (auto simp: step_leave_def run_signal_def thread_at_def st)
qed

text \<open>An append made for the step \<open>sid\<close>, or for none.\<close>

definition for_step :: "string \<Rightarrow> wevent \<Rightarrow> bool" where
  "for_step sid e \<longleftrightarrow>
     we_kind e \<noteq> KindRunStarted
     \<and> (we_kind e = KindStepStarted \<or> we_kind e = KindStepEnded \<longrightarrow> we_step e = sid)"

lemma run_log_frame:
  assumes "run_log e now answer rn = (rn', er)" "for_step sid e" "status_of rn sid \<noteq> StatusDone"
  shows "frame sid rn rn'" "rn_threads rn' = rn_threads rn"
    "status_of rn' = (if er = None then status_after e (status_of rn) else status_of rn)"
    "rn_failure rn' = rn_failure rn" "rn_loop rn' = rn_loop rn" "rn_stopped rn' = rn_stopped rn"
    "rn_cause rn \<noteq> None \<Longrightarrow> rn_cause rn' = rn_cause rn"
  using assms(1)
  by (cases rule: run_logE; use assms(2,3) in \<open>auto simp: frame_def steps_ended_def for_step_def
        apply_event_status status_after_def\<close>)+

lemma run_log_quiet:
  assumes "run_log e now answer rn = (rn', er)" "we_kind e \<notin> {KindRunStarted, KindStepStarted, KindStepEnded}"
  shows "frame sid rn rn'" "rn_threads rn' = rn_threads rn" "status_of rn' = status_of rn"
    "rn_failure rn' = rn_failure rn" "rn_loop rn' = rn_loop rn" "rn_stopped rn' = rn_stopped rn"
    "rn_cause rn \<noteq> None \<Longrightarrow> rn_cause rn' = rn_cause rn"
  using assms(1)
  by (cases rule: run_logE; use assms(2) in \<open>auto simp: frame_def steps_ended_def
        apply_event_status status_after_def\<close>)+

lemma wevent_of_simps [simp]:
  "we_kind (wevent_of k) = k" "we_kind (step_event k st xid) = k" "we_step (step_event k st xid) = st_id st"
  "we_kind (ended_event s er) = KindRunEnded" "we_status (ended_event s er) = s"
  by (simp_all add: wevent_of_def step_event_def ended_event_def)

lemma frame_thread_at [simp]:
  "frame sid rn (thread_at st pc rn') \<longleftrightarrow> frame sid rn rn'"
  by (simp add: frame_def thread_at_def steps_ended_def)

lemma frame_refl [simp]: "frame sid rn rn"
  by (simp add: frame_def)

lemma thread_at_fields [simp]:
  "rn_threads (thread_at st pc rn) = (rn_threads rn)(st_id st := map_option (\<lambda>p. (st, p)) pc)"
  "rn_state (thread_at st pc rn) = rn_state rn" "rn_failure (thread_at st pc rn) = rn_failure rn"
  "rn_cause (thread_at st pc rn) = rn_cause rn" "rn_stopped (thread_at st pc rn) = rn_stopped rn"
  "rn_loop (thread_at st pc rn) = rn_loop rn" "rn_wake (thread_at st pc rn) = rn_wake rn"
  "rn_slots (thread_at st pc rn) = rn_slots rn" "rn_limit (thread_at st pc rn) = rn_limit rn"
  "rn_inflight (thread_at st pc rn) = rn_inflight rn" "rn_busy (thread_at st pc rn) = rn_busy rn"
  "rn_log (thread_at st pc rn) = rn_log rn" "rn_id (thread_at st pc rn) = rn_id rn"
  "rn_sessions (thread_at st pc rn) = rn_sessions rn" "rn_err (thread_at st pc rn) = rn_err rn"
  "rn_subs (thread_at st pc rn) = rn_subs rn" "rn_finished (thread_at st pc rn) = rn_finished rn"
  "steps_ended (thread_at st pc rn) = steps_ended rn"
  by (simp_all add: thread_at_def steps_ended_def)

text \<open>Moves of a thread that touch nothing the scheduling rests on.\<close>

definition quiet :: "wrun \<Rightarrow> wrun \<Rightarrow> bool" where
  "quiet rn rn' \<longleftrightarrow>
     rn_state rn' = rn_state rn \<and> rn_threads rn' = rn_threads rn \<and> rn_inflight rn' = rn_inflight rn
     \<and> rn_busy rn' = rn_busy rn \<and> (steps_ended rn \<longrightarrow> steps_ended rn')"

lemma quiet_frame: "quiet rn rn' \<Longrightarrow> frame sid rn rn'"
  by (simp add: quiet_def frame_def)

lemma n_threads_quiet: "n_threads rn \<Longrightarrow> quiet rn rn' \<Longrightarrow> n_threads rn'"
  using n_threads_env quiet_frame by (metis quiet_def)

lemma n_threads_quiet_move:
  assumes n: "n_threads rn" and t: "rn_threads rn sid = Some (st, pc)" and q: "quiet rn rn1"
    and a: "active pc' \<Longrightarrow> active pc" and e: "end_ok rn1 st pc'"
  shows "n_threads (thread_at st (Some pc') rn1)"
proof -
  have ok: "st_id st = sid" "thread_ok rn st pc" using n t by (auto simp: n_threads_def)
  show ?thesis
  proof (rule n_threads_move[OF n t])
    show "frame sid rn (thread_at st (Some pc') rn1)" using quiet_frame[OF q] by simp
    show "rn_threads (thread_at st (Some pc') rn1) = (rn_threads rn)(sid \<mapsto> (st, pc'))"
      using q ok by (simp add: quiet_def)
    show "status_of (thread_at st (Some pc') rn1) sid = StatusPending
        \<or> status_of (thread_at st (Some pc') rn1) sid = StatusRunning" if "active pc'"
      using a[OF that] ok q by (simp add: thread_ok_def quiet_def)
    show "end_ok (thread_at st (Some pc') rn1) st pc'" using e by (cases pc') auto
  qed
qed

lemma quiet_simps [simp]:
  "quiet rn rn" "quiet rn (rn\<lparr>rn_sessions := a\<rparr>)" "quiet rn (rn\<lparr>rn_failure := b\<rparr>)"
  "quiet rn (rn\<lparr>rn_subs := c\<rparr>)" "quiet rn (rn\<lparr>rn_wake := d\<rparr>)" "quiet rn (loop_at pc rn)"
  "quiet rn (run_stop rn)" "quiet rn (run_cancel er rn)" "quiet rn (run_signal rn)"
  "quiet rn (slot_release tok rn)" "quiet rn (slot_take tok rn)" "quiet rn (run_sub_at i q rn)"
  "quiet rn (run_subscribe past rn)" "quiet rn (run_live ev now rn)" "quiet rn (loop_wake rn)"
  "quiet rn (loop_exit rn)" "quiet rn (loop_finish rn)"
  by (simp_all add: quiet_def loop_at_def run_stop_def run_cancel_def run_signal_def slot_release_def
      slot_take_def run_sub_at_def run_subscribe_def run_live_def loop_wake_def loop_exit_def
      loop_finish_def steps_ended_def Let_def split: option.split)

lemma quiet_if [simp]: "quiet rn a \<Longrightarrow> quiet rn b \<Longrightarrow> quiet rn (if c then a else b)"
  by simp

text \<open>A thread that logs moves on, with the status its event leaves its step in.\<close>

lemma n_threads_log_move:
  assumes n: "n_threads rn" and t: "rn_threads rn sid = Some (st, pc)" and a: "active pc"
    and l: "run_log e now answer rn = (rn1, er)" and e: "for_step sid e"
    and a': "active pc' \<Longrightarrow> er \<noteq> None \<or> we_kind e \<noteq> KindStepEnded" and ok: "end_ok rn1 st pc'"
  shows "n_threads (thread_at st (Some pc') rn1)"
proof -
  have st: "st_id st = sid" "status_of rn sid = StatusPending \<or> status_of rn sid = StatusRunning"
    using n t a by (auto simp: n_threads_def thread_ok_def)
  have d: "status_of rn sid \<noteq> StatusDone" using st by auto
  note f = run_log_frame[OF l e d]
  show ?thesis
  proof (rule n_threads_move[OF n t])
    show "frame sid rn (thread_at st (Some pc') rn1)" using f(1) by simp
    show "rn_threads (thread_at st (Some pc') rn1) = (rn_threads rn)(sid \<mapsto> (st, pc'))"
      using f(2) st by simp
    show "status_of (thread_at st (Some pc') rn1) sid = StatusPending
        \<or> status_of (thread_at st (Some pc') rn1) sid = StatusRunning" if "active pc'"
      using a'[OF that] st f(3) e by (auto simp: status_after_def for_step_def)
    show "end_ok (thread_at st (Some pc') rn1) st pc'" using ok by (cases pc') auto
  qed
qed

text \<open>What ready promises of the steps it returns.\<close>

definition startable :: "wrun \<Rightarrow> string set \<Rightarrow> wstep \<Rightarrow> bool" where
  "startable rn busy st \<longleftrightarrow>
     (status_of rn (st_id st) = StatusPending \<or> status_of rn (st_id st) = StatusRunning)
     \<and> st_id st \<notin> rn_inflight rn \<and> st_session st \<notin> busy
     \<and> (\<forall>dep \<in> set (st_after st). status_of rn dep = StatusDone)"

lemma ready_from_Cons:
  "ready_from rn busy (st # sts) =
     (if startable rn busy st then st # ready_from rn (insert (st_session st) busy) sts
      else ready_from rn busy sts)"
  by (simp add: Let_def startable_def list_ex_iff)

lemma startable_mono: "startable rn (insert ss busy) st \<Longrightarrow> startable rn busy st \<and> st_session st \<noteq> ss"
  by (simp add: startable_def)

lemma ready_from_sub:
  "st \<in> set (ready_from rn busy sts) \<Longrightarrow> st \<in> set sts \<and> startable rn busy st"
  by (induction sts arbitrary: busy)
    (auto simp: ready_from_Cons simp del: ready_from.simps(2) split: if_splits dest: startable_mono)

lemma ready_from_sessions: "distinct (map st_session (ready_from rn busy sts))"
proof (induction sts arbitrary: busy)
  case (Cons st sts)
  have "st_session st \<notin> st_session ` set (ready_from rn (insert (st_session st) busy) sts)"
    using ready_from_sub startable_mono by (metis imageE)
  then show ?case using Cons by (simp add: ready_from_Cons del: ready_from.simps(2))
qed simp

lemma ready_from_ids: "distinct (map st_id sts) \<Longrightarrow> distinct (map st_id (ready_from rn busy sts))"
proof (induction sts arbitrary: busy)
  case (Cons st sts)
  have "st_id st \<notin> st_id ` set (ready_from rn busy' sts)" for busy'
    using ready_from_sub Cons.prems by fastforce
  then show ?case using Cons by (simp add: ready_from_Cons del: ready_from.simps(2))
qed simp

lemma ready_from_nonempty: "st \<in> set sts \<Longrightarrow> startable rn busy st \<Longrightarrow> ready_from rn busy sts \<noteq> []"
  by (induction sts) (auto simp: ready_from_Cons simp del: ready_from.simps(2))

lemma slot_take_fields [simp]:
  "rn_state (slot_take tok rn) = rn_state rn" "rn_threads (slot_take tok rn) = rn_threads rn"
  "rn_inflight (slot_take tok rn) = rn_inflight rn" "rn_busy (slot_take tok rn) = rn_busy rn"
  "rn_loop (slot_take tok rn) = rn_loop rn" "rn_cause (slot_take tok rn) = rn_cause rn"
  "rn_failure (slot_take tok rn) = rn_failure rn" "rn_stopped (slot_take tok rn) = rn_stopped rn"
  "rn_log (slot_take tok rn) = rn_log rn" "rn_wake (slot_take tok rn) = rn_wake rn"
  "rn_id (slot_take tok rn) = rn_id rn" "rn_limit (slot_take tok rn) = rn_limit rn"
  "rn_sessions (slot_take tok rn) = rn_sessions rn" "rn_err (slot_take tok rn) = rn_err rn"
  "rn_subs (slot_take tok rn) = rn_subs rn" "rn_finished (slot_take tok rn) = rn_finished rn"
  by (simp_all add: slot_take_def split: option.split)

lemma launch_fields [simp]:
  "rn_state (launch sts rn) = rn_state rn" "rn_failure (launch sts rn) = rn_failure rn"
  "rn_cause (launch sts rn) = rn_cause rn" "rn_stopped (launch sts rn) = rn_stopped rn"
  "rn_loop (launch sts rn) = rn_loop rn" "rn_log (launch sts rn) = rn_log rn"
  "rn_wake (launch sts rn) = rn_wake rn" "rn_id (launch sts rn) = rn_id rn"
  "rn_limit (launch sts rn) = rn_limit rn" "rn_subs (launch sts rn) = rn_subs rn"
  "rn_finished (launch sts rn) = rn_finished rn" "rn_err (launch sts rn) = rn_err rn"
  "rn_sessions (launch sts rn) = rn_sessions rn"
  by (induction sts rn rule: launch.induct) auto

lemma n_threads_busy: "n_threads rn \<Longrightarrow> rn_threads rn sid = Some (st, pc) \<Longrightarrow> st_session st \<in> rn_busy rn"
  unfolding n_threads_def by blast

lemma sessions_insert:
  assumes "m k0 = None"
  shows "{y. \<exists>k a b. (m(k0 \<mapsto> (x, c))) k = Some (a, b) \<and> f a = y}
    = insert (f x) {y. \<exists>k a b. m k = Some (a, b) \<and> f a = y}" (is "?l = ?r")
proof
  show "?l \<subseteq> ?r" by (auto split: if_splits)
  show "?r \<subseteq> ?l"
  proof
    fix y assume "y \<in> ?r"
    then consider "y = f x" | k a b where "m k = Some (a, b)" "f a = y" by auto
    then show "y \<in> ?l"
    proof cases
      case 2
      then have "(m(k0 \<mapsto> (x, c))) k = Some (a, b)" using assms by auto
      then show ?thesis using 2 by blast
    qed auto
  qed
qed

lemma launch_one_n_threads:
  fixes tok
  assumes n: "n_threads rn" and st: "st \<in> set (wf_steps (ws_workflow (rn_state rn)))"
    and ok: "startable rn (rn_busy rn) st"
  defines "rn' \<equiv> thread_at st (Some StepSession)
      ((slot_take tok rn)\<lparr>rn_inflight := insert (st_id st) (rn_inflight rn),
         rn_busy := insert (st_session st) (rn_busy rn)\<rparr>)"
  shows "n_threads rn'"
proof -
  have f: "rn_state rn' = rn_state rn" "rn_threads rn' = (rn_threads rn)(st_id st \<mapsto> (st, StepSession))"
    "rn_inflight rn' = insert (st_id st) (rn_inflight rn)"
    "rn_busy rn' = insert (st_session st) (rn_busy rn)" "steps_ended rn' = steps_ended rn"
    by (auto simp: rn'_def slot_take_def steps_ended_def split: option.split)
  have t: "thread_ok rn' st2 pc = thread_ok rn st2 pc" for st2 pc
    by (cases pc) (simp_all add: thread_ok_def f)
  have "rn_threads rn (st_id st) = None"
    using n ok by (auto simp: n_threads_def startable_def)
  moreover have "st_session st2 \<noteq> st_session st \<and> st_session st \<noteq> st_session st2"
    if "rn_threads rn sid2 = Some (st2, pc2)" for sid2 st2 pc2
    using n_threads_busy[OF n that] ok by (auto simp: startable_def)
  moreover have "thread_ok rn st StepSession" using ok by (simp add: thread_ok_def startable_def)
  moreover have "{ss. \<exists>sid st2 pc. ((rn_threads rn)(st_id st \<mapsto> (st, StepSession))) sid = Some (st2, pc)
        \<and> st_session st2 = ss} = insert (st_session st) (rn_busy rn)"
  proof -
    have "rn_busy rn = {ss. \<exists>sid st pc. rn_threads rn sid = Some (st, pc) \<and> st_session st = ss}"
      using n by (simp add: n_threads_def)
    then show ?thesis
      using sessions_insert[where m = "rn_threads rn" and f = st_session and x = st and c = StepSession,
          OF \<open>rn_threads rn (st_id st) = None\<close>] by simp
  qed
  ultimately show ?thesis using n st unfolding n_threads_def f t
    by (auto split: if_splits)
qed

lemma launch_n_threads:
  assumes "n_threads rn" "\<forall>st \<in> set sts. st \<in> set (wf_steps (ws_workflow (rn_state rn)))
      \<and> startable rn (rn_busy rn) st"
    and "distinct (map st_session sts)" "distinct (map st_id sts)"
  shows "n_threads (launch sts rn)"
  using assms
proof (induction sts rn rule: launch.induct)
  case (2 st sts rn)
  let ?rn = "thread_at st (Some StepSession)
          ((slot_take (rn_id rn, st_id st) rn)
             \<lparr>rn_inflight := insert (st_id st) (rn_inflight rn),
              rn_busy := insert (st_session st) (rn_busy rn)\<rparr>)"
  show ?case
  proof (cases "slot_free rn")
    case True
    have "n_threads ?rn" using launch_one_n_threads[of rn st "(rn_id rn, st_id st)"] "2.prems" by simp
    moreover have st: "rn_state ?rn = rn_state rn" by (simp add: slot_take_def split: option.split)
    moreover have "startable ?rn (rn_busy ?rn) s" if "s \<in> set sts" for s
    proof -
      have "startable rn (rn_busy rn) s" "st_session s \<noteq> st_session st" "st_id s \<noteq> st_id st"
        using that "2.prems" by (auto simp: image_iff)
      then show ?thesis by (simp add: startable_def)
    qed
    ultimately show ?thesis using "2.IH" True "2.prems" by simp
  qed (use 2 in simp)
qed simp

lemma launch_ready_n_threads:
  assumes "n_threads rn" "distinct (step_ids (ws_workflow (rn_state rn)))"
  shows "n_threads (launch (ready rn) rn)"
proof (rule launch_n_threads[OF assms(1)])
  show "\<forall>st \<in> set (ready rn). st \<in> set (wf_steps (ws_workflow (rn_state rn))) \<and> startable rn (rn_busy rn) st"
    using ready_from_sub by (auto simp: ready_def)
  show "distinct (map st_session (ready rn))" by (simp add: ready_def ready_from_sessions)
  show "distinct (map st_id (ready rn))" using assms(2) by (simp add: ready_def step_ids_def ready_from_ids)
qed

lemma n_threads_loop_log:
  assumes "n_threads rn" "we_kind e \<notin> {KindRunStarted, KindStepStarted, KindStepEnded}"
  shows "n_threads (loop_log e pc now answer rn)"
proof -
  obtain rn1 er where l: "run_log e now answer rn = (rn1, er)" by fastforce
  have "n_threads rn1"
    by (rule n_threads_env[OF assms(1)]) (use run_log_quiet[OF l assms(2)] in auto)
  then show ?thesis using n_threads_quiet quiet_simps(6) by (simp add: loop_log_def l)
qed

lemma thread_sid: "n_threads rn \<Longrightarrow> rn_threads rn sid = Some (st, pc) \<Longrightarrow> st_id st = sid \<and> end_ok rn st pc"
  by (auto simp: n_threads_def thread_ok_def)

lemma n_threads_step:
  assumes "run_step parse execute rn rn'" "n_threads rn"
    and d: "distinct (step_ids (ws_workflow (rn_state rn)))"
  shows "n_threads rn'"
  using assms(1)
proof (cases rule: run_step.cases)
  case (loop_step_top now)
  have "n_threads (loop_at pc (launch (ready rn) rn))" for pc
    using launch_ready_n_threads[OF assms(2) d] n_threads_quiet quiet_simps(6) by blast
  then show ?thesis using loop_step_top n_threads_quiet[OF assms(2)] by (auto simp: loop_top_def)
next
  case (loop_step_done now answer)
  then show ?thesis using n_threads_loop_log[OF assms(2)] by simp
next
  case (loop_step_resumed now answer)
  then show ?thesis using n_threads_loop_log[OF assms(2)] by simp
next
  case (loop_step_failed e now answer)
  then show ?thesis using n_threads_loop_log[OF assms(2)] by simp
next
  case (loop_step_cancelled now answer)
  then show ?thesis using n_threads_loop_log[OF assms(2)] by simp
next
  case (thread_opened sid st h now answer)
  obtain rn1 er where l: "run_log ((wevent_of KindSessionOpened)\<lparr>we_session := st_session st, we_session_id := h\<rparr>)
      now answer rn = (rn1, er)" by fastforce
  then show ?thesis using thread_opened n_threads_log_move[OF assms(2) thread_opened(2) _ l]
    by (auto simp: step_opened_def for_step_def split: option.split)
next
  case (thread_adopted sid st xid r now answer)
  obtain rn1 er where l: "run_log ((step_event KindStepEnded st xid)
      \<lparr>we_status := StatusDone, we_result := Some r, we_adopted := True\<rparr>) now answer rn = (rn1, er)" by fastforce
  then show ?thesis using thread_adopted thread_sid[OF assms(2) thread_adopted(2)]
    by (auto simp: step_adopted_def for_step_def split: option.split
        intro!: n_threads_log_move[OF assms(2) thread_adopted(2) _ l])
next
  case (thread_started sid st xid p now answer)
  obtain rn1 er where l: "run_log ((step_event KindStepStarted st xid)\<lparr>we_prompt := p\<rparr>) now answer rn = (rn1, er)"
    by fastforce
  then show ?thesis using thread_started n_threads_log_move[OF assms(2) thread_started(2) _ l]
      thread_sid[OF assms(2) thread_started(2)]
    by (auto simp: step_started_def for_step_def)
next
  case (thread_log_pause sid st until e now answer)
  obtain rn1 er where l: "run_log ((wevent_of KindRunPaused)
      \<lparr>we_step := st_id st, we_until := until, we_err := err_text e\<rparr>) now answer rn = (rn1, er)" by fastforce
  then show ?thesis using thread_log_pause n_threads_log_move[OF assms(2) thread_log_pause(2) _ l]
    by (auto simp: step_log_pause_def for_step_def)
next
  case (thread_log_end sid st ev er now answer)
  obtain rn1 lerr where l: "run_log ev now answer rn = (rn1, lerr)" by fastforce
  then show ?thesis using thread_log_end thread_sid[OF assms(2) thread_log_end(2)]
    by (auto simp: step_log_end_def for_step_def split: option.split
        intro!: n_threads_log_move[OF assms(2) thread_log_end(2) _ l])
next
  case (thread_end sid st xid res er now)
  then show ?thesis using thread_sid[OF assms(2) thread_end(2)]
    by (auto simp: step_end_def Let_def intro!: n_threads_quiet_move[OF assms(2) thread_end(2)]
        split: option.split)
next
  case (thread_live sid st xid ev now)
  then show ?thesis using n_threads_quiet[OF assms(2)] by (simp add: step_live_def)
next
  case (thread_leave sid st)
  then show ?thesis using n_threads_leave[OF assms(2)] by blast
qed (auto simp: step_session_def step_open_def step_plan_def step_adopt_def step_prompt_def step_send_def
    step_waited_def step_pause_def step_fail_def step_stop_def step_slot_def step_release_def other_takes_def other_frees_def
    intro: n_threads_quiet[OF assms(2)] intro!: n_threads_quiet_move[OF assms(2)] split: option.split sum.split)

end
