(* ===== verification/Runner_Ops.thy ===== *)
theory Runner_Ops
  imports Runner
begin

text \<open>
  The Runner itself (workflow/runner.go): the registry of the runs it is running, the logs its
  Store holds of the others, and the operations callers make of it. The log of a run that is
  running is its \<open>rn_log\<close>. An operation takes what the Store answers as arguments: \<open>reads\<close>, the
  error of a read if it fails, and \<open>answer\<close>, that of an append.
\<close>

section \<open>State\<close>

record runner =
  rr_runs :: "string \<Rightarrow> wrun option"
  rr_closed :: bool
  rr_logs :: "string \<Rightarrow> wevent list"
  rr_limit :: "nat option"
  rr_slots :: "(string \<times> string) list"

definition new_runner :: "(string \<Rightarrow> wevent list) \<Rightarrow> int \<Rightarrow> runner" where
  "new_runner logs limit =
     \<lparr>rr_runs = (\<lambda>_. None), rr_closed = False, rr_logs = logs,
      rr_limit = (if limit > 0 then Some (nat limit) else None), rr_slots = []\<rparr>"

definition store_log :: "runner \<Rightarrow> string \<Rightarrow> wevent list" where
  "store_log r rid = (case rr_runs r rid of Some rn \<Rightarrow> rn_log rn | None \<Rightarrow> rr_logs r rid)"

definition for_run :: "err \<Rightarrow> string \<Rightarrow> err" where
  "for_run e rid = Errorf (err_text e @ '': '' @ rid) [e]"

section \<open>Starting and resuming\<close>

definition runner_fold :: "string \<Rightarrow> err option \<Rightarrow> runner \<Rightarrow> wstate \<times> err option" where
  "runner_fold rid reads r =
     (case reads of
        Some e \<Rightarrow> (zero_state, Some e)
      | None \<Rightarrow> if store_log r rid = [] then (zero_state, Some (for_run ErrUnknownRun rid))
                else fold_events (store_log r rid))"

definition register :: "string \<Rightarrow> wstate \<Rightarrow> runner \<Rightarrow> err + runner" where
  "register rid s r =
     (if rr_closed r then Inl ErrShutdown
      else if rr_runs r rid \<noteq> None then Inl (for_run ErrRunActive rid)
      else Inr (r\<lparr>rr_runs := (rr_runs r)(rid \<mapsto> new_run rid s (store_log r rid) (rr_limit r) (rr_slots r))\<rparr>))"

definition runner_put :: "string \<Rightarrow> wrun \<Rightarrow> runner \<Rightarrow> runner" where
  "runner_put rid rn r = r\<lparr>rr_runs := (rr_runs r)(rid \<mapsto> rn)\<rparr>"

text \<open>Forgetting a run, as drop and finish do: its log stays in the Store.\<close>

definition forget :: "string \<Rightarrow> runner \<Rightarrow> runner" where
  "forget rid r = r\<lparr>rr_logs := (rr_logs r)(rid := store_log r rid), rr_runs := (rr_runs r)(rid := None)\<rparr>"

text \<open>drop leaves the run itself finished, its subscribers closed.\<close>

definition drop_run :: "wrun \<Rightarrow> wrun" where
  "drop_run rn =
     (run_cancel ErrContextCanceled rn)\<lparr>rn_finished := True, rn_subs := close_subs (rn_subs rn)\<rparr>"

text \<open>The event a run's life under this Runner begins with; the run is dropped when it cannot be logged.\<close>

definition log_or_drop :: "wevent \<Rightarrow> time \<Rightarrow> err option \<Rightarrow> string \<Rightarrow> runner \<Rightarrow> runner \<times> err option" where
  "log_or_drop e now answer rid r =
     (case rr_runs r rid of
        None \<Rightarrow> (r, None)
      | Some rn \<Rightarrow>
          (case run_log e now answer rn of
             (rn', None) \<Rightarrow> (runner_put rid rn' r, None)
           | (rn', Some er) \<Rightarrow> (forget rid r, Some er)))"

definition runner_start ::
  "'t template_parse \<Rightarrow> workflow \<Rightarrow> string \<Rightarrow> time \<Rightarrow> err option \<Rightarrow> runner \<Rightarrow> runner \<times> (err + string)" where
  "runner_start parse w rid now answer r =
     (case wf_validate parse w of
        Some e \<Rightarrow> (r, Inl e)
      | None \<Rightarrow>
          (case register rid zero_state r of
             Inl e \<Rightarrow> (r, Inl e)
           | Inr r \<Rightarrow>
               (case log_or_drop ((wevent_of KindRunStarted)\<lparr>we_workflow := Some w\<rparr>) now answer rid r of
                  (r, Some e) \<Rightarrow> (r, Inl e)
                | (r, None) \<Rightarrow> (r, Inr rid))))"

definition settle_in :: "string \<Rightarrow> runner \<Rightarrow> runner" where
  "settle_in rid r =
     (case rr_runs r rid of None \<Rightarrow> r | Some rn \<Rightarrow> runner_put rid (settle rn) r)"

definition runner_resume ::
  "string \<Rightarrow> time \<Rightarrow> err option \<Rightarrow> err option \<Rightarrow> runner \<Rightarrow> runner \<times> err option" where
  "runner_resume rid now reads answer r =
     (if rr_runs r rid \<noteq> None then (r, Some (for_run ErrRunActive rid))
      else case runner_fold rid reads r of
        (_, Some e) \<Rightarrow> (r, Some e)
      | (s, None) \<Rightarrow>
          if status_ended (ws_status s) then (r, Some (for_run ErrRunEnded rid))
          else (case register rid s r of
                  Inl e \<Rightarrow> (r, Some e)
                | Inr r \<Rightarrow>
                    (let r = settle_in rid r in
                     if ws_status s \<noteq> StatusPaused
                     then log_or_drop (wevent_of KindRunResumed) now answer rid r
                     else (r, None))))"

text \<open>ResumeAll, with what the Store answers for each run.\<close>

fun resume_each ::
  "(string \<times> time \<times> err option \<times> err option) list \<Rightarrow> runner \<Rightarrow> runner \<times> string list \<times> err list" where
  "resume_each [] r = (r, [], [])"
| "resume_each ((rid, now, reads, answer) # ids) r =
     (case runner_resume rid now reads answer r of
        (r, er) \<Rightarrow>
          (case resume_each ids r of
             (r, resumed, errs) \<Rightarrow>
               (r, (if er = None then [rid] else []) @ resumed,
                (case er of
                   None \<Rightarrow> []
                 | Some e \<Rightarrow> if err_is e ErrRunEnded \<or> err_is e ErrRunActive then [] else [e]) @ errs)))"

definition resume_all ::
  "(err + (string \<times> time \<times> err option \<times> err option) list) \<Rightarrow> runner \<Rightarrow> runner \<times> string list \<times> err option" where
  "resume_all ids r =
     (case ids of
        Inl e \<Rightarrow> (r, [], Some e)
      | Inr ids \<Rightarrow>
          (case resume_each ids r of
             (r, resumed, errs) \<Rightarrow> (r, resumed, errors_join (map Some errs))))"

section \<open>Cancelling and shutting down\<close>

definition runner_cancel ::
  "string \<Rightarrow> time \<Rightarrow> err option \<Rightarrow> err option \<Rightarrow> runner \<Rightarrow> runner \<times> err option" where
  "runner_cancel rid now reads answer r =
     (case rr_runs r rid of
        Some rn \<Rightarrow>
          (let rn = run_cancel ErrCancelled rn in
           (runner_put rid rn r,
            if interrupted rn then rn_cause rn else None))
      | None \<Rightarrow>
          (case runner_fold rid reads r of
             (_, Some e) \<Rightarrow> (r, Some e)
           | (s, None) \<Rightarrow>
               if status_ended (ws_status s) then (r, Some (for_run ErrRunEnded rid))
               else (case answer of
                       Some e \<Rightarrow> (r, Some e)
                     | None \<Rightarrow>
                         (r\<lparr>rr_logs := (rr_logs r)(rid := rr_logs r rid
                              @ [(ended_event StatusCancelled [])
                                   \<lparr>we_run_id := rid, we_seq := ws_seq s + 1, we_time := now\<rparr>])\<rparr>, None))))"

definition runner_shutdown :: "runner \<Rightarrow> runner" where
  "runner_shutdown r =
     r\<lparr>rr_closed := True, rr_runs := (\<lambda>rid. map_option (run_cancel ErrShutdown) (rr_runs r rid))\<rparr>"

section \<open>Reading\<close>

definition runner_state :: "string \<Rightarrow> err option \<Rightarrow> runner \<Rightarrow> wstate \<times> err option" where
  "runner_state rid reads r =
     (case rr_runs r rid of Some rn \<Rightarrow> (rn_state rn, None) | None \<Rightarrow> runner_fold rid reads r)"

text \<open>Wait: None while it still blocks.\<close>

definition runner_wait :: "string \<Rightarrow> err option \<Rightarrow> err option \<Rightarrow> runner \<Rightarrow> (wstate \<times> err option) option" where
  "runner_wait rid done_ctx reads r =
     (case rr_runs r rid of
        Some rn \<Rightarrow>
          if rn_loop rn = LoopGone then Some (rn_state rn, rn_err rn)
          else (case done_ctx of Some e \<Rightarrow> Some (zero_state, Some e) | None \<Rightarrow> None)
      | None \<Rightarrow> Some (runner_fold rid reads r))"

fun states_each :: "(string \<times> err option) list \<Rightarrow> runner \<Rightarrow> wstate list \<times> err list" where
  "states_each [] r = ([], [])"
| "states_each ((rid, reads) # ids) r =
     (case runner_state rid reads r of
        (s, None) \<Rightarrow> (s # fst (states_each ids r), snd (states_each ids r))
      | (_, Some e) \<Rightarrow> (fst (states_each ids r), wrap (''run '' @ rid) e # snd (states_each ids r)))"

definition runner_runs :: "(err + (string \<times> err option) list) \<Rightarrow> runner \<Rightarrow> wstate list \<times> err option" where
  "runner_runs ids r =
     (case ids of
        Inl e \<Rightarrow> ([], Some e)
      | Inr ids \<Rightarrow>
          (case states_each (sort_key fst ids) r of
             (ss, errs) \<Rightarrow> (ss, errors_join (map Some errs))))"

text \<open>
  Subscribe, where it does not attach to a run: the channel's queue holds the log past \<open>past\<close> and
  is closed. A second read may answer otherwise than the first.
\<close>

definition runner_replay :: "string \<Rightarrow> nat \<Rightarrow> err option \<Rightarrow> err option \<Rightarrow> runner \<Rightarrow> err + wevent equeue" where
  "runner_replay rid past reads reads' r =
     (case reads of
        Some e \<Rightarrow> Inl e
      | None \<Rightarrow>
          (let events = filter (\<lambda>e. we_seq e > past) (store_log r rid) in
           if events = [] \<and> snd (runner_fold rid reads' r) \<noteq> None
           then (case snd (runner_fold rid reads' r) of Some e \<Rightarrow> Inl e | None \<Rightarrow> Inr new_queue)
           else Inr (wq_close (wq_push events new_queue))))"

definition runner_subscribe ::
  "string \<Rightarrow> nat \<Rightarrow> err option \<Rightarrow> err option \<Rightarrow> runner \<Rightarrow> runner \<times> (err + wevent equeue)" where
  "runner_subscribe rid past reads reads' r =
     (case rr_runs r rid of
        None \<Rightarrow> (r, runner_replay rid past reads reads' r)
      | Some rn \<Rightarrow>
          if rn_finished rn then (r, runner_replay rid past reads reads' r)
          else (case reads of
                  Some e \<Rightarrow> (r, Inl e)
                | None \<Rightarrow>
                    (let rn = run_subscribe past rn in
                     (runner_put rid rn r, Inr (snd (last (rn_subs rn)))))))"

section \<open>The states a run reaches\<close>

text \<open>The slots taken are within the limit, each by a run that is running.\<close>

definition slots_ok :: "runner \<Rightarrow> bool" where
  "slots_ok r \<longleftrightarrow>
     (case rr_limit r of None \<Rightarrow> rr_slots r = [] | Some n \<Rightarrow> length (rr_slots r) \<le> n)
     \<and> (\<forall>tok \<in> set (rr_slots r). rr_runs r (fst tok) \<noteq> None)"

inductive run_reach ::
  "'t template_parse \<Rightarrow> 't template_execute \<Rightarrow> wrun \<Rightarrow> bool" for parse execute where
  reach_started:
    "slots_ok r \<Longrightarrow> rr_logs r rid = [] \<Longrightarrow> runner_start parse w rid now answer r = (r', Inr i) \<Longrightarrow>
       rr_runs r' rid = Some rn \<Longrightarrow> run_reach parse execute rn"
| reach_resumed:
    "slots_ok r \<Longrightarrow> runner_resume rid now reads answer r = (r', None) \<Longrightarrow>
       rr_runs r' rid = Some rn \<Longrightarrow> wf_valid parse (ws_workflow (rn_state rn)) \<Longrightarrow>
       list_all (\<lambda>e. we_run_id e = rid) (rr_logs r rid) \<Longrightarrow> run_reach parse execute rn"
| reach_step:
    "run_reach parse execute rn \<Longrightarrow> run_step parse execute rn rn' \<Longrightarrow> run_reach parse execute rn'"

end
