(* ===== verification/Runner_Safety.thy ===== *)
theory Runner_Safety
  imports Runner_Ops
begin

text \<open>
  What every state a run reaches satisfies. The steps of \<open>run_step\<close> are first grouped by what they
  change (\<open>run_step_coarse\<close>); each invariant is then proved over these groups: the log folds to the
  state (\<open>log_inv\<close>), failures and cancellations have their causes (\<open>fail_inv\<close>), the loop's positions
  mean what they say (\<open>loop_inv\<close>), it never misses a wake (\<open>wait_inv\<close>), the slots are accounted for
  (\<open>slot_inv\<close>) and the subscribers miss no event (\<open>subs_inv\<close>).
\<close>

section \<open>The fields a step leaves alone\<close>

lemma run_log_fields [simp]:
  "rn_id (fst (run_log e now answer rn)) = rn_id rn"
  "rn_sessions (fst (run_log e now answer rn)) = rn_sessions rn"
  "rn_busy (fst (run_log e now answer rn)) = rn_busy rn"
  "rn_inflight (fst (run_log e now answer rn)) = rn_inflight rn"
  "rn_failure (fst (run_log e now answer rn)) = rn_failure rn"
  "rn_err (fst (run_log e now answer rn)) = rn_err rn"
  "rn_finished (fst (run_log e now answer rn)) = rn_finished rn"
  "rn_stopped (fst (run_log e now answer rn)) = rn_stopped rn"
  "rn_wake (fst (run_log e now answer rn)) = rn_wake rn"
  "rn_loop (fst (run_log e now answer rn)) = rn_loop rn"
  "rn_threads (fst (run_log e now answer rn)) = rn_threads rn"
  "rn_limit (fst (run_log e now answer rn)) = rn_limit rn"
  "rn_slots (fst (run_log e now answer rn)) = rn_slots rn"
  by (simp_all add: run_log_def run_cancel_def Let_def split: sum.split option.split)

lemma step_opened_alt:
  "step_opened st sid now answer rn =
     (let l = run_log ((wevent_of KindSessionOpened)\<lparr>we_session := st_session st, we_session_id := sid\<rparr>)
        now answer rn
      in thread_at st (Some (case snd l of None \<Rightarrow> StepPlan | Some e \<Rightarrow> StepEnd uuid_nil None (Some e))) (fst l))"
  by (simp add: step_opened_def Let_def split: prod.split option.split)

lemma step_adopted_alt:
  "step_adopted st xid r now answer rn =
     (let l = run_log ((step_event KindStepEnded st xid)
         \<lparr>we_status := StatusDone, we_result := Some r, we_adopted := True\<rparr>) now answer rn
      in thread_at st (Some (case snd l of None \<Rightarrow> StepSlot | Some e \<Rightarrow> StepEnd xid None (Some e))) (fst l))"
  by (simp add: step_adopted_def Let_def split: prod.split option.split)

lemma step_log_end_alt:
  "step_log_end st e er now answer rn =
     (let l = run_log e now answer rn
      in thread_at st (Some
            (if snd l \<noteq> None \<or> we_status e \<noteq> StatusFailed then StepSlot
             else case er of None \<Rightarrow> StepSlot | Some er' \<Rightarrow> StepFail er')) (fst l))"
  by (simp add: step_log_end_def Let_def split: prod.split option.split)

lemmas step_defs =
  loop_wake_def loop_at_def loop_log_def loop_exit_def loop_finish_def step_session_def step_open_def
  step_opened_alt step_plan_def step_adopt_def step_adopted_alt step_prompt_def step_send_def
  step_started_def step_live_def step_waited_def step_end_def step_pause_def step_log_pause_def
  step_log_end_alt step_fail_def step_stop_def step_slot_def step_release_def step_leave_def
  run_cancel_def run_stop_def run_signal_def run_live_def run_subscribe_def run_sub_at_def
  other_takes_def other_frees_def slot_take_def slot_release_def Let_def

text \<open>What an append does to the state and the log, and to the cause.\<close>

lemma run_log_append:
  assumes "fold_events (rn_log rn) = (rn_state rn, None)"
  shows "fold_events (rn_log (fst (run_log e now answer rn))) = (rn_state (fst (run_log e now answer rn)), None)"
    "\<exists>es. rn_log (fst (run_log e now answer rn)) = rn_log rn @ es"
proof -
  obtain rn' er where l: "run_log e now answer rn = (rn', er)" by fastforce
  then have "fold_events (rn_log rn') = (rn_state rn', None) \<and> (\<exists>es. rn_log rn' = rn_log rn @ es)"
    by (cases rule: run_logE) (use assms in \<open>auto simp: fold_events_snoc_None\<close>)
  then show "fold_events (rn_log (fst (run_log e now answer rn)))
      = (rn_state (fst (run_log e now answer rn)), None)"
    "\<exists>es. rn_log (fst (run_log e now answer rn)) = rn_log rn @ es" by (auto simp: l)
qed


section \<open>The steps, by what they change\<close>

text \<open>A position of a goroutine that comes before its releases, and is none of a failure's.\<close>

fun plain :: "step_pc \<Rightarrow> bool" where
  "plain (StepFail e) = False"
| "plain StepStop = False"
| "plain StepRelease = False"
| "plain StepLeave = False"
| "plain _ = True"

text \<open>An append a goroutine makes, and where it goes on.\<close>

definition log_move :: "wrun \<Rightarrow> wstep \<Rightarrow> wevent \<Rightarrow> err option \<Rightarrow> step_pc \<Rightarrow> bool" where
  "log_move rn st e er pc' \<longleftrightarrow>
     for_step (st_id st) e \<and> we_kind e \<noteq> KindRunEnded
     \<and> (we_kind e = KindStepEnded \<and> er = None \<longrightarrow>
          we_status e \<noteq> StatusFailed \<and> (we_status e = StatusCancelled \<longrightarrow> steps_ended rn) \<and> plain pc'
          \<or> we_status e = StatusFailed \<and> (\<exists>x. pc' = StepFail x))
     \<and> (plain pc' \<or> (\<exists>x. pc' = StepFail x) \<and> we_kind e = KindStepEnded \<and> we_status e = StatusFailed \<and> er = None)
     \<and> (active pc' \<longrightarrow> er \<noteq> None \<or> we_kind e \<noteq> KindStepEnded)"

text \<open>An append the loop makes, from one position to another.\<close>

definition loop_event :: "wrun \<Rightarrow> wevent \<Rightarrow> loop_pc \<Rightarrow> bool" where
  "loop_event rn e pc \<longleftrightarrow>
     rn_loop rn = LoopLogDone \<and> e = ended_event StatusDone [] \<and> pc = LoopFinish
     \<or> rn_loop rn = LoopLogResumed \<and> e = wevent_of KindRunResumed \<and> pc = LoopTop
     \<or> (\<exists>x. rn_loop rn = LoopLogFailed x \<and> e = ended_event StatusFailed (err_text x)) \<and> pc = LoopFinish
     \<or> rn_loop rn = LoopLogCancelled \<and> e = ended_event StatusCancelled [] \<and> pc = LoopFinish"

text \<open>A move of a goroutine that logs nothing.\<close>

definition moves :: "wrun \<Rightarrow> wstep \<Rightarrow> wrun \<Rightarrow> bool" where
  "moves rn st rn' \<longleftrightarrow> (\<exists>pc' ss. plain pc' \<and> rn' = thread_at st (Some pc') (rn\<lparr>rn_sessions := ss\<rparr>))"

lemma moves_sessions: "plain pc' \<Longrightarrow> moves rn st (thread_at st (Some pc') (rn\<lparr>rn_sessions := ss\<rparr>))"
  by (auto simp: moves_def)

lemma moves_at: "plain pc' \<Longrightarrow> moves rn st (thread_at st (Some pc') rn)"
  using moves_sessions[of pc' rn st "rn_sessions rn"] by simp

lemma moves_steps:
  "moves rn st (step_session st rn)" "moves rn st (step_open st known opened rn)"
  "moves rn st (step_plan st rn)" "moves rn st (step_adopt st xid res records rn)"
  "moves rn st (step_prompt parse execute st res rn)" "moves rn st (step_send st p sent rn)"
  "moves rn st (step_waited st xid r er rn)" "moves rn st (step_end st xid res' er now rn)"
  "moves rn st (step_pause st until e rn)"
  by (auto simp: step_session_def step_open_def step_plan_def step_adopt_def step_prompt_def step_send_def
      step_waited_def step_end_def step_pause_def Let_def intro!: moves_at moves_sessions
      split: option.split sum.split)

text \<open>A move of a goroutine that logs.\<close>

definition logs :: "wrun \<Rightarrow> wstep \<Rightarrow> wrun \<Rightarrow> bool" where
  "logs rn st rn' \<longleftrightarrow>
     (\<exists>pc' e now answer. log_move rn st e (snd (run_log e now answer rn)) pc'
        \<and> rn' = thread_at st (Some pc') (fst (run_log e now answer rn)))"

lemma logs_at:
  "log_move rn st e (snd (run_log e now answer rn)) pc' \<Longrightarrow>
     logs rn st (thread_at st (Some pc') (fst (run_log e now answer rn)))"
  by (auto simp: logs_def)

lemma logs_steps:
  "logs rn st (step_opened st h now answer rn)" "logs rn st (step_adopted st xid r now answer rn)"
  "logs rn st (step_started st xid p now answer rn)" "logs rn st (step_log_pause st until e now answer rn)"
  "end_ok rn st (StepLogEnd ev er) \<Longrightarrow> logs rn st (step_log_end st ev er now answer rn)"
  unfolding step_opened_alt step_adopted_alt step_started_def step_log_pause_def step_log_end_alt Let_def
  by (auto simp: log_move_def for_step_def intro!: logs_at split: option.split)

lemma run_step_coarse:
  assumes "run_step parse execute rn rn'" "n_threads rn"
  obtains (top) now where "rn_loop rn = LoopTop" "rn' = loop_top now rn"
  | (wake) d t where "rn_loop rn = LoopWait d t" "rn_wake rn" "rn' = loop_wake rn"
  | (woken) d t where "rn_loop rn = LoopWait d t" "d \<and> rn_cause rn \<noteq> None \<or> t" "rn' = loop_at LoopTop rn"
  | (loop_log) e pc now answer where "loop_event rn e pc" "rn' = loop_at pc (fst (run_log e now answer rn))"
  | (exit) "rn_loop rn = LoopExit" "rn' = loop_exit rn"
  | (finish) "rn_loop rn = LoopFinish" "rn' = loop_finish rn"
  | (move) st pc pc' ss where "rn_threads rn (st_id st) = Some (st, pc)" "active pc" "plain pc'"
      "rn' = thread_at st (Some pc') (rn\<lparr>rn_sessions := ss\<rparr>)"
  | (log_move) st pc pc' e now answer where "rn_threads rn (st_id st) = Some (st, pc)" "active pc"
      "log_move rn st e (snd (run_log e now answer rn)) pc'"
      "rn' = thread_at st (Some pc') (fst (run_log e now answer rn))"
  | (live) st xid ev now where "rn_threads rn (st_id st) = Some (st, StepFollow xid)" "rn' = step_live st xid ev now rn"
  | (fail) st e where "rn_threads rn (st_id st) = Some (st, StepFail e)" "rn' = step_fail st e rn"
  | (stop) st where "rn_threads rn (st_id st) = Some (st, StepStop)" "rn' = step_stop st rn"
  | (slot) st where "rn_threads rn (st_id st) = Some (st, StepSlot)" "rn' = step_slot st rn"
  | (release) st where "rn_threads rn (st_id st) = Some (st, StepRelease)" "rn' = step_release st rn"
  | (leave) st where "rn_threads rn (st_id st) = Some (st, StepLeave)" "rn' = step_leave st rn"
  | (cancel) e where "e \<in> {ErrCancelled, ErrShutdown}" "rn' = run_cancel e rn"
  | (subscribe) past where "rn' = run_subscribe past rn"
  | (deliver) i q where "i < length (rn_subs rn)" "wq_step (snd (rn_subs rn ! i)) q" "rn' = run_sub_at i q rn"
  | (unsub) i where "i < length (rn_subs rn)" "rn' = run_sub_at i (q_cancel (snd (rn_subs rn ! i))) rn"
  | (takes) tok where "fst tok \<noteq> rn_id rn" "slot_free rn" "rn' = other_takes tok rn"
  | (frees) tok where "fst tok \<noteq> rn_id rn" "tok \<in> set (rn_slots rn)" "rn' = other_frees tok rn"
  using assms(1)
proof (cases rule: run_step.cases)
  case (loop_step_top now)
  then show thesis using top by blast
next
  case (loop_step_wake d t)
  then show thesis using wake by blast
next
  case (loop_step_ctx t)
  then show thesis using woken by blast
next
  case (loop_step_timer d)
  then show thesis using woken by blast
next
  case (loop_step_exit)
  then show thesis using exit by blast
next
  case (loop_step_finish)
  then show thesis using finish by blast
next
  case (loop_step_done now answer)
  then show thesis using loop_log by (simp add: loop_event_def loop_log_def)
next
  case (loop_step_resumed now answer)
  then show thesis using loop_log by (simp add: loop_event_def loop_log_def)
next
  case (loop_step_failed e now answer)
  then show thesis using loop_log by (simp add: loop_event_def loop_log_def)
next
  case (loop_step_cancelled now answer)
  then show thesis using loop_log by (simp add: loop_event_def loop_log_def)
next
  case (thread_session sid st)
  then have "rn_threads rn (st_id st) = Some (st, StepSession)" "moves rn st rn'"
    using thread_sid[OF assms(2) thread_session(2)] moves_steps by auto
  then show thesis using move unfolding moves_def by force
next
  case (thread_open sid st known opened)
  then have "rn_threads rn (st_id st) = Some (st, StepOpen known)" "moves rn st rn'"
    using thread_sid[OF assms(2) thread_open(2)] moves_steps by auto
  then show thesis using move unfolding moves_def by force
next
  case (thread_plan sid st)
  then have "rn_threads rn (st_id st) = Some (st, StepPlan)" "moves rn st rn'"
    using thread_sid[OF assms(2) thread_plan(2)] moves_steps by auto
  then show thesis using move unfolding moves_def by force
next
  case (thread_adopt sid st xid res records)
  then have "rn_threads rn (st_id st) = Some (st, StepAdopt xid res)" "moves rn st rn'"
    using thread_sid[OF assms(2) thread_adopt(2)] moves_steps by auto
  then show thesis using move unfolding moves_def by force
next
  case (thread_prompt sid st res)
  then have "rn_threads rn (st_id st) = Some (st, StepPrompt res)" "moves rn st rn'"
    using thread_sid[OF assms(2) thread_prompt(2)] moves_steps by auto
  then show thesis using move unfolding moves_def by force
next
  case (thread_send sid st p sent)
  then have "rn_threads rn (st_id st) = Some (st, StepSend p)" "moves rn st rn'"
    using thread_sid[OF assms(2) thread_send(2)] moves_steps by auto
  then show thesis using move unfolding moves_def by force
next
  case (thread_waited sid st xid r er)
  then have "rn_threads rn (st_id st) = Some (st, StepFollow xid)" "moves rn st rn'"
    using thread_sid[OF assms(2) thread_waited(2)] moves_steps by auto
  then show thesis using move unfolding moves_def by force
next
  case (thread_end sid st xid res er now)
  then have "rn_threads rn (st_id st) = Some (st, StepEnd xid res er)" "moves rn st rn'"
    using thread_sid[OF assms(2) thread_end(2)] moves_steps by auto
  then show thesis using move unfolding moves_def by force
next
  case (thread_pause sid st until e)
  then have "rn_threads rn (st_id st) = Some (st, StepPause until e)" "moves rn st rn'"
    using thread_sid[OF assms(2) thread_pause(2)] moves_steps by auto
  then show thesis using move unfolding moves_def by force
next
  case (thread_opened sid st h now answer)
  then have "rn_threads rn (st_id st) = Some (st, StepOpened h)" "logs rn st rn'"
    using thread_sid[OF assms(2) thread_opened(2)] logs_steps by auto
  then show thesis using log_move unfolding logs_def by force
next
  case (thread_adopted sid st xid r now answer)
  then have "rn_threads rn (st_id st) = Some (st, StepLogAdopted xid r)" "logs rn st rn'"
    using thread_sid[OF assms(2) thread_adopted(2)] logs_steps by auto
  then show thesis using log_move unfolding logs_def by force
next
  case (thread_started sid st xid p now answer)
  then have "rn_threads rn (st_id st) = Some (st, StepLogStarted xid p)" "logs rn st rn'"
    using thread_sid[OF assms(2) thread_started(2)] logs_steps by auto
  then show thesis using log_move unfolding logs_def by force
next
  case (thread_log_pause sid st until e now answer)
  then have "rn_threads rn (st_id st) = Some (st, StepLogPause until e)" "logs rn st rn'"
    using thread_sid[OF assms(2) thread_log_pause(2)] logs_steps by auto
  then show thesis using log_move unfolding logs_def by force
next
  case (thread_log_end sid st ev er now answer)
  then have "rn_threads rn (st_id st) = Some (st, StepLogEnd ev er)" "logs rn st rn'"
    using thread_sid[OF assms(2) thread_log_end(2)] logs_steps by auto
  then show thesis using log_move unfolding logs_def by force
next
  case (thread_live sid st xid ev now)
  then show thesis using live thread_sid[OF assms(2) thread_live(2)] by blast
next
  case (thread_fail sid st e)
  then show thesis using fail thread_sid[OF assms(2) thread_fail(2)] by blast
next
  case (thread_stop sid st)
  then show thesis using stop thread_sid[OF assms(2) thread_stop(2)] by blast
next
  case (thread_slot sid st)
  then show thesis using slot thread_sid[OF assms(2) thread_slot(2)] by blast
next
  case (thread_release sid st)
  then show thesis using release thread_sid[OF assms(2) thread_release(2)] by blast
next
  case (thread_leave sid st)
  then show thesis using leave thread_sid[OF assms(2) thread_leave(2)] by blast
next
  case (env_cancel)
  then show thesis using cancel by blast
next
  case (env_shutdown)
  then show thesis using cancel by blast
next
  case (env_subscribe past)
  then show thesis using subscribe by blast
next
  case (env_deliver i q)
  then show thesis using deliver by blast
next
  case (env_leave i)
  then show thesis using unsub by blast
next
  case (env_takes tok)
  then show thesis using takes by blast
next
  case (env_frees tok)
  then show thesis using frees by blast
qed

section \<open>The log and the state\<close>

definition log_inv :: "wrun \<Rightarrow> bool" where
  "log_inv rn \<longleftrightarrow>
     fold_events (rn_log rn) = (rn_state rn, None) \<and> rn_log rn \<noteq> [] \<and> ws_run_id (rn_state rn) = rn_id rn"

lemma log_inv_facts:
  assumes "log_inv rn"
  shows "ws_wf (rn_state rn)" "ws_seq (rn_state rn) = length (rn_log rn)" "log_shape (rn_log rn)"
    "status_ended (ws_status (rn_state rn)) \<longleftrightarrow> log_ended (rn_log rn)"
  using fold_events_ok[of "rn_log rn" "rn_state rn"] assms by (auto simp: log_inv_def fold_ok_def)

lemma log_inv_log: "log_inv rn \<Longrightarrow> log_inv (fst (run_log e now answer rn))"
proof -
  assume n: "log_inv rn"
  obtain rn' er where l: "run_log e now answer rn = (rn', er)" by fastforce
  then show ?thesis
  proof (cases rule: run_logE)
    case (appended e' s)
    then have "ws_run_id s = rn_id rn"
      using n apply_wf[OF appended(3)] log_inv_facts(1)[OF n] by (auto simp: log_inv_def)
    then show ?thesis using n appended l by (auto simp: log_inv_def fold_events_snoc_None)
  qed (use n l in \<open>auto simp: log_inv_def\<close>)
qed

definition same_log :: "wrun \<Rightarrow> wrun \<Rightarrow> bool" where
  "same_log rn rn' \<longleftrightarrow> rn_log rn' = rn_log rn \<and> rn_state rn' = rn_state rn \<and> rn_id rn' = rn_id rn"

lemma same_log_inv: "same_log rn rn' \<Longrightarrow> log_inv rn' = log_inv rn"
  by (simp add: same_log_def log_inv_def)

lemma run_step_log:
  assumes "run_step parse execute rn rn'"
  shows "same_log rn rn' \<or> (\<exists>e now answer. same_log (fst (run_log e now answer rn)) rn')"
  using assms
  by (cases rule: run_step.cases)
    (auto simp: step_defs loop_top_def same_log_def split: option.split sum.split)

lemma log_inv_step: "run_step parse execute rn rn' \<Longrightarrow> log_inv rn \<Longrightarrow> log_inv rn'"
  using run_step_log same_log_inv log_inv_log by metis


section \<open>Statuses, failures and cancellation\<close>

lemma run_log_state:
  assumes "we_kind e \<noteq> KindRunStarted"
  shows "step_status (rn_state (fst (run_log e now answer rn)))
      = (if snd (run_log e now answer rn) = None then status_after e (status_of rn) else status_of rn)"
    "ws_workflow (rn_state (fst (run_log e now answer rn))) = ws_workflow (rn_state rn)"
proof -
  obtain rn' er where l: "run_log e now answer rn = (rn', er)" by fastforce
  then have "step_status (rn_state rn') = (if er = None then status_after e (status_of rn) else status_of rn)
      \<and> ws_workflow (rn_state rn') = ws_workflow (rn_state rn)"
    by (cases rule: run_logE) (use assms in \<open>auto simp: apply_event_status status_after_def\<close>)
  then show "step_status (rn_state (fst (run_log e now answer rn)))
      = (if snd (run_log e now answer rn) = None then status_after e (status_of rn) else status_of rn)"
    "ws_workflow (rn_state (fst (run_log e now answer rn))) = ws_workflow (rn_state rn)" by (auto simp: l)
qed

lemma run_log_cause:
  "rn_cause rn \<noteq> None \<Longrightarrow> rn_cause (fst (run_log e now answer rn)) = rn_cause rn"
  "snd (run_log e now answer rn) = None \<Longrightarrow> rn_cause (fst (run_log e now answer rn)) = rn_cause rn"
  by (auto simp: run_log_def run_cancel_def Let_def split: sum.split option.split)

lemma steps_ended_log: "steps_ended rn \<Longrightarrow> steps_ended (fst (run_log e now answer rn))"
  using run_log_cause(1) by (auto simp: steps_ended_def)

lemma fold_step_status:
  "fold_events es = (s, None) \<Longrightarrow> sid \<in> set (step_ids (ws_workflow s)) \<Longrightarrow>
     step_status s sid = StatusPending \<or> step_status s sid = StatusRunning \<or> status_ended (step_status s sid)"
proof (induction es arbitrary: s rule: rev_induct)
  case Nil
  then show ?case by (auto simp: fold_events_def zero_state_def step_ids_def empty_workflow_def)
next
  case (snoc e es)
  then obtain s0 where s0: "fold_events es = (s0, None)" "apply_event s0 e = Inr s"
    by (auto simp: fold_events_snoc_None)
  show ?case
  proof (cases "we_kind e = KindRunStarted")
    case True
    then obtain w where "s = zero_state\<lparr>ws_run_id := we_run_id e,
        ws_workflow := w, ws_status := StatusRunning, ws_seq := we_seq e,
        ws_steps := fold (\<lambda>st. AList.update (st_id st) (step_state_of StatusPending)) (wf_steps w) [],
        ws_started := we_time e\<rparr>"
      using s0(2) by (auto simp: apply_event_def apply_start_def split: if_splits option.splits)
    then show ?thesis using snoc.prems(2) by (simp add: step_status_def pending_status step_state_of_def)
  next
    case False
    have "status_ended (we_status e)" if "we_kind e = KindStepEnded"
      using s0(2) that by (auto simp: apply_event_def apply_kind_def split: if_splits option.splits sum.splits)
    then show ?thesis using snoc.IH[OF s0(1)] snoc.prems(2) apply_event_status(1,2)[OF s0(2) False]
      by (auto simp: status_after_def)
  qed
qed

definition fail_inv :: "wrun \<Rightarrow> bool" where
  "fail_inv rn \<longleftrightarrow>
     (\<forall>sid. status_of rn sid = StatusFailed \<longrightarrow>
        rn_failure rn \<noteq> None \<or> (\<exists>st e. rn_threads rn sid = Some (st, StepFail e)))
     \<and> (\<forall>sid. status_of rn sid = StatusCancelled \<longrightarrow> steps_ended rn)
     \<and> (\<forall>sid st. rn_threads rn sid = Some (st, StepStop) \<longrightarrow> rn_failure rn \<noteq> None)
     \<and> (rn_stopped rn \<longrightarrow> rn_failure rn \<noteq> None \<or> rn_finished rn)"

text \<open>A step that keeps the statuses, and moves no thread to or from its failure.\<close>

definition fail_quiet :: "wrun \<Rightarrow> wrun \<Rightarrow> bool" where
  "fail_quiet rn rn' \<longleftrightarrow>
     rn_state rn' = rn_state rn
     \<and> (\<forall>sid st e. rn_threads rn sid = Some (st, StepFail e) \<longrightarrow> rn_threads rn' sid = Some (st, StepFail e))
     \<and> (\<forall>sid st. rn_threads rn' sid = Some (st, StepStop) \<longrightarrow> rn_threads rn sid = Some (st, StepStop))
     \<and> (steps_ended rn \<longrightarrow> steps_ended rn')
     \<and> (rn_failure rn \<noteq> None \<longrightarrow> rn_failure rn' \<noteq> None)
     \<and> (rn_finished rn \<longrightarrow> rn_finished rn')
     \<and> (rn_stopped rn' \<longrightarrow> rn_stopped rn \<or> rn_finished rn')"

lemma fail_inv_quiet: "fail_inv rn \<Longrightarrow> fail_quiet rn rn' \<Longrightarrow> fail_inv rn'"
  unfolding fail_inv_def fail_quiet_def by metis

text \<open>An append for the step of a thread, which then moves on.\<close>

lemma fail_inv_log:
  assumes f: "fail_inv rn" and k: "we_kind e \<noteq> KindRunStarted"
    and t: "rn_threads rn (st_id st) = Some (st, pc)" "pc \<noteq> StepStop" "\<And>x. pc \<noteq> StepFail x"
    and s: "we_kind e = KindStepStarted \<or> we_kind e = KindStepEnded \<Longrightarrow> we_step e = st_id st"
    and w: "we_kind e = KindStepEnded \<Longrightarrow> snd (run_log e now answer rn) = None \<Longrightarrow>
      we_status e \<noteq> StatusFailed \<and> (we_status e = StatusCancelled \<longrightarrow> steps_ended rn)
      \<or> we_status e = StatusFailed \<and> (\<exists>x. pc' = StepFail x)"
    and p: "pc' \<noteq> StepStop"
  shows "fail_inv (thread_at st (Some pc') (fst (run_log e now answer rn)))"
proof -
  let ?l = "run_log e now answer rn"
  have same: "status_of (fst ?l) sid = status_of rn sid" if "sid \<noteq> st_id st" for sid
    using run_log_state(1)[OF k, of now answer rn] s that by (auto simp: status_after_def)
  have here: "status_of (fst ?l) (st_id st) \<noteq> StatusFailed \<or> (\<exists>x. pc' = StepFail x) \<or> rn_failure rn \<noteq> None"
    "status_of (fst ?l) (st_id st) = StatusCancelled \<Longrightarrow> steps_ended rn"
  proof -
    have old: "status_of rn (st_id st) = StatusFailed \<Longrightarrow> rn_failure rn \<noteq> None"
      "status_of rn (st_id st) = StatusCancelled \<Longrightarrow> steps_ended rn"
    proof -
      assume "status_of rn (st_id st) = StatusFailed"
      then have "rn_failure rn \<noteq> None \<or> (\<exists>st' e. rn_threads rn (st_id st) = Some (st', StepFail e))"
        using f unfolding fail_inv_def by blast
      then show "rn_failure rn \<noteq> None" using t by auto
    qed (use f in \<open>auto simp: fail_inv_def\<close>)
    have "status_of (fst ?l) (st_id st) = status_of rn (st_id st) \<or> status_of (fst ?l) (st_id st) = StatusRunning
        \<or> snd ?l = None \<and> we_kind e = KindStepEnded \<and> status_of (fst ?l) (st_id st) = we_status e"
      using run_log_state(1)[OF k, of now answer rn] s by (auto simp: status_after_def)
    then have "(status_of (fst ?l) (st_id st) \<noteq> StatusFailed \<or> (\<exists>x. pc' = StepFail x) \<or> rn_failure rn \<noteq> None)
        \<and> (status_of (fst ?l) (st_id st) = StatusCancelled \<longrightarrow> steps_ended rn)"
      by (elim disjE conjE) (use old w in auto)
    then show "status_of (fst ?l) (st_id st) \<noteq> StatusFailed \<or> (\<exists>x. pc' = StepFail x) \<or> rn_failure rn \<noteq> None"
      "status_of (fst ?l) (st_id st) = StatusCancelled \<Longrightarrow> steps_ended rn" by auto
  qed
  show ?thesis unfolding fail_inv_def
  proof (intro conjI allI impI)
    fix sid assume "status_of (thread_at st (Some pc') (fst ?l)) sid = StatusFailed"
    then show "rn_failure (thread_at st (Some pc') (fst ?l)) \<noteq> None
        \<or> (\<exists>st' x. rn_threads (thread_at st (Some pc') (fst ?l)) sid = Some (st', StepFail x))"
      using f here(1) same by (cases "sid = st_id st") (auto simp: fail_inv_def)
  next
    fix sid assume "status_of (thread_at st (Some pc') (fst ?l)) sid = StatusCancelled"
    then show "steps_ended (thread_at st (Some pc') (fst ?l))"
      using f here(2) same steps_ended_log by (cases "sid = st_id st") (auto simp: fail_inv_def)
  next
    fix sid st' assume "rn_threads (thread_at st (Some pc') (fst ?l)) sid = Some (st', StepStop)"
    then show "rn_failure (thread_at st (Some pc') (fst ?l)) \<noteq> None"
      using f p by (auto simp: fail_inv_def split: if_splits)
  next
    assume "rn_stopped (thread_at st (Some pc') (fst ?l))"
    then show "rn_failure (thread_at st (Some pc') (fst ?l)) \<noteq> None
        \<or> rn_finished (thread_at st (Some pc') (fst ?l))"
      using f by (simp add: fail_inv_def)
  qed
qed

lemma fail_inv_log_loop:
  assumes "fail_inv rn" "we_kind e \<notin> {KindRunStarted, KindStepStarted, KindStepEnded}"
  shows "fail_inv (loop_at pc (fst (run_log e now answer rn)))"
proof -
  have k: "we_kind e \<noteq> KindRunStarted" using assms(2) by simp
  have "status_of (fst (run_log e now answer rn)) = status_of rn"
    using assms(2) run_log_state(1)[OF k, of now answer rn] by (auto simp: status_after_def)
  moreover have "steps_ended (loop_at pc (fst (run_log e now answer rn)))" if "steps_ended rn"
    using steps_ended_log[OF that, of e now answer] by (simp add: loop_at_def steps_ended_def)
  ultimately show ?thesis using assms(1) unfolding fail_inv_def by (auto simp: loop_at_def)
qed


lemma fail_quiet_thread:
  assumes "rn_threads rn (st_id st) = Some (st, pc)" "\<And>e. pc \<noteq> StepFail e" "pc' \<noteq> StepStop"
    "rn_state rn1 = rn_state rn" "rn_threads rn1 = rn_threads rn" "rn_cause rn1 = rn_cause rn"
    "rn_failure rn1 = rn_failure rn" "rn_finished rn1 = rn_finished rn" "rn_stopped rn1 = rn_stopped rn"
  shows "fail_quiet rn (thread_at st (Some pc') rn1)"
  using assms by (auto simp: fail_quiet_def steps_ended_def)

lemma launch_threads:
  "rn_threads (launch sts rn) sid = Some (st, pc) \<Longrightarrow>
     rn_threads rn sid = Some (st, pc) \<or> pc = StepSession \<and> st \<in> set sts \<and> st_id st = sid"
proof (induction sts rn rule: launch.induct)
  case (2 st' sts rn)
  show ?case
  proof (cases "slot_free rn")
    case True
    then have "rn_threads (thread_at st' (Some StepSession)
          ((slot_take (rn_id rn, st_id st') rn)
             \<lparr>rn_inflight := insert (st_id st') (rn_inflight rn),
              rn_busy := insert (st_session st') (rn_busy rn)\<rparr>)) sid = Some (st, pc)
        \<or> pc = StepSession \<and> st \<in> set sts \<and> st_id st = sid"
      using "2.IH" "2.prems" by simp
    then show ?thesis by (auto split: if_splits)
  qed (use 2 in simp)
qed simp

lemma launch_keeps:
  "rn_threads rn sid = Some (st, pc) \<Longrightarrow> sid \<notin> st_id ` set sts \<Longrightarrow>
     rn_threads (launch sts rn) sid = Some (st, pc)"
  by (induction sts rn rule: launch.induct) auto

lemma fail_quiet_launch:
  assumes n: "n_threads rn"
  shows "fail_quiet rn (loop_at pc (launch (ready rn) rn))"
proof -
  have nr: "sid \<notin> st_id ` set (ready rn)" if "rn_threads rn sid = Some (st, pc)" for sid st pc
  proof
    assume "sid \<in> st_id ` set (ready rn)"
    then obtain s where "s \<in> set (ready rn)" "st_id s = sid" by auto
    then have "sid \<notin> rn_inflight rn" using ready_from_sub by (auto simp: ready_def startable_def)
    then show False using n that by (auto simp: n_threads_def)
  qed
  have "rn_threads (launch (ready rn) rn) sid = Some (st, StepFail e)"
    if "rn_threads rn sid = Some (st, StepFail e)" for sid st e
    by (rule launch_keeps[OF that nr[OF that]])
  moreover have "rn_threads rn sid = Some (st, StepStop)"
    if "rn_threads (launch (ready rn) rn) sid = Some (st, StepStop)" for sid st
    using launch_threads[OF that] by simp
  ultimately show ?thesis by (simp add: fail_quiet_def loop_at_def steps_ended_def)
qed


lemma log_moveD:
  assumes "log_move rn st e er pc'"
  shows "we_kind e \<noteq> KindRunStarted" "pc' \<noteq> StepStop"
    "we_kind e = KindStepStarted \<or> we_kind e = KindStepEnded \<Longrightarrow> we_step e = st_id st"
    "we_kind e = KindStepEnded \<Longrightarrow> er = None \<Longrightarrow>
      we_status e \<noteq> StatusFailed \<and> (we_status e = StatusCancelled \<longrightarrow> steps_ended rn)
      \<or> we_status e = StatusFailed \<and> (\<exists>x. pc' = StepFail x)"
  using assms by (auto simp: log_move_def for_step_def)

lemma fail_inv_step:
  assumes r: "run_step parse execute rn rn'" and n: "n_threads rn" and f: "fail_inv rn"
  shows "fail_inv rn'"
  using r n
proof (cases rule: run_step_coarse)
  case (top now)
  have "fail_quiet rn (loop_at pc rn)" "fail_quiet rn (rn\<lparr>rn_failure := Some e\<rparr>)" for pc e
    by (simp_all add: fail_quiet_def loop_at_def steps_ended_def)
  then have "fail_quiet rn (loop_top now rn)"
    using fail_quiet_launch[OF n] by (simp add: loop_top_def)
  then show ?thesis using f fail_inv_quiet top by blast
next
  case (loop_log e pc now answer)
  then show ?thesis using fail_inv_log_loop[OF f] by (auto simp: loop_event_def)
next
  case (log_move st pc pc' e now answer)
  show ?thesis unfolding log_move(4)
    by (rule fail_inv_log[OF f log_moveD(1)[OF log_move(3)] log_move(1)])
      (use log_move(2) log_moveD(2-)[OF log_move(3)] in auto)
next
  case (move st pc pc' ss)
  have "fail_quiet rn rn'" unfolding move(4)
    by (rule fail_quiet_thread[OF move(1)]) (use move(2,3) in auto)
  then show ?thesis using f fail_inv_quiet by blast
next
  case (fail st e)
  then show ?thesis using f by (auto simp: fail_inv_def step_fail_def steps_ended_def)
next
  case (stop st)
  then show ?thesis using f by (auto simp: fail_inv_def step_stop_def run_stop_def steps_ended_def)
qed (rule fail_inv_quiet[OF f]; (auto simp: step_defs fail_quiet_def steps_ended_def split: option.split if_splits)[1])+

section \<open>The loop\<close>

definition steps_done :: "wrun \<Rightarrow> bool" where
  "steps_done rn \<longleftrightarrow>
     (\<forall>sid \<in> set (step_ids (ws_workflow (rn_state rn))). status_of rn sid = StatusDone)"

definition cancelled :: "wrun \<Rightarrow> bool" where
  "cancelled rn \<longleftrightarrow> (\<exists>c. rn_cause rn = Some c \<and> err_is c ErrCancelled)"

text \<open>What holds at a position of the loop.\<close>

fun at_loop :: "wrun \<Rightarrow> loop_pc \<Rightarrow> bool" where
  "at_loop rn LoopLogDone \<longleftrightarrow> steps_done rn"
| "at_loop rn LoopExit \<longleftrightarrow> rn_inflight rn = {} \<and> (rn_cause rn \<noteq> None \<or> rn_failure rn \<noteq> None)"
| "at_loop rn (LoopLogFailed e) \<longleftrightarrow> rn_inflight rn = {} \<and> rn_failure rn = Some e"
| "at_loop rn LoopLogCancelled \<longleftrightarrow> rn_inflight rn = {} \<and> cancelled rn"
| "at_loop rn LoopFinish \<longleftrightarrow> (rn_inflight rn = {} \<or> steps_done rn)
     \<and> (status_ended (ws_status (rn_state rn)) \<or> rn_cause rn \<noteq> None)"
| "at_loop rn LoopGone \<longleftrightarrow> (rn_inflight rn = {} \<or> steps_done rn)
     \<and> (status_ended (ws_status (rn_state rn)) \<or> rn_err rn \<noteq> None \<or> cancelled rn)"
| "at_loop rn _ \<longleftrightarrow> True"

fun loop_over :: "loop_pc \<Rightarrow> bool" where
  "loop_over LoopFinish = True"
| "loop_over LoopGone = True"
| "loop_over _ = False"

text \<open>How a run ended, and what made it.\<close>

definition end_cause :: "wrun \<Rightarrow> bool" where
  "end_cause rn \<longleftrightarrow>
     (case ws_status (rn_state rn) of
        StatusDone \<Rightarrow> steps_done rn
      | StatusFailed \<Rightarrow> rn_failure rn \<noteq> None
      | StatusCancelled \<Rightarrow> cancelled rn
      | _ \<Rightarrow> True)"

definition loop_inv :: "wrun \<Rightarrow> bool" where
  "loop_inv rn \<longleftrightarrow>
     at_loop rn (rn_loop rn) \<and> (rn_finished rn \<longleftrightarrow> rn_loop rn = LoopGone)
     \<and> (status_ended (ws_status (rn_state rn)) \<longrightarrow> loop_over (rn_loop rn)) \<and> end_cause rn"

lemma active_not_done:
  assumes "n_threads rn" "rn_threads rn sid = Some (st, pc)" "active pc"
  shows "\<not> steps_done rn" "rn_inflight rn \<noteq> {}"
proof -
  have s: "st \<in> set (wf_steps (ws_workflow (rn_state rn)))"
    "status_of rn (st_id st) = StatusPending \<or> status_of rn (st_id st) = StatusRunning"
    using assms by (auto simp: n_threads_def thread_ok_def)
  then show "\<not> steps_done rn" by (force simp: steps_done_def step_ids_def)
  show "rn_inflight rn \<noteq> {}" using assms by (auto simp: n_threads_def)
qed

lemma run_log_run_status:
  assumes "we_kind e \<noteq> KindRunStarted" "snd (run_log e now answer rn) = None"
  shows "ws_status (rn_state (fst (run_log e now answer rn))) = (case we_kind e of
       KindRunResumed \<Rightarrow> StatusRunning | KindRunPaused \<Rightarrow> StatusPaused | KindRunEnded \<Rightarrow> we_status e
     | _ \<Rightarrow> ws_status (rn_state rn))"
    "\<not> status_ended (ws_status (rn_state rn))"
proof -
  obtain rn' er where l: "run_log e now answer rn = (rn', er)" by fastforce
  then have "ws_status (rn_state rn') = (case we_kind e of
       KindRunResumed \<Rightarrow> StatusRunning | KindRunPaused \<Rightarrow> StatusPaused | KindRunEnded \<Rightarrow> we_status e
     | _ \<Rightarrow> ws_status (rn_state rn)) \<and> \<not> status_ended (ws_status (rn_state rn))"
    by (cases rule: run_logE) (use assms l in \<open>auto simp: apply_event_status(3,4) split: kind.split\<close>)
  then show "ws_status (rn_state (fst (run_log e now answer rn))) = (case we_kind e of
       KindRunResumed \<Rightarrow> StatusRunning | KindRunPaused \<Rightarrow> StatusPaused | KindRunEnded \<Rightarrow> we_status e
     | _ \<Rightarrow> ws_status (rn_state rn))" "\<not> status_ended (ws_status (rn_state rn))"
    by (simp_all add: l)
qed

lemma run_log_failed_state:
  "snd (run_log e now answer rn) \<noteq> None \<Longrightarrow> rn_state (fst (run_log e now answer rn)) = rn_state rn
     \<and> rn_log (fst (run_log e now answer rn)) = rn_log rn \<and> rn_subs (fst (run_log e now answer rn)) = rn_subs rn"
  by (auto simp: run_log_def run_cancel_def Let_def split: sum.splits option.splits)

text \<open>An end that cannot be logged interrupts the run, unless it was cancelled already.\<close>

lemma end_log_failed:
  assumes "log_inv rn" "\<not> status_ended (ws_status (rn_state rn))" "status_ended s"
    "snd (run_log (ended_event s er) now answer rn) \<noteq> None"
  shows "rn_cause (fst (run_log (ended_event s er) now answer rn)) \<noteq> None"
proof -
  let ?e = "(ended_event s er)\<lparr>we_run_id := rn_id rn, we_seq := ws_seq (rn_state rn) + 1, we_time := now\<rparr>"
  have "we_kind ?e = KindRunEnded" "we_status ?e = s" by (simp_all add: ended_event_def wevent_of_def)
  moreover have "ws_seq (rn_state rn) \<noteq> 0" using log_inv_facts(2)[OF assms(1)] assms(1) by (simp add: log_inv_def)
  ultimately have "\<exists>s'. apply_event (rn_state rn) ?e = Inr s'"
    using assms(1-3) by (auto simp: apply_event_def apply_kind_def logged_def log_inv_def)
  then show ?thesis using assms(4)
    by (auto simp: run_log_def run_cancel_def Let_def split: option.splits)
qed

lemma cancelled_log: "cancelled rn \<Longrightarrow> cancelled (fst (run_log e now answer rn))"
  using run_log_cause(1)[of rn e now answer] by (auto simp: cancelled_def)

lemma steps_done_log:
  assumes "we_kind e \<notin> {KindRunStarted, KindStepStarted, KindStepEnded}"
  shows "steps_done (fst (run_log e now answer rn)) = steps_done rn"
proof -
  have k: "we_kind e \<noteq> KindRunStarted" using assms by simp
  show ?thesis using assms run_log_state[OF k, of now answer rn] by (simp add: steps_done_def status_after_def)
qed


text \<open>A step that keeps the run's state, its loop's position and what the loop rests on.\<close>

definition loop_quiet :: "wrun \<Rightarrow> wrun \<Rightarrow> bool" where
  "loop_quiet rn rn' \<longleftrightarrow>
     rn_state rn' = rn_state rn \<and> rn_loop rn' = rn_loop rn \<and> rn_finished rn' = rn_finished rn
     \<and> rn_err rn' = rn_err rn \<and> rn_inflight rn' \<subseteq> rn_inflight rn
     \<and> (rn_cause rn \<noteq> None \<longrightarrow> rn_cause rn' = rn_cause rn)
     \<and> (rn_failure rn \<noteq> None \<longrightarrow> rn_failure rn' = rn_failure rn)"

lemma loop_inv_quiet: "loop_inv rn \<Longrightarrow> loop_quiet rn rn' \<Longrightarrow> loop_inv rn'"
  unfolding loop_inv_def end_cause_def loop_quiet_def
  by (cases "rn_loop rn") (auto simp: steps_done_def cancelled_def split: status.splits)

text \<open>An append by a goroutine: the loop has not ended, and what it logs ends no run.\<close>

lemma loop_inv_log:
  assumes i: "loop_inv rn" and n: "n_threads rn" and t: "rn_threads rn sid = Some (st, pc)" "active pc"
    and k: "we_kind e \<noteq> KindRunStarted" "we_kind e \<noteq> KindRunEnded"
  shows "loop_inv (thread_at st pc' (fst (run_log e now answer rn)))"
proof -
  let ?rn = "thread_at st pc' (fst (run_log e now answer rn))"
  have not: "\<not> loop_over (rn_loop rn)" "\<not> steps_done rn" "rn_inflight rn \<noteq> {}"
    "rn_loop rn \<notin> {LoopLogDone, LoopExit, LoopLogCancelled}" "\<And>x. rn_loop rn \<noteq> LoopLogFailed x"
    using active_not_done[OF n t] i by (cases "rn_loop rn"; auto simp: loop_inv_def)+
  have "\<not> status_ended (ws_status (rn_state rn))" using not(1) i by (auto simp: loop_inv_def)
  then have s: "\<not> status_ended (ws_status (rn_state ?rn))"
    using run_log_run_status[OF k(1), of now answer rn] run_log_failed_state[of e now answer rn] k
    by (cases "snd (run_log e now answer rn) = None") (auto simp: status_ended_def split: kind.split)
  have "at_loop ?rn (rn_loop ?rn)" using not by (cases "rn_loop rn") auto
  moreover have "end_cause ?rn" using s by (auto simp: end_cause_def status_ended_def split: status.split)
  ultimately show ?thesis using s i by (simp add: loop_inv_def)
qed

lemma loop_inv_end:
  assumes i: "loop_inv rn" and l: "log_inv rn" and e: "loop_event rn e pc"
  shows "loop_inv (loop_at pc (fst (run_log e now answer rn)))"
proof -
  let ?l = "run_log e now answer rn"
  have k: "we_kind e \<notin> {KindRunStarted, KindStepStarted, KindStepEnded}" "we_kind e \<noteq> KindRunStarted"
    using e by (auto simp: loop_event_def)
  have run: "\<not> status_ended (ws_status (rn_state rn))" "\<not> rn_finished rn"
    using i e by (auto simp: loop_inv_def loop_event_def)
  have sd: "steps_done (loop_at pc (fst ?l)) = steps_done rn"
    using steps_done_log[OF k(1), of now answer rn] by (simp add: steps_done_def loop_at_def)
  have can: "cancelled rn \<Longrightarrow> cancelled (loop_at pc (fst ?l))"
    using cancelled_log[of rn e now answer] by (simp add: cancelled_def loop_at_def)
  have at: "at_loop rn (rn_loop rn)" using i by (simp add: loop_inv_def)
  show ?thesis
  proof (cases "snd ?l = None")
    case True
    note s = run_log_run_status(1)[OF k(2) True]
    show ?thesis using e at run sd can s
      by (auto simp: loop_event_def loop_inv_def end_cause_def status_ended_def loop_at_def)
  next
    case False
    have c: "rn_cause (fst ?l) \<noteq> None" if "pc = LoopFinish"
      using end_log_failed[OF l run(1), of _ _ now answer] e False that
      by (auto simp: loop_event_def status_ended_def)
    have s: "rn_state (fst ?l) = rn_state rn" using run_log_failed_state[OF False] by simp
    have "end_cause (loop_at pc (fst ?l))"
      using run(1) s by (auto simp: end_cause_def loop_at_def status_ended_def split: status.split)
    then show ?thesis using e at run sd s c
      by (auto simp: loop_event_def loop_inv_def loop_at_def)
  qed
qed

lemma loop_inv_top:
  assumes "loop_inv rn" "rn_loop rn = LoopTop" "ws_wf (rn_state rn)"
    and "distinct (step_ids (ws_workflow (rn_state rn)))"
  shows "loop_inv (loop_top now rn)"
proof -
  have d: "done_count (rn_state rn) = length (wf_steps (ws_workflow (rn_state rn))) \<Longrightarrow> steps_done rn"
    using all_done[OF assms(3,4)] by (simp add: steps_done_def)
  have run: "\<not> status_ended (ws_status (rn_state rn))" "\<not> rn_finished rn"
    using assms(1,2) by (auto simp: loop_inv_def)
  have e: "end_cause rn'" if "rn_state rn' = rn_state rn" for rn'
    using run(1) that by (auto simp: end_cause_def status_ended_def split: status.split)
  show ?thesis using d run assms(2) unfolding loop_top_def
    by (auto simp: loop_inv_def loop_at_def e steps_done_def)
qed

lemma loop_inv_step:
  assumes r: "run_step parse execute rn rn'" and n: "n_threads rn" and l: "log_inv rn" and i: "loop_inv rn"
    and d: "distinct (step_ids (ws_workflow (rn_state rn)))"
  shows "loop_inv rn'"
  using r n
proof (cases rule: run_step_coarse)
  case (top now)
  then show ?thesis using loop_inv_top[OF i _ log_inv_facts(1)[OF l] d] by simp
next
  case (loop_log e pc now answer)
  then show ?thesis using loop_inv_end[OF i l] by simp
next
  case (log_move st pc pc' e now answer)
  have "we_kind e \<noteq> KindRunEnded" using log_move(3) by (simp add: log_move_def)
  then show ?thesis unfolding log_move(4)
    using loop_inv_log[OF i n log_move(1,2) log_moveD(1)[OF log_move(3)]] by blast
next
  case (wake d t)
  then show ?thesis using i by (auto simp: loop_wake_def loop_at_def loop_inv_def end_cause_def steps_done_def
        cancelled_def split: status.splits)
next
  case (woken d t)
  then show ?thesis using i by (auto simp: loop_at_def loop_inv_def end_cause_def steps_done_def
        cancelled_def split: status.splits)
next
  case exit
  then show ?thesis using i by (auto simp: loop_exit_def loop_at_def loop_inv_def end_cause_def steps_done_def
        cancelled_def interrupted_def split: status.splits option.splits)
next
  case finish
  then show ?thesis using i by (auto simp: loop_finish_def loop_at_def loop_inv_def end_cause_def steps_done_def
        cancelled_def interrupted_def run_stop_def run_cancel_def Let_def split: status.splits option.splits)
qed (rule loop_inv_quiet[OF i], (auto simp: step_defs loop_quiet_def split: option.split if_splits)[1])+


section \<open>Progress\<close>

text \<open>
  Of the steps not done yet, in an acyclic workflow, one has every step it comes after done.
\<close>

lemma minimal_not_done:
  assumes "acyclic (deps w)" "finite A" "A \<noteq> {}" "A \<subseteq> set (step_ids w)"
  obtains sid where "sid \<in> A" "\<And>dep. dep \<in> set (after w sid) \<Longrightarrow> dep \<notin> A"
proof -
  have fin: "finite (deps w)"
  proof (rule finite_subset)
    show "deps w \<subseteq> (SIGMA a : set (step_ids w). set (after w a))"
      using after_unknown by (fastforce simp: deps_def)
  qed simp
  have "wf ((deps w)\<inverse>)" using finite_acyclic_wf_converse[OF fin assms(1)] .
  then obtain sid where "sid \<in> A" "\<And>dep. (dep, sid) \<in> (deps w)\<inverse> \<Longrightarrow> dep \<notin> A"
    using wfE_min assms(3) by (metis all_not_in_conv)
  then show thesis using that by (auto simp: deps_def)
qed

lemma some_step_ready:
  assumes v: "wf_valid parse (ws_workflow (rn_state rn))" and n: "n_threads rn" and f: "fail_inv rn"
    and l: "log_inv rn" and c: "rn_cause rn = None" "rn_failure rn = None" "\<not> rn_finished rn"
    and i: "rn_inflight rn = {}" and d: "\<not> steps_done rn"
  shows "ready rn \<noteq> []"
proof -
  let ?w = "ws_workflow (rn_state rn)"
  let ?A = "{sid \<in> set (step_ids ?w). status_of rn sid \<noteq> StatusDone}"
  have dist: "distinct (step_ids ?w)" and acy: "acyclic (deps ?w)" using v by (auto simp: wf_valid_def)
  obtain sid where sid: "sid \<in> ?A" "\<And>dep. dep \<in> set (after ?w sid) \<Longrightarrow> dep \<notin> ?A"
    using minimal_not_done[OF acy, of ?A] d by (auto simp: steps_done_def)
  obtain st where st: "st \<in> set (wf_steps ?w)" "st_id st = sid" using sid(1) by (auto simp: step_ids_def)
  have deps_done: "status_of rn dep = StatusDone" if "dep \<in> set (st_after st)" for dep
  proof -
    have "dep \<in> set (after ?w sid)" using deps_step[OF dist st(1)] st(2) that by simp
    moreover have "dep \<in> set (step_ids ?w)"
      using v st(1) that wf_step_None by (fastforce simp: wf_valid_def wf_valid_step_def)
    ultimately show ?thesis using sid(2) by blast
  qed
  have "dom (rn_threads rn) = {}" using n i by (auto simp: n_threads_def)
  then have none: "rn_threads rn = Map.empty" by (simp only: dom_eq_empty_conv)
  then have busy: "rn_busy rn = {}" using n by (simp add: n_threads_def)
  have "status_of rn sid \<noteq> StatusFailed" using f c none by (auto simp: fail_inv_def)
  moreover have "status_of rn sid \<noteq> StatusCancelled" using f c by (auto simp: fail_inv_def steps_ended_def)
  moreover have "fold_events (rn_log rn) = (rn_state rn, None)" using l by (simp add: log_inv_def)
  ultimately have "status_of rn sid = StatusPending \<or> status_of rn sid = StatusRunning"
    using fold_step_status[of "rn_log rn" "rn_state rn" sid] sid(1) by (auto simp: status_ended_def)
  then have "startable rn (rn_busy rn) st" using deps_done st(2) i busy by (simp add: startable_def)
  then show ?thesis using ready_from_nonempty[OF st(1)] by (simp add: ready_def)
qed

lemma no_start_step:
  assumes r: "run_step parse execute rn rn'" and v: "wf_valid parse (ws_workflow (rn_state rn))"
    and n: "n_threads rn" and f: "fail_inv rn" and l: "log_inv rn" and i: "loop_inv rn"
    and s: "rn_failure rn \<noteq> Some no_start"
  shows "rn_failure rn' \<noteq> Some no_start"
  using r n
proof (cases rule: run_step_coarse)
  case (top now)
  have "distinct (step_ids (ws_workflow (rn_state rn)))" using v by (simp add: wf_valid_def)
  then have d: "done_count (rn_state rn) = length (wf_steps (ws_workflow (rn_state rn))) \<longleftrightarrow> steps_done rn"
    using all_done[OF log_inv_facts(1)[OF l]] by (simp add: steps_done_def)
  have fin: "\<not> rn_finished rn" using i top by (simp add: loop_inv_def)
  then show ?thesis using some_step_ready[OF v n f l] s top d
    by (auto simp: loop_top_def loop_at_def)
next
  case (fail st e)
  then show ?thesis using s by (simp add: step_fail_def no_start_def wrap_def)
next
  case (move st pc pc' ss)
  then show ?thesis using s by simp
qed (use s in \<open>(simp add: step_defs split: option.split)[1]\<close>)+

section \<open>Wakes\<close>

text \<open>A loop that waits with nothing in flight has a wake to come, or every slot is taken by other runs.\<close>

definition wait_inv :: "wrun \<Rightarrow> bool" where
  "wait_inv rn \<longleftrightarrow>
     (case rn_loop rn of
        LoopWait d t \<Rightarrow> rn_inflight rn = {} \<longrightarrow> rn_wake rn \<or> t \<or> d \<and> \<not> slot_free rn
      | _ \<Rightarrow> True)"

definition wait_quiet :: "wrun \<Rightarrow> wrun \<Rightarrow> bool" where
  "wait_quiet rn rn' \<longleftrightarrow>
     rn_loop rn' = rn_loop rn
     \<and> (rn_wake rn' \<or> rn_wake rn' = rn_wake rn \<and> rn_inflight rn' = rn_inflight rn
          \<and> (\<not> slot_free rn \<longrightarrow> \<not> slot_free rn'))"

lemma wait_inv_quiet: "wait_inv rn \<Longrightarrow> wait_quiet rn rn' \<Longrightarrow> wait_inv rn'"
  by (auto simp: wait_inv_def wait_quiet_def split: loop_pc.splits)

lemma slot_free_same: "rn_limit rn' = rn_limit rn \<Longrightarrow> rn_slots rn' = rn_slots rn \<Longrightarrow> slot_free rn' = slot_free rn"
  by (simp add: slot_free_def split: option.split)

lemma launch_waits:
  assumes "sts \<noteq> []" "rn_inflight (launch sts rn) = {}"
  shows "\<not> slot_free (launch sts rn)"
proof -
  obtain st sts' where sts: "sts = st # sts'" using assms(1) by (cases sts) auto
  have sub: "rn_inflight rn \<subseteq> rn_inflight (launch sts rn)" for rn sts
    by (induction sts rn rule: launch.induct) auto
  show ?thesis
  proof (cases "slot_free rn")
    case True
    then have "st_id st \<in> rn_inflight (launch sts rn)"
      using sub[of "thread_at st (Some StepSession)
          ((slot_take (rn_id rn, st_id st) rn)
             \<lparr>rn_inflight := insert (st_id st) (rn_inflight rn),
              rn_busy := insert (st_session st) (rn_busy rn)\<rparr>)" sts'] sts by simp
    then show ?thesis using assms(2) by simp
  qed (simp add: sts)
qed

lemma wait_inv_step:
  assumes r: "run_step parse execute rn rn'" and n: "n_threads rn" and w: "wait_inv rn"
  shows "wait_inv rn'"
  using r n
proof (cases rule: run_step_coarse)
  case (top now)
  have "wait_inv (loop_at (LoopWait True False) (launch (ready rn) rn))"
    if "ready rn \<noteq> [] \<or> rn_inflight rn \<noteq> {}"
  proof (cases "ready rn = []")
    case True
    then show ?thesis using that by (simp add: wait_inv_def loop_at_def)
  next
    case False
    have "slot_free (loop_at (LoopWait True False) (launch (ready rn) rn)) = slot_free (launch (ready rn) rn)"
      by (rule slot_free_same) (simp_all add: loop_at_def)
    then show ?thesis using launch_waits[OF False, of rn] by (simp add: wait_inv_def) (simp add: loop_at_def)
  qed
  then show ?thesis using top w by (auto simp: loop_top_def) (auto simp: wait_inv_def loop_at_def)
next
  case (loop_log e pc now answer)
  then show ?thesis by (auto simp: loop_event_def wait_inv_def loop_at_def)
next
  case (wake d t)
  then show ?thesis by (simp add: wait_inv_def loop_wake_def loop_at_def)
next
  case (woken d t)
  then show ?thesis by (simp add: wait_inv_def loop_at_def)
next
  case exit
  then show ?thesis by (simp add: wait_inv_def loop_exit_def loop_at_def split: option.split)
next
  case finish
  then show ?thesis by (simp add: wait_inv_def loop_finish_def loop_at_def run_cancel_def Let_def)
next
  case (takes tok)
  then show ?thesis using w
    by (auto simp: other_takes_def slot_take_def wait_inv_def slot_free_def split: option.splits loop_pc.splits)
qed (rule wait_inv_quiet[OF w],
    (auto simp: step_defs wait_quiet_def slot_free_def split: option.split)[1])+

section \<open>Slots\<close>

text \<open>A goroutine holds its slot until it has released it.\<close>

definition holds_slot :: "wrun \<Rightarrow> string \<Rightarrow> bool" where
  "holds_slot rn sid \<longleftrightarrow>
     (case rn_threads rn sid of None \<Rightarrow> False | Some (st, pc) \<Rightarrow> pc \<noteq> StepRelease \<and> pc \<noteq> StepLeave)"

definition slot_inv :: "wrun \<Rightarrow> bool" where
  "slot_inv rn \<longleftrightarrow>
     (case rn_limit rn of
        None \<Rightarrow> True
      | Some n \<Rightarrow> length (rn_slots rn) \<le> n
          \<and> (\<forall>sid. count_list (rn_slots rn) (rn_id rn, sid) = (if holds_slot rn sid then 1 else 0)))"

definition slot_quiet :: "wrun \<Rightarrow> wrun \<Rightarrow> bool" where
  "slot_quiet rn rn' \<longleftrightarrow>
     rn_limit rn' = rn_limit rn \<and> rn_slots rn' = rn_slots rn \<and> rn_id rn' = rn_id rn
     \<and> holds_slot rn' = holds_slot rn"

lemma slot_inv_quiet: "slot_inv rn \<Longrightarrow> slot_quiet rn rn' \<Longrightarrow> slot_inv rn'"
  by (cases "rn_limit rn") (auto simp: slot_inv_def slot_quiet_def)

lemma count_list_remove1: "count_list (remove1 x xs) y = count_list xs y - (if x = y then 1 else 0)"
  by (induction xs) (auto simp: count_list_0_iff)

lemma holds_slot_move:
  "rn_threads rn' = (rn_threads rn)(sid \<mapsto> (st, pc')) \<Longrightarrow>
     holds_slot rn' = (holds_slot rn)(sid := pc' \<noteq> StepRelease \<and> pc' \<noteq> StepLeave)"
  by (auto simp: holds_slot_def fun_eq_iff)

lemma slot_quiet_move:
  assumes "rn_threads rn (st_id st) = Some (st, pc)" "pc \<notin> {StepRelease, StepLeave}"
    "pc' \<notin> {StepRelease, StepLeave}"
    "rn_threads rn1 = rn_threads rn" "rn_limit rn1 = rn_limit rn" "rn_slots rn1 = rn_slots rn" "rn_id rn1 = rn_id rn"
  shows "slot_quiet rn (thread_at st (Some pc') rn1)"
proof -
  have "holds_slot (thread_at st (Some pc') rn1) = (holds_slot rn)(st_id st := True)"
    using holds_slot_move[of "thread_at st (Some pc') rn1" rn "st_id st" st pc'] assms by simp
  moreover have "holds_slot rn (st_id st)" using assms by (simp add: holds_slot_def)
  ultimately show ?thesis using assms by (simp add: slot_quiet_def fun_upd_idem)
qed

lemma launch_slot_inv:
  assumes "slot_inv rn" "\<forall>st \<in> set sts. rn_threads rn (st_id st) = None" "distinct (map st_id sts)"
  shows "slot_inv (launch sts rn)"
  using assms
proof (induction sts rn rule: launch.induct)
  case (2 st sts rn)
  let ?rn = "thread_at st (Some StepSession)
          ((slot_take (rn_id rn, st_id st) rn)
             \<lparr>rn_inflight := insert (st_id st) (rn_inflight rn),
              rn_busy := insert (st_session st) (rn_busy rn)\<rparr>)"
  show ?case
  proof (cases "slot_free rn")
    case True
    have h: "holds_slot ?rn = (holds_slot rn)(st_id st := True)"
      using holds_slot_move[of ?rn rn "st_id st" st StepSession] by simp
    have "\<not> holds_slot rn (st_id st)" using "2.prems"(2) by (simp add: holds_slot_def)
    then have "slot_inv ?rn" using "2.prems"(1) True h
      by (auto simp: slot_inv_def slot_free_def slot_take_def split: option.splits)
    moreover have "rn_threads ?rn (st_id s) = None" if "s \<in> set sts" for s
      using that "2.prems"(2,3) by (auto simp: image_iff)
    ultimately show ?thesis using "2.IH" True "2.prems" by simp
  qed (use 2 in simp)
qed simp

lemma ready_no_thread:
  assumes "n_threads rn" "st \<in> set (ready rn)"
  shows "rn_threads rn (st_id st) = None"
proof -
  have "st_id st \<notin> rn_inflight rn" using assms(2) ready_from_sub by (auto simp: ready_def startable_def)
  then show ?thesis using assms(1) by (auto simp: n_threads_def)
qed

lemma slot_inv_step:
  assumes r: "run_step parse execute rn rn'" and n: "n_threads rn" and s: "slot_inv rn"
    and d: "distinct (step_ids (ws_workflow (rn_state rn)))"
  shows "slot_inv rn'"
  using r n
proof (cases rule: run_step_coarse)
  case (top now)
  have "slot_inv (launch (ready rn) rn)"
    using launch_slot_inv[OF s] ready_no_thread[OF n] ready_from_ids d by (simp add: ready_def step_ids_def)
  moreover have "slot_quiet rn (loop_at pc rn)" for pc and rn :: wrun
    by (simp add: slot_quiet_def loop_at_def holds_slot_def fun_eq_iff)
  moreover have "slot_quiet rn (rn\<lparr>rn_failure := Some e\<rparr>)" for e
    by (simp add: slot_quiet_def holds_slot_def fun_eq_iff)
  ultimately show ?thesis using top s slot_inv_quiet by (auto simp: loop_top_def)
next
  case (move st pc pc' ss)
  have "slot_quiet rn rn'" unfolding move(4)
    by (rule slot_quiet_move[OF move(1)]) (use move(2,3) in auto)
  then show ?thesis using s slot_inv_quiet by blast
next
  case (log_move st pc pc' e now answer)
  have "slot_quiet rn rn'" unfolding log_move(4)
    by (rule slot_quiet_move[OF log_move(1)]) (use log_move(2,3) in \<open>auto simp: log_move_def\<close>)
  then show ?thesis using s slot_inv_quiet by blast
next
  case (fail st e)
  have "slot_quiet rn rn'" unfolding fail step_fail_def
    by (rule slot_quiet_move[OF fail(1)]) auto
  then show ?thesis using s slot_inv_quiet by blast
next
  case (stop st)
  have "slot_quiet rn rn'" unfolding stop step_stop_def
    by (rule slot_quiet_move[OF stop(1)]) (auto simp: run_stop_def)
  then show ?thesis using s slot_inv_quiet by blast
next
  case (slot st)
  have h: "holds_slot rn' = (holds_slot rn)(st_id st := False)"
    using holds_slot_move[of rn' rn "st_id st" st StepRelease] slot
    by (simp add: step_slot_def slot_release_def run_signal_def split: option.split)
  show ?thesis
  proof (cases "rn_limit rn")
    case None
    then show ?thesis using slot by (simp add: slot_inv_def step_slot_def slot_release_def)
  next
    case (Some k)
    have "holds_slot rn (st_id st)" using slot by (simp add: holds_slot_def)
    then show ?thesis using s h Some slot
      by (auto simp: slot_inv_def step_slot_def slot_release_def run_signal_def count_list_remove1
          length_remove1)
  qed
next
  case (release st)
  have h: "holds_slot rn' = (holds_slot rn)(st_id st := False)"
    using holds_slot_move[of rn' rn "st_id st" st StepLeave] release by (simp add: step_release_def)
  moreover have "\<not> holds_slot rn (st_id st)" using release by (simp add: holds_slot_def)
  ultimately show ?thesis using s release
    by (intro slot_inv_quiet[OF s]) (simp add: slot_quiet_def step_release_def fun_upd_idem)
next
  case (leave st)
  have "holds_slot rn' = (holds_slot rn)(st_id st := False)"
    using leave by (auto simp: holds_slot_def fun_eq_iff step_leave_def run_signal_def)
  moreover have "\<not> holds_slot rn (st_id st)" using leave by (simp add: holds_slot_def)
  ultimately show ?thesis
    by (intro slot_inv_quiet[OF s]) (simp add: leave slot_quiet_def step_leave_def run_signal_def fun_upd_idem)
next
  case (takes tok)
  have "holds_slot rn' = holds_slot rn" using takes by (simp add: holds_slot_def other_takes_def fun_eq_iff)
  then show ?thesis using s takes
    by (cases tok) (auto simp: slot_inv_def other_takes_def slot_take_def slot_free_def split: option.splits)
next
  case (frees tok)
  have "holds_slot rn' = holds_slot rn"
    using frees by (simp add: holds_slot_def other_frees_def slot_release_def run_signal_def fun_eq_iff split: option.split)
  then show ?thesis using s frees
    by (cases tok) (auto simp: slot_inv_def other_frees_def slot_release_def run_signal_def count_list_remove1
        length_remove1 split: option.splits)
qed (rule slot_inv_quiet[OF s],
    (simp add: step_defs slot_quiet_def holds_slot_def fun_eq_iff split: option.split)[1])+

section \<open>Subscribers\<close>

definition sub_ok :: "wevent list \<Rightarrow> bool \<Rightarrow> nat \<times> wevent equeue \<Rightarrow> bool" where
  "sub_ok log finished s \<longleftrightarrow>
     (case s of (past, q) \<Rightarrow>
        q_inv q \<and> past \<le> length log
        \<and> (\<not> q_cancelled q \<longrightarrow>
             q_closed q = finished \<and> filter logged (q_out q @ q_held q) = drop past log))"

definition subs_inv :: "wrun \<Rightarrow> bool" where
  "subs_inv rn \<longleftrightarrow> list_all (sub_ok (rn_log rn) (rn_finished rn)) (rn_subs rn)"

lemma sub_ok_logged:
  assumes "sub_ok log False (past, q)" "logged e"
  shows "sub_ok (log @ [e]) False (past, wq_push [e] q)"
  using assms by (auto simp: sub_ok_def wq.push_inv wq.push_sent wq.push_held wq.push_flags)

lemma sub_ok_live:
  assumes "sub_ok log f (past, q)" "\<not> logged e"
  shows "sub_ok log f (past, wq_push [e] q)"
  using assms by (auto simp: sub_ok_def wq.push_inv wq.push_sent wq.push_held wq.push_flags)

lemma sub_ok_close: "sub_ok log f (past, q) \<Longrightarrow> sub_ok log True (past, wq_close q)"
  by (auto simp: sub_ok_def wq.close_inv wq.close_laws)

lemma sub_ok_cancel: "sub_ok log f (past, q) \<Longrightarrow> sub_ok log f (past, q_cancel q)"
  by (auto simp: sub_ok_def wq.cancel_inv wq.cancel_laws)

lemma sub_ok_step: "sub_ok log f (past, q) \<Longrightarrow> wq_step q r \<Longrightarrow> sub_ok log f (past, r)"
  using wq.step_held[of q r] wq.step_flags[of q r] wq.step_inv[of q r]
  by (auto simp: sub_ok_def simp flip: filter_append)

lemma filter_seq_drop:
  "map we_seq es = [1..<Suc (length es)] \<Longrightarrow> filter (\<lambda>e. we_seq e > past) es = drop past es"
proof (induction es rule: rev_induct)
  case (snoc e es)
  then have "map we_seq es = [1..<Suc (length es)]" "we_seq e = Suc (length es)" by auto
  then show ?case using snoc.IH by (auto simp: not_less)
qed simp

lemma sub_ok_new:
  assumes "log_inv rn"
  shows "sub_ok (rn_log rn) False
    (min past (ws_seq (rn_state rn)), wq_push (filter (\<lambda>e. we_seq e > past) (rn_log rn)) new_queue)"
proof -
  have seq: "map we_seq (rn_log rn) = [1..<Suc (length (rn_log rn))]" and l: "list_all logged (rn_log rn)"
    using log_inv_facts(3)[OF assms] by (auto simp: log_shape_def)
  have d: "drop past (rn_log rn) = drop (min past (length (rn_log rn))) (rn_log rn)"
    by (cases "past \<le> length (rn_log rn)") auto
  have "filter logged (drop past (rn_log rn)) = drop past (rn_log rn)"
    using l by (auto simp: filter_id_conv list_all_iff dest: in_set_dropD)
  then show ?thesis using filter_seq_drop[OF seq] d log_inv_facts(2)[OF assms]
    by (auto simp: sub_ok_def wq.push_inv wq.push_sent wq.push_held wq.push_flags wq.start_laws min.commute)
qed

lemma subs_inv_log:
  assumes s: "subs_inv rn" and f: "\<not> rn_finished rn"
  shows "subs_inv (fst (run_log e now answer rn))"
proof -
  obtain rn' er where l: "run_log e now answer rn = (rn', er)" by fastforce
  then show ?thesis
  proof (cases rule: run_logE)
    case (appended e' s')
    then have "logged e'" using apply_Inr by blast
    then show ?thesis using s f appended l sub_ok_logged
      by (auto simp: subs_inv_def list_all_iff push_subs_def)
  qed (use s l in \<open>auto simp: subs_inv_def\<close>)
qed

lemma subs_inv_same:
  "subs_inv rn \<Longrightarrow> rn_log rn' = rn_log rn \<Longrightarrow> rn_subs rn' = rn_subs rn \<Longrightarrow> rn_finished rn' = rn_finished rn \<Longrightarrow>
     subs_inv rn'"
  by (simp add: subs_inv_def)

lemma subs_inv_update:
  "subs_inv rn \<Longrightarrow> (\<And>past. sub_ok (rn_log rn) (rn_finished rn) (past, snd (rn_subs rn ! i)) \<Longrightarrow>
      sub_ok (rn_log rn) (rn_finished rn) (past, q)) \<Longrightarrow> i < length (rn_subs rn) \<Longrightarrow>
     subs_inv (run_sub_at i q rn)"
  by (auto simp: subs_inv_def run_sub_at_def list_all_length nth_list_update)

lemma subs_inv_step:
  assumes r: "run_step parse execute rn rn'" and n: "n_threads rn" and l: "log_inv rn" and i: "loop_inv rn"
    and s: "subs_inv rn"
  shows "subs_inv rn'"
  using r n
proof (cases rule: run_step_coarse)
  case (loop_log e pc now answer)
  then have "\<not> rn_finished rn" using i by (auto simp: loop_event_def loop_inv_def)
  then show ?thesis unfolding loop_log by (rule subs_inv_same[OF subs_inv_log[OF s]]) (simp_all add: loop_at_def)
next
  case (log_move st pc pc' e now answer)
  then have "\<not> rn_finished rn" using active_not_done[OF n log_move(1,2)] i
    by (cases "rn_loop rn") (auto simp: loop_inv_def)
  then show ?thesis unfolding log_move by (rule subs_inv_same[OF subs_inv_log[OF s]]) simp_all
next
  case (finish)
  then show ?thesis using s
    by (auto simp: subs_inv_def loop_finish_def loop_at_def run_cancel_def run_stop_def close_subs_def
        Let_def list_all_iff intro: sub_ok_close)
next
  case (live st xid ev now)
  have "\<not> logged ((step_event KindExchange st xid)\<lparr>we_exchange := ex, we_run_id := r, we_time := now\<rparr>)" for ex r
    by (simp add: logged_def)
  then show ?thesis using s live
    by (auto simp: subs_inv_def step_live_def run_live_def push_subs_def list_all_iff intro!: sub_ok_live)
next
  case (subscribe past)
  then show ?thesis using s sub_ok_new[OF l] by (auto simp: subs_inv_def run_subscribe_def)
next
  case (deliver i q)
  then show ?thesis using subs_inv_update[OF s] sub_ok_step by blast
next
  case (unsub i)
  then show ?thesis using subs_inv_update[OF s] sub_ok_cancel by blast
next
  case (top now)
  then show ?thesis using s by (auto simp: loop_top_def loop_at_def subs_inv_def)
qed (rule subs_inv_same[OF s]; (simp add: step_defs split: option.split)[1])+

section \<open>Every state a run reaches\<close>

definition run_inv :: "'t template_parse \<Rightarrow> wrun \<Rightarrow> bool" where
  "run_inv parse rn \<longleftrightarrow>
     wf_valid parse (ws_workflow (rn_state rn)) \<and> log_inv rn \<and> n_threads rn \<and> fail_inv rn \<and> loop_inv rn
     \<and> rn_failure rn \<noteq> Some no_start \<and> wait_inv rn \<and> slot_inv rn \<and> subs_inv rn"

lemma run_step_workflow:
  assumes "run_step parse execute rn rn'" "n_threads rn"
  shows "ws_workflow (rn_state rn') = ws_workflow (rn_state rn)"
  using assms
proof (cases rule: run_step_coarse)
  case (loop_log e pc now answer)
  then have "we_kind e \<noteq> KindRunStarted" by (auto simp: loop_event_def)
  then show ?thesis using run_log_state(2)[of e now answer rn] loop_log by (simp add: loop_at_def)
next
  case (log_move st pc pc' e now answer)
  then show ?thesis using run_log_state(2)[OF log_moveD(1)[OF log_move(3)], of now answer rn] by simp
next
  case (top now)
  then show ?thesis by (simp add: loop_top_def loop_at_def)
qed ((simp add: step_defs split: option.split)[1])+

lemma run_inv_step:
  assumes "run_step parse execute rn rn'" "run_inv parse rn"
  shows "run_inv parse rn'"
proof -
  have i: "wf_valid parse (ws_workflow (rn_state rn))" "log_inv rn" "n_threads rn" "fail_inv rn" "loop_inv rn"
    "rn_failure rn \<noteq> Some no_start" "wait_inv rn" "slot_inv rn" "subs_inv rn"
    using assms(2) by (simp_all add: run_inv_def)
  have d: "distinct (step_ids (ws_workflow (rn_state rn)))" using i(1) by (simp add: wf_valid_def)
  show ?thesis unfolding run_inv_def
    using run_step_workflow[OF assms(1) i(3)] log_inv_step[OF assms(1) i(2)] n_threads_step[OF assms(1) i(3) d]
      fail_inv_step[OF assms(1) i(3,4)] loop_inv_step[OF assms(1) i(3,2,5) d]
      no_start_step[OF assms(1) i(1,3,4,2,5,6)] wait_inv_step[OF assms(1) i(3,7)]
      slot_inv_step[OF assms(1) i(3,8) d] subs_inv_step[OF assms(1) i(3,2,5,9)] i(1) by simp
qed

text \<open>A run that has been registered and launched, and has done nothing yet.\<close>

definition slot_bound :: "nat option \<Rightarrow> (string \<times> string) list \<Rightarrow> bool" where
  "slot_bound limit slots \<longleftrightarrow> (case limit of None \<Rightarrow> True | Some n \<Rightarrow> length slots \<le> n)"

definition fresh :: "wrun \<Rightarrow> bool" where
  "fresh rn \<longleftrightarrow>
     rn_threads rn = (\<lambda>_. None) \<and> rn_inflight rn = {} \<and> rn_busy rn = {} \<and> rn_loop rn = LoopTop
     \<and> \<not> rn_finished rn \<and> rn_subs rn = []
     \<and> slot_bound (rn_limit rn) (rn_slots rn)
     \<and> (\<forall>tok \<in> set (rn_slots rn). fst tok \<noteq> rn_id rn)"

lemma fresh_inv:
  assumes f: "fresh rn" and "wf_valid parse (ws_workflow (rn_state rn))" "log_inv rn" "fail_inv rn"
    "rn_failure rn \<noteq> Some no_start" "\<not> status_ended (ws_status (rn_state rn))"
  shows "run_inv parse rn"
proof -
  have "n_threads rn" "wait_inv rn" "subs_inv rn"
    using f by (simp_all add: fresh_def n_threads_def wait_inv_def subs_inv_def)
  moreover have "loop_inv rn" using f assms(6)
    by (auto simp: fresh_def loop_inv_def end_cause_def status_ended_def split: status.split)
  moreover have "slot_inv rn"
  proof -
    have "(rn_id rn, sid) \<notin> set (rn_slots rn)" for sid using f by (auto simp: fresh_def)
    then show ?thesis using f by (auto simp: slot_inv_def slot_bound_def fresh_def holds_slot_def count_list_0_iff
          split: option.splits)
  qed
  ultimately show ?thesis using assms by (simp add: run_inv_def)
qed

lemma fresh_new_run:
  assumes "slots_ok r" "rr_runs r rid = None"
  shows "fresh (new_run rid s log (rr_limit r) (rr_slots r))"
  using assms by (auto simp: fresh_def slot_bound_def new_run_def slots_ok_def split: option.splits)

lemma fresh_log: "fresh rn \<Longrightarrow> fresh (fst (run_log e now answer rn))"
proof -
  assume f: "fresh rn"
  obtain rn' er where l: "run_log e now answer rn = (rn', er)" by fastforce
  then have "rn_subs rn' = []" using f
    by (cases rule: run_logE) (auto simp: fresh_def push_subs_def)
  moreover have "rn_subs (fst (run_log e now answer rn)) = rn_subs rn'" by (simp add: l)
  ultimately show ?thesis using f by (simp add: fresh_def)
qed

lemma register_Inr:
  "register rid s r = Inr r' \<Longrightarrow> rr_runs r rid = None
     \<and> rr_runs r' rid = Some (new_run rid s (rr_logs r rid) (rr_limit r) (rr_slots r))"
  by (auto simp: register_def store_log_def split: if_splits)

lemma log_or_drop_None:
  "log_or_drop e now answer rid r = (r', None) \<Longrightarrow> rr_runs r rid = Some rn \<Longrightarrow>
     rr_runs r' rid = Some (fst (run_log e now answer rn)) \<and> snd (run_log e now answer rn) = None"
  by (auto simp: log_or_drop_def runner_put_def split: prod.splits option.splits)

lemma reach_started_inv:
  assumes "slots_ok r" "rr_logs r rid = []" "runner_start parse w rid now answer r = (r', Inr i)"
    "rr_runs r' rid = Some rn"
  shows "run_inv parse rn"
proof -
  let ?e = "(wevent_of KindRunStarted)\<lparr>we_workflow := Some w\<rparr>"
  let ?n = "new_run rid zero_state [] (rr_limit r) (rr_slots r)"
  have v: "wf_valid parse w" using assms(3) wf_validate_None
    by (auto simp: runner_start_def split: option.splits)
  obtain r1 where r1: "register rid zero_state r = Inr r1" "log_or_drop ?e now answer rid r1 = (r', None)"
    using assms(3) by (auto simp: runner_start_def split: option.splits sum.splits prod.splits)
  have n: "rr_runs r rid = None" "rr_runs r1 rid = Some ?n" using register_Inr[OF r1(1)] assms(2) by auto
  have rn: "rn = fst (run_log ?e now answer ?n)" "snd (run_log ?e now answer ?n) = None"
    using log_or_drop_None[OF r1(2) n(2)] assms(4) by auto
  have l: "run_log ?e now answer ?n = (rn, None)" using rn by (simp add: prod_eq_iff)
  have f: "fresh rn" using fresh_log[OF fresh_new_run[OF assms(1) n(1)]] rn(1) by simp
  from l show ?thesis
  proof (cases rule: run_logE)
    case (appended e' s)
    have e': "we_kind e' = KindRunStarted" "we_workflow e' = Some w" "we_run_id e' = rid"
      using appended(2) by (simp_all add: new_run_def)
    have "rn_state ?n = zero_state" "rn_log ?n = []" by (simp_all add: new_run_def)
    then have s: "s = zero_state\<lparr>ws_run_id := rid, ws_workflow := w, ws_status := StatusRunning,
        ws_seq := we_seq e',
        ws_steps := fold (\<lambda>st. AList.update (st_id st) (step_state_of StatusPending)) (wf_steps w) [],
        ws_started := we_time e'\<rparr>"
      using appended(3) e' by (auto simp: apply_event_def apply_start_def split: if_splits)
    have g: "rn_state rn = s" "rn_log rn = [e']" "rn_id rn = rid" "rn_failure rn = None" "\<not> rn_stopped rn"
      using appended(4) by (simp_all add: new_run_def)
    have "step_status s sid = StatusPending \<or> step_status s sid = StatusOther []" for sid
      by (simp add: s step_status_def fold_update_map_of step_state_of_def)
    then have st: "step_status s sid \<noteq> StatusFailed" "step_status s sid \<noteq> StatusCancelled" for sid
      by (metis status.distinct)+
    show ?thesis
    proof (rule fresh_inv[OF f])
      show "wf_valid parse (ws_workflow (rn_state rn))" using v by (simp add: g s)
      show "log_inv rn" using appended(3) by (simp add: log_inv_def g fold_events_def new_run_def s)
      show "fail_inv rn" using st f by (simp add: fail_inv_def g fresh_def)
      show "rn_failure rn \<noteq> Some no_start" by (simp add: g)
      show "\<not> status_ended (ws_status (rn_state rn))" by (simp add: g s status_ended_def)
    qed
  qed simp
qed

lemma settle_steps_fields:
  "\<exists>f c. settle_steps sts rn = rn\<lparr>rn_failure := f, rn_cause := c\<rparr>
     \<and> (f = None \<longrightarrow> rn_failure rn = None \<and> (\<forall>st \<in> set sts. status_of rn (st_id st) \<noteq> StatusFailed))
     \<and> (f = Some no_start \<longrightarrow> rn_failure rn = Some no_start)
     \<and> (c = None \<longrightarrow> rn_cause rn = None \<and> (\<forall>st \<in> set sts. status_of rn (st_id st) \<noteq> StatusCancelled))"
proof (induction sts arbitrary: rn)
  case Nil
  show ?case by (rule exI[of _ "rn_failure rn"], rule exI[of _ "rn_cause rn"]) simp
next
  case (Cons st sts)
  let ?rn = "case status_of rn (st_id st) of
          StatusFailed \<Rightarrow>
            if rn_failure rn = None
            then rn\<lparr>rn_failure := Some (Msg (''step '' @ quote (st_id st) @ '': ''
                   @ (case map_of (ws_steps (rn_state rn)) (st_id st) of
                        None \<Rightarrow> [] | Some s \<Rightarrow> sp_err s)))\<rparr>
            else rn
        | StatusCancelled \<Rightarrow> run_cancel ErrCancelled rn
        | _ \<Rightarrow> rn"
  have q: "\<exists>f c. ?rn = rn\<lparr>rn_failure := f, rn_cause := c\<rparr>
     \<and> (f = None \<longrightarrow> rn_failure rn = None \<and> status_of rn (st_id st) \<noteq> StatusFailed)
     \<and> (f = Some no_start \<longrightarrow> rn_failure rn = Some no_start)
     \<and> (c = None \<longrightarrow> rn_cause rn = None \<and> status_of rn (st_id st) \<noteq> StatusCancelled)"
    by (rule exI[of _ "rn_failure ?rn"], rule exI[of _ "rn_cause ?rn"])
      (auto simp: run_cancel_def no_start_def split: status.split)
  define rn1 where "rn1 = ?rn"
  obtain f c where fc: "rn1 = rn\<lparr>rn_failure := f, rn_cause := c\<rparr>"
    "f = None \<longrightarrow> rn_failure rn = None \<and> status_of rn (st_id st) \<noteq> StatusFailed"
    "f = Some no_start \<longrightarrow> rn_failure rn = Some no_start"
    "c = None \<longrightarrow> rn_cause rn = None \<and> status_of rn (st_id st) \<noteq> StatusCancelled"
    using q unfolding rn1_def by blast
  obtain f' c' where fc': "settle_steps sts rn1 = rn1\<lparr>rn_failure := f', rn_cause := c'\<rparr>"
    "f' = None \<longrightarrow> rn_failure rn1 = None \<and> (\<forall>st \<in> set sts. status_of rn1 (st_id st) \<noteq> StatusFailed)"
    "f' = Some no_start \<longrightarrow> rn_failure rn1 = Some no_start"
    "c' = None \<longrightarrow> rn_cause rn1 = None \<and> (\<forall>st \<in> set sts. status_of rn1 (st_id st) \<noteq> StatusCancelled)"
    using Cons.IH[of rn1] by blast
  have "settle_steps (st # sts) rn = settle_steps sts rn1" by (simp add: rn1_def)
  then show ?case
    by (intro exI[of _ f'] exI[of _ c']) (use fc fc' in simp)
qed

lemma settle_fields:
  obtains f c b where "settle rn = rn\<lparr>rn_failure := f, rn_cause := c, rn_stopped := b\<rparr>"
    "f = None \<Longrightarrow> (\<forall>st \<in> set (wf_steps (ws_workflow (rn_state rn))). status_of rn (st_id st) \<noteq> StatusFailed)"
    "f = Some no_start \<Longrightarrow> rn_failure rn = Some no_start" "b \<Longrightarrow> rn_stopped rn \<or> f \<noteq> None"
    "c = None \<Longrightarrow> (\<forall>st \<in> set (wf_steps (ws_workflow (rn_state rn))). status_of rn (st_id st) \<noteq> StatusCancelled)"
proof -
  obtain f c where fc: "settle_steps (wf_steps (ws_workflow (rn_state rn))) rn = rn\<lparr>rn_failure := f, rn_cause := c\<rparr>"
    "f = None \<longrightarrow> rn_failure rn = None
       \<and> (\<forall>st \<in> set (wf_steps (ws_workflow (rn_state rn))). status_of rn (st_id st) \<noteq> StatusFailed)"
    "f = Some no_start \<longrightarrow> rn_failure rn = Some no_start"
    "c = None \<longrightarrow> rn_cause rn = None
       \<and> (\<forall>st \<in> set (wf_steps (ws_workflow (rn_state rn))). status_of rn (st_id st) \<noteq> StatusCancelled)"
    using settle_steps_fields by blast
  have "settle rn = rn\<lparr>rn_failure := f, rn_cause := c, rn_stopped := rn_stopped rn \<or> f \<noteq> None\<rparr>"
    by (cases f) (simp_all add: settle_def fc(1) run_stop_def Let_def)
  then show thesis by (rule that) (use fc(2-) in auto)
qed

lemma unknown_status: "ws_wf s \<Longrightarrow> sid \<notin> set (step_ids (ws_workflow s)) \<Longrightarrow> step_status s sid = StatusOther []"
  by (auto simp: ws_wf_def steps_ok_def step_status_def dom_def split: option.split)

lemma reach_resumed_inv:
  assumes "slots_ok r" "runner_resume rid now reads answer r = (r', None)" "rr_runs r' rid = Some rn"
    "wf_valid parse (ws_workflow (rn_state rn))" "list_all (\<lambda>e. we_run_id e = rid) (rr_logs r rid)"
  shows "run_inv parse rn"
proof -
  have none: "rr_runs r rid = None" using assms(2) by (auto simp: runner_resume_def split: if_splits)
  obtain s where s: "runner_fold rid reads r = (s, None)" "\<not> status_ended (ws_status s)"
    using assms(2) none by (auto simp: runner_resume_def split: prod.splits option.splits if_splits)
  then have es: "rr_logs r rid \<noteq> []" "fold_events (rr_logs r rid) = (s, None)"
    using none by (auto simp: runner_fold_def store_log_def split: option.splits if_splits)
  let ?n = "new_run rid s (rr_logs r rid) (rr_limit r) (rr_slots r)"
  obtain r1 where r1: "register rid s r = Inr r1" and res: "(let r = settle_in rid r1 in
        if ws_status s \<noteq> StatusPaused then log_or_drop (wevent_of KindRunResumed) now answer rid r else (r, None))
      = (r', None)"
    using assms(2) none s by (auto simp: runner_resume_def split: sum.splits)
  have "rr_runs r1 rid = Some ?n" using register_Inr[OF r1] by simp
  then have st: "rr_runs (settle_in rid r1) rid = Some (settle ?n)"
    by (simp add: settle_in_def runner_put_def)
  obtain f c b where f: "settle ?n = ?n\<lparr>rn_failure := f, rn_cause := c, rn_stopped := b\<rparr>"
    "f = None \<Longrightarrow> (\<forall>st \<in> set (wf_steps (ws_workflow s)). step_status s (st_id st) \<noteq> StatusFailed)"
    "f \<noteq> Some no_start" "b \<Longrightarrow> f \<noteq> None"
    "c = None \<Longrightarrow> (\<forall>st \<in> set (wf_steps (ws_workflow s)). step_status s (st_id st) \<noteq> StatusCancelled)"
  proof (rule settle_fields[of ?n])
    fix f c b assume "settle ?n = ?n\<lparr>rn_failure := f, rn_cause := c, rn_stopped := b\<rparr>"
      "f = None \<Longrightarrow> \<forall>st \<in> set (wf_steps (ws_workflow (rn_state ?n))). status_of ?n (st_id st) \<noteq> StatusFailed"
      "f = Some no_start \<Longrightarrow> rn_failure ?n = Some no_start" "b \<Longrightarrow> rn_stopped ?n \<or> f \<noteq> None"
      "c = None \<Longrightarrow> \<forall>st \<in> set (wf_steps (ws_workflow (rn_state ?n))). status_of ?n (st_id st) \<noteq> StatusCancelled"
    then show thesis by (intro that[where f = f and c = c and b = b]) (auto simp: new_run_def)
  qed
  have ok: "fold_ok (rr_logs r rid) s" using fold_events_ok[OF es(2)] .
  then have w: "ws_wf s" "ws_run_id s = rid" using es(1) assms(5) by (cases "rr_logs r rid"; auto simp: fold_ok_def)+
  have fr: "fresh (settle ?n)" using fresh_new_run[OF assms(1) none] unfolding f(1) by (simp add: fresh_def)
  have li: "log_inv (settle ?n)" using es w unfolding f(1) by (simp add: log_inv_def new_run_def)
  have known: "step_status s sid = StatusOther [] \<or> (\<exists>st \<in> set (wf_steps (ws_workflow s)). st_id st = sid)" for sid
    using unknown_status[OF w(1), of sid] by (auto simp: step_ids_def image_iff)
  have "f \<noteq> None" if "step_status s sid = StatusFailed" for sid using known[of sid] f(2) that by auto
  moreover have "c \<noteq> None" if "step_status s sid = StatusCancelled" for sid using known[of sid] f(5) that by auto
  ultimately have fi: "fail_inv (settle ?n)" unfolding fail_inv_def f(1)
    using f(4) by (simp add: new_run_def steps_ended_def)
  have base: "run_inv parse (settle ?n)" if "ws_workflow s = ws_workflow (rn_state rn)"
  proof (rule fresh_inv[OF fr _ li fi])
    show "wf_valid parse (ws_workflow (rn_state (settle ?n)))"
      using that assms(4) unfolding f(1) by (simp add: new_run_def)
    show "rn_failure (settle ?n) \<noteq> Some no_start" using f(3) unfolding f(1) by simp
    show "\<not> status_ended (ws_status (rn_state (settle ?n)))" using s(2) unfolding f(1) by (simp add: new_run_def)
  qed
  show ?thesis
  proof (cases "ws_status s = StatusPaused")
    case True
    then have "rn = settle ?n" using res st assms(3) by (simp add: Let_def)
    moreover from this have "ws_workflow s = ws_workflow (rn_state rn)" unfolding f(1) by (simp add: new_run_def)
    ultimately show ?thesis using base by simp
  next
    case False
    let ?l = "run_log (wevent_of KindRunResumed) now answer (settle ?n)"
    have "log_or_drop (wevent_of KindRunResumed) now answer rid (settle_in rid r1) = (r', None)"
      using res False by (simp add: Let_def)
    then have rn: "rn = fst ?l" "snd ?l = None" using log_or_drop_None[OF _ st] assms(3) by auto
    have "fail_inv (loop_at LoopTop (fst ?l))" by (rule fail_inv_log_loop[OF fi]) simp
    moreover have "rn_loop rn = LoopTop" using fresh_log[OF fr] rn(1) by (simp add: fresh_def)
    then have "loop_at LoopTop (fst ?l) = rn" unfolding rn(1) by (simp add: loop_at_def)
    ultimately have "fail_inv rn" by simp
    moreover have "\<not> status_ended (ws_status (rn_state rn))"
      using run_log_run_status(1)[OF _ rn(2)] rn(1) by (simp add: status_ended_def)
    ultimately show ?thesis
      using fresh_inv[OF _ assms(4)] fresh_log[OF fr] log_inv_log[OF li] rn(1) f(3) by (simp add: f(1)[THEN arg_cong[where f = rn_failure]])
  qed
qed

lemma run_reach_inv: "run_reach parse execute rn \<Longrightarrow> run_inv parse rn"
proof (induction rule: run_reach.induct)
  case (reach_started r rid w now answer r' i rn)
  then show ?case using reach_started_inv by blast
next
  case (reach_resumed r rid now reads answer r' rn)
  then show ?case using reach_resumed_inv by blast
next
  case (reach_step rn rn')
  then show ?case using run_inv_step by blast
qed

end
