(* ===== verification/Runner_Props.thy ===== *)
theory Runner_Props
  imports Runner_Safety
begin

text \<open>
  The properties of the workflow runner, over every state a run reaches. The example is a run of
  a workflow with one step on a Runner with one slot, followed to its end.
\<close>

section \<open>An example\<close>

declare One_nat_def [simp del]

definition demo_parse :: "string template_parse" where
  "demo_parse name text = Inr text"

definition demo_execute :: "string template_execute" where
  "demo_execute t c = Inr t"

definition one_step :: wstep where
  "one_step = \<lparr>st_id = ''a'', st_session = ''s'', st_after = [], st_prompt = ''go'', st_schema = []\<rparr>"

definition one_workflow :: workflow where
  "one_workflow = \<lparr>wf_name = ''one'', wf_input = [],
     wf_sessions = [\<lparr>ss_name = ''s'', ss_harness = [], ss_provider = [], ss_model = []\<rparr>],
     wf_steps = [one_step]\<rparr>"

text \<open>The run's events, and its states, written out.\<close>

definition one_log :: "wevent list" where
  "one_log =
     [(wevent_of KindRunStarted)\<lparr>we_workflow := Some one_workflow,
         we_run_id := ''r'', we_seq := 1, we_time := 5\<rparr>,
      (wevent_of KindSessionOpened)\<lparr>we_session := ''s'', we_session_id := ''h'',
         we_run_id := ''r'', we_seq := 2, we_time := 7\<rparr>,
      (step_event KindStepStarted one_step (Uuid 7))\<lparr>we_prompt := ''go'',
         we_run_id := ''r'', we_seq := 3, we_time := 8\<rparr>,
      (step_event KindStepEnded one_step (Uuid 7))\<lparr>we_result := Some result_zero, we_status := StatusDone,
         we_run_id := ''r'', we_seq := 4, we_time := 10\<rparr>,
      (ended_event StatusDone [])\<lparr>we_run_id := ''r'', we_seq := 5, we_time := 11\<rparr>]"

definition one_state :: "nat \<Rightarrow> wstate" where
  "one_state k = fst (fold_events (take k one_log))"

definition one_run :: "nat \<Rightarrow> step_pc \<Rightarrow> bool \<Rightarrow> wrun" where
  "one_run k pc opened =
     \<lparr>rn_id = ''r'', rn_state = one_state k, rn_subs = [],
      rn_sessions = (if opened then (\<lambda>_. None)(''s'' \<mapsto> ''h'') else (\<lambda>_. None)), rn_busy = {''s''},
      rn_inflight = {''a''}, rn_failure = None, rn_err = None, rn_finished = False, rn_cause = None,
      rn_stopped = False, rn_wake = False, rn_loop = LoopWait True False,
      rn_threads = (\<lambda>_. None)(''a'' \<mapsto> (one_step, pc)),
      rn_log = take k one_log, rn_limit = Some 1, rn_slots = [(''r'', ''a'')]\<rparr>"

lemma one_apply:
  "apply_event (one_state 1) (one_log ! 1) = Inr (one_state 2)"
  "apply_event (one_state 2) (one_log ! 2) = Inr (one_state 3)"
  "apply_event (one_state 3) (one_log ! 3) = Inr (one_state 4)"
  "apply_event (one_state 4) (one_log ! 4) = Inr (one_state 5)"
  by code_simp+

lemma one_state_facts:
  "ws_seq (one_state 1) = 1" "ws_seq (one_state 2) = 2" "ws_seq (one_state 3) = 3" "ws_seq (one_state 4) = 4"
  "map_of (ws_sessions (one_state 1)) ''s'' = None"
  "map_of (ws_steps (one_state 2)) ''a'' = Some (step_state_of StatusPending)"
  "ws_workflow (one_state 2) = one_workflow" "ws_workflow (one_state 1) = one_workflow" 
  "ws_status (one_state 1) = StatusRunning"
  by code_simp+

lemma one_prompt: "wf_prompt demo_parse demo_execute one_workflow ''a'' res = Inr ''go''"
proof -
  have "ancestors one_workflow ''a'' = []" "wf_step one_workflow ''a'' = Some one_step" by code_simp+
  then show ?thesis by (simp add: wf_prompt_def demo_parse_def demo_execute_def) (simp add: one_step_def)
qed

lemma run_log_ok:
  assumes "apply_event (rn_state rn)
      (e\<lparr>we_run_id := rn_id rn, we_seq := ws_seq (rn_state rn) + 1, we_time := now\<rparr>) = Inr s"
  shows "run_log e now None rn =
    (rn\<lparr>rn_state := s,
        rn_log := rn_log rn @ [e\<lparr>we_run_id := rn_id rn, we_seq := ws_seq (rn_state rn) + 1, we_time := now\<rparr>],
        rn_subs := push_subs (e\<lparr>we_run_id := rn_id rn, we_seq := ws_seq (rn_state rn) + 1, we_time := now\<rparr>)
          (filter (\<lambda>(past, q). \<not> wq_gone q) (rn_subs rn))\<rparr>, None)"
  using assms by (simp add: run_log_def Let_def)

text \<open>A run of a workflow with one step, on a Runner with one slot.\<close>

definition one_runner :: runner where
  "one_runner = fst (runner_start demo_parse one_workflow ''r'' 5 None (new_runner (\<lambda>_. []) 1))"

definition run0 :: wrun where
  "run0 = the (rr_runs one_runner ''r'')"

lemma one_started:
  "runner_start demo_parse one_workflow ''r'' 5 None (new_runner (\<lambda>_. []) 1) = (one_runner, Inr ''r'')"
  "rr_runs one_runner ''r'' = Some run0"
  and run0_record: "run0 = \<lparr>rn_id = ''r'', rn_state = one_state 1, rn_subs = [],
      rn_sessions = (\<lambda>_. None), rn_busy = {},
      rn_inflight = {}, rn_failure = None, rn_err = None, rn_finished = False, rn_cause = None,
      rn_stopped = False, rn_wake = False, rn_loop = LoopTop,
      rn_threads = (\<lambda>_. None),
      rn_log = take 1 one_log, rn_limit = Some 1, rn_slots = []\<rparr>"
proof -
  have v: "wf_validate demo_parse one_workflow = None" by code_simp
  have a: "apply_event zero_state (one_log ! 0) = Inr (one_state 1)" by code_simp
  have z: "ws_seq zero_state = 0" by code_simp
  let ?n = "new_run ''r'' zero_state [] (Some 1) []"
  have l: "run_log ((wevent_of KindRunStarted)\<lparr>we_workflow := Some one_workflow\<rparr>) 5 None ?n
      = (?n\<lparr>rn_state := one_state 1, rn_log := take 1 one_log\<rparr>, None)"
    by (subst run_log_ok[where s = "one_state 1"])
      (use a in \<open>simp_all add: new_run_def z one_log_def push_subs_def take_Suc One_nat_def\<close>)
  have s: "runner_start demo_parse one_workflow ''r'' 5 None (new_runner (\<lambda>_. []) 1)
      = (\<lparr>rr_runs = (\<lambda>_. None)(''r'' \<mapsto> ?n\<lparr>rn_state := one_state 1, rn_log := take 1 one_log\<rparr>),
          rr_closed = False, rr_logs = (\<lambda>_. []), rr_limit = Some 1, rr_slots = []\<rparr>, Inr ''r'')"
    by (simp add: runner_start_def v register_def new_runner_def log_or_drop_def
        store_log_def runner_put_def l[unfolded One_nat_def] One_nat_def)
  show "runner_start demo_parse one_workflow ''r'' 5 None (new_runner (\<lambda>_. []) 1) = (one_runner, Inr ''r'')"
    "rr_runs one_runner ''r'' = Some run0" by (simp_all add: one_runner_def run0_def s)
  show "run0 = \<lparr>rn_id = ''r'', rn_state = one_state 1, rn_subs = [],
      rn_sessions = (\<lambda>_. None), rn_busy = {},
      rn_inflight = {}, rn_failure = None, rn_err = None, rn_finished = False, rn_cause = None,
      rn_stopped = False, rn_wake = False, rn_loop = LoopTop,
      rn_threads = (\<lambda>_. None),
      rn_log = take 1 one_log, rn_limit = Some 1, rn_slots = []\<rparr>"
    by (simp add: run0_def one_runner_def s) (simp add: new_run_def)
qed

lemma run0_reach: "run_reach demo_parse demo_execute run0"
  by (rule reach_started[OF _ _ one_started(1) one_started(2)]) (simp_all add: slots_ok_def new_runner_def)

text \<open>
  The step's goroutine and the loop, with every call answered: the session opens, the exchange
  ends with a result. \<open>broken\<close> is what the Store answers the loop's appends.
\<close>

definition step_next :: "wrun \<Rightarrow> wrun" where
  "step_next rn =
     (case rn_threads rn ''a'' of
        None \<Rightarrow> rn
      | Some (st, pc) \<Rightarrow>
          (case pc of
             StepSession \<Rightarrow> step_session st rn
           | StepOpen known \<Rightarrow> step_open st known (Inr ''h'') rn
           | StepOpened h \<Rightarrow> step_opened st h 7 None rn
           | StepPlan \<Rightarrow> step_plan st rn
           | StepPrompt res \<Rightarrow> step_prompt demo_parse demo_execute st res rn
           | StepSend p \<Rightarrow> step_send st p (Inr (Uuid 7)) rn
           | StepLogStarted xid p \<Rightarrow> step_started st xid p 8 None rn
           | StepFollow xid \<Rightarrow> step_waited st xid result_zero None rn
           | StepEnd xid res er \<Rightarrow> step_end st xid res er 9 rn
           | StepLogEnd e er \<Rightarrow> step_log_end st e er 10 None rn
           | StepSlot \<Rightarrow> step_slot st rn
           | StepRelease \<Rightarrow> step_release st rn
           | StepLeave \<Rightarrow> step_leave st rn
           | _ \<Rightarrow> rn))"

definition loop_next :: "err option \<Rightarrow> wrun \<Rightarrow> wrun" where
  "loop_next broken rn =
     (case rn_loop rn of
        LoopTop \<Rightarrow> loop_top 6 rn
      | LoopWait d t \<Rightarrow> if rn_wake rn then loop_wake rn else rn
      | LoopLogDone \<Rightarrow> loop_log (ended_event StatusDone []) LoopFinish 11 broken rn
      | LoopExit \<Rightarrow> loop_exit rn
      | LoopLogCancelled \<Rightarrow> loop_log (ended_event StatusCancelled []) LoopFinish 11 broken rn
      | LoopFinish \<Rightarrow> loop_finish rn
      | _ \<Rightarrow> rn)"

lemma step_next_reach:
  assumes "run_reach demo_parse demo_execute rn"
  shows "run_reach demo_parse demo_execute (step_next rn)"
proof (cases "rn_threads rn ''a''")
  case (Some p)
  obtain st pc where p: "p = (st, pc)" by fastforce
  have "step_next rn = rn \<or> run_step demo_parse demo_execute rn (step_next rn)"
    using Some p by (cases pc) (auto simp: step_next_def intro: run_step.intros)
  then show ?thesis using assms reach_step by metis
qed (use assms in \<open>simp add: step_next_def\<close>)

lemma loop_next_reach:
  assumes "run_reach demo_parse demo_execute rn"
  shows "run_reach demo_parse demo_execute (loop_next broken rn)"
proof -
  have "loop_next broken rn = rn \<or> run_step demo_parse demo_execute rn (loop_next broken rn)"
    by (cases "rn_loop rn") (auto simp: loop_next_def intro: run_step.intros)
  then show ?thesis using assms reach_step by metis
qed

lemma one_ready:
  assumes "rn_state rn = one_state 1" "rn_inflight rn = {}" "rn_busy rn = {}"
  shows "ready rn = [one_step]"
proof -
  have "step_status (one_state 1) ''a'' = StatusPending" "wf_steps one_workflow = [one_step]"
    "st_id one_step = ''a''" "st_after one_step = []" by code_simp+
  then show ?thesis by (simp add: assms ready_def one_state_facts)
qed

lemma one_step_fields [simp]: "st_id one_step = ''a''" "st_session one_step = ''s''"
  by (simp_all add: one_step_def)

lemma run0_fields:
  "rn_id run0 = ''r''" "rn_cause run0 = None" "rn_failure run0 = None" "rn_state run0 = one_state 1" "rn_loop run0 = LoopTop"
  "rn_limit run0 = Some 1" "rn_slots run0 = []" "rn_inflight run0 = {}" "rn_busy run0 = {}"
  by (simp_all add: run0_record)

lemma one_launched: "loop_next None run0 = one_run 1 StepSession False"
proof -
  have d: "done_count (one_state 1) = 0" "length (wf_steps one_workflow) = 1" by code_simp+
  have "loop_next None run0 = loop_at (LoopWait True False) (launch [one_step] run0)"
    by (simp add: loop_next_def loop_top_def one_ready[OF run0_fields(4,8,9)] run0_fields one_state_facts d)
  also have "\<dots> = one_run 1 StepSession False"
    by (simp add: slot_free_def run0_fields) (simp add: run0_record loop_at_def slot_take_def thread_at_def one_run_def)
  finally show ?thesis .
qed

lemma one_run_fields [simp]:
  "rn_id (one_run k pc b) = ''r''" "rn_threads (one_run k pc b) = (\<lambda>_. None)(''a'' \<mapsto> (one_step, pc))"
  "rn_state (one_run k pc b) = one_state k" "rn_cause (one_run k pc b) = None" "rn_stopped (one_run k pc b) = False"
  "rn_sessions (one_run k pc b) = (if b then (\<lambda>_. None)(''s'' \<mapsto> ''h'') else (\<lambda>_. None))"
  "rn_log (one_run k pc b) = take k one_log" "rn_subs (one_run k pc b) = []"
  "thread_at one_step (Some pc') (one_run k pc b) = one_run k pc' b"
  "(one_run k pc False)\<lparr>rn_sessions := (\<lambda>_. None)(''s'' \<mapsto> ''h'')\<rparr> = one_run k pc True"
  "(one_run k pc b)\<lparr>rn_state := one_state k', rn_log := take k' one_log, rn_subs := []\<rparr> = one_run k' pc b"
  by (simp_all add: one_run_def thread_at_def)

lemma one_log_take:
  "take 1 one_log @ [(wevent_of KindSessionOpened)\<lparr>we_session := ''s'', we_session_id := ''h'',
         we_run_id := ''r'', we_seq := 2, we_time := 7\<rparr>] = take 2 one_log"
  "take 2 one_log @ [(step_event KindStepStarted one_step (Uuid 7))\<lparr>we_prompt := ''go'',
         we_run_id := ''r'', we_seq := 3, we_time := 8\<rparr>] = take 3 one_log"
  "take 3 one_log @ [(step_event KindStepEnded one_step (Uuid 7))\<lparr>we_result := Some result_zero, we_status := StatusDone,
         we_run_id := ''r'', we_seq := 4, we_time := 10\<rparr>] = take 4 one_log"
  "take 4 one_log @ [(ended_event StatusDone [])\<lparr>we_run_id := ''r'', we_seq := 5, we_time := 11\<rparr>] = one_log"
  "one_log ! 4 = (ended_event StatusDone [])\<lparr>we_run_id := ''r'', we_seq := 5, we_time := 11\<rparr>"
  "one_log ! 1 = (wevent_of KindSessionOpened)\<lparr>we_session := ''s'', we_session_id := ''h'',
         we_run_id := ''r'', we_seq := 2, we_time := 7\<rparr>"
  "one_log ! 2 = (step_event KindStepStarted one_step (Uuid 7))\<lparr>we_prompt := ''go'',
         we_run_id := ''r'', we_seq := 3, we_time := 8\<rparr>"
  "one_log ! 3 = (step_event KindStepEnded one_step (Uuid 7))\<lparr>we_result := Some result_zero, we_status := StatusDone,
         we_run_id := ''r'', we_seq := 4, we_time := 10\<rparr>"
  by (simp_all add: one_log_def numeral_eq_Suc One_nat_def)

lemma one_steps:
  "step_next (one_run 1 StepSession False) = one_run 1 (StepOpen []) False"
  "step_next (one_run 1 (StepOpen []) False) = one_run 1 (StepOpened ''h'') True"
  "step_next (one_run 1 (StepOpened ''h'') True) = one_run 2 StepPlan True"
  "step_next (one_run 2 StepPlan True) = one_run 2 (StepPrompt (results (one_state 2))) True"
  "step_next (one_run 2 (StepPrompt res) True) = one_run 2 (StepSend ''go'') True"
  "step_next (one_run 2 (StepSend ''go'') True) = one_run 2 (StepLogStarted (Uuid 7) ''go'') True"
  "step_next (one_run 2 (StepLogStarted (Uuid 7) ''go'') True) = one_run 3 (StepFollow (Uuid 7)) True"
  "step_next (one_run 3 (StepFollow (Uuid 7)) True) = one_run 3 (StepEnd (Uuid 7) (Some result_zero) None) True"
  "step_next (one_run 3 (StepEnd (Uuid 7) (Some result_zero) None) True) =
     one_run 3 (StepLogEnd ((step_event KindStepEnded one_step (Uuid 7))
       \<lparr>we_result := Some result_zero, we_status := StatusDone\<rparr>) None) True"
  "step_next (one_run 3 (StepLogEnd ((step_event KindStepEnded one_step (Uuid 7))
       \<lparr>we_result := Some result_zero, we_status := StatusDone\<rparr>) None) True) = one_run 4 StepSlot True"
proof -
  have l1: "run_log ((wevent_of KindSessionOpened)\<lparr>we_session := ''s'', we_session_id := ''h''\<rparr>) 7 None
      (one_run 1 (StepOpened ''h'') True) = (one_run 2 (StepOpened ''h'') True, None)"
    using one_apply(1) by (subst run_log_ok[where s = "one_state 2"])
      (simp_all add: one_state_facts one_log_take push_subs_def)
  have l2: "run_log ((step_event KindStepStarted one_step (Uuid 7))\<lparr>we_prompt := ''go''\<rparr>) 8 None
      (one_run 2 (StepLogStarted (Uuid 7) ''go'') True) = (one_run 3 (StepLogStarted (Uuid 7) ''go'') True, None)"
    using one_apply(2) by (subst run_log_ok[where s = "one_state 3"])
      (simp_all add: one_state_facts one_log_take push_subs_def)
  have l3: "run_log ((step_event KindStepEnded one_step (Uuid 7))
       \<lparr>we_result := Some result_zero, we_status := StatusDone\<rparr>) 10 None (one_run 3 pc True)
      = (one_run 4 pc True, None)" for pc
    using one_apply(3) by (subst run_log_ok[where s = "one_state 4"])
      (simp_all add: one_state_facts one_log_take push_subs_def)
  have p: "prior_exchange one_step (one_run 2 StepPlan True) = None"
    by (simp add: prior_exchange_def one_state_facts step_state_of_def)
  show "step_next (one_run 1 StepSession False) = one_run 1 (StepOpen []) False"
    by (simp add: step_next_def step_session_def one_state_facts)
  show "step_next (one_run 1 (StepOpen []) False) = one_run 1 (StepOpened ''h'') True"
    by (simp add: step_next_def step_open_def)
  show "step_next (one_run 1 (StepOpened ''h'') True) = one_run 2 StepPlan True"
    by (simp add: step_next_def step_opened_def l1)
  show "step_next (one_run 2 StepPlan True) = one_run 2 (StepPrompt (results (one_state 2))) True"
    by (simp add: step_next_def step_plan_def p)
  show "step_next (one_run 2 (StepPrompt res) True) = one_run 2 (StepSend ''go'') True"
    by (simp add: step_next_def step_prompt_def one_state_facts one_prompt)
  show "step_next (one_run 2 (StepSend ''go'') True) = one_run 2 (StepLogStarted (Uuid 7) ''go'') True"
    by (simp add: step_next_def step_send_def)
  show "step_next (one_run 2 (StepLogStarted (Uuid 7) ''go'') True) = one_run 3 (StepFollow (Uuid 7)) True"
    by (simp add: step_next_def step_started_def l2)
  show "step_next (one_run 3 (StepFollow (Uuid 7)) True) = one_run 3 (StepEnd (Uuid 7) (Some result_zero) None) True"
    by (simp add: step_next_def step_waited_def)
  show "step_next (one_run 3 (StepEnd (Uuid 7) (Some result_zero) None) True) =
     one_run 3 (StepLogEnd ((step_event KindStepEnded one_step (Uuid 7))
       \<lparr>we_result := Some result_zero, we_status := StatusDone\<rparr>) None) True"
    by (simp add: step_next_def step_end_def interrupted_def steps_ended_def Let_def)
  show "step_next (one_run 3 (StepLogEnd ((step_event KindStepEnded one_step (Uuid 7))
       \<lparr>we_result := Some result_zero, we_status := StatusDone\<rparr>) None) True) = one_run 4 StepSlot True"
    by (simp add: step_next_def step_log_end_def l3)
qed


text \<open>The run while its step's exchange runs; with the step ended; and left by its loop.\<close>

definition run_following :: wrun where
  "run_following = step_next (step_next (step_next (step_next (step_next (step_next (step_next
     (loop_next None run0)))))))"

definition run_ending :: wrun where
  "run_ending = step_next (step_next (step_next (step_next run_following)))"

definition run_left :: wrun where
  "run_left = loop_next None (loop_next None (loop_next None (loop_next None run_ending)))"

text \<open>A cancelled run whose end could not be logged.\<close>

definition run_unlogged :: wrun where
  "run_unlogged = (let next = loop_next (Some (Msg ''disk full''))
     in next (next (next (next (run_cancel ErrCancelled run0)))))"

lemma demo_reach:
  "run_reach demo_parse demo_execute run_following" "run_reach demo_parse demo_execute run_left"
  "run_reach demo_parse demo_execute run_unlogged"
proof -
  show f: "run_reach demo_parse demo_execute run_following"
    unfolding run_following_def by (intro step_next_reach loop_next_reach run0_reach)
  show "run_reach demo_parse demo_execute run_left"
    unfolding run_left_def run_ending_def by (intro loop_next_reach step_next_reach f)
  show "run_reach demo_parse demo_execute run_unlogged"
    unfolding run_unlogged_def Let_def by (intro loop_next_reach reach_step[OF run0_reach env_cancel])
qed

lemma run_following_record: "run_following = one_run 3 (StepFollow (Uuid 7)) True"
  by (simp add: run_following_def one_launched one_steps)

lemma run_ending_record: "run_ending = (one_run 4 StepRelease True)\<lparr>rn_slots := [], rn_wake := True\<rparr>"
  by (simp add: run_ending_def run_following_record one_steps)
    (simp add: one_run_def step_next_def step_slot_def slot_release_def run_signal_def thread_at_def)

lemma run_left_facts: "rn_loop run_left = LoopGone" "rn_inflight run_left = {''a''}"
    "rn_state run_left = one_state 5" "rn_finished run_left"
    "rn_threads run_left = (\<lambda>_. None)(''a'' \<mapsto> (one_step, StepRelease))"
proof -
  let ?r = "run_ending\<lparr>rn_wake := False, rn_loop := LoopLogDone\<rparr>"
  have d: "done_count (one_state 4) = 1" "ws_workflow (one_state 4) = one_workflow"
    "length (wf_steps one_workflow) = 1" by code_simp+
  have a: "loop_next None (loop_next None run_ending) = ?r"
    by (simp add: run_ending_record loop_next_def) 
       (simp add: one_run_def loop_wake_def loop_at_def loop_top_def d)
  have l: "run_log (ended_event StatusDone []) 11 None ?r
      = (?r\<lparr>rn_state := one_state 5, rn_log := one_log\<rparr>, None)"
    using one_apply(4) by (subst run_log_ok[where s = "one_state 5"])
      (simp_all add: run_ending_record one_state_facts push_subs_def one_log_take)
  have b: "loop_next None ?r = ?r\<lparr>rn_state := one_state 5, rn_log := one_log, rn_loop := LoopFinish\<rparr>"
    using l by (simp add: loop_next_def loop_log_def loop_at_def)
  show "rn_loop run_left = LoopGone" "rn_inflight run_left = {''a''}" "rn_state run_left = one_state 5"
    "rn_finished run_left" "rn_threads run_left = (\<lambda>_. None)(''a'' \<mapsto> (one_step, StepRelease))"
    unfolding run_left_def a b
    by (simp_all add: loop_next_def loop_finish_def loop_at_def run_stop_def run_cancel_def Let_def
        run_ending_record one_run_def)
qed

lemma run_unlogged_facts: "rn_loop run_unlogged = LoopGone" "rn_err run_unlogged = None"
    "ws_status (rn_state run_unlogged) = StatusRunning"
proof -
  let ?b = "Some (Msg ''disk full'')"
  let ?r = "run0\<lparr>rn_cause := Some ErrCancelled\<rparr>"
  have "case apply_event (one_state 1) ((ended_event StatusCancelled [])
      \<lparr>we_run_id := ''r'', we_seq := 2, we_time := 11\<rparr>) of Inl _ \<Rightarrow> False | Inr _ \<Rightarrow> True" by code_simp
  then have l: "fst (run_log (ended_event StatusCancelled []) 11 ?b (?r\<lparr>rn_loop := LoopLogCancelled\<rparr>))
      = ?r\<lparr>rn_loop := LoopLogCancelled\<rparr>"
    by (simp add: run_log_def Let_def run0_fields one_state_facts run_cancel_def split: sum.splits)
  have i: "\<not> interrupted (?r\<lparr>rn_loop := pc\<rparr>)" for pc by (simp add: interrupted_def)
  have e: "loop_next ?b (run_cancel ErrCancelled run0) = ?r\<lparr>rn_loop := LoopExit\<rparr>"
    "loop_next ?b (?r\<lparr>rn_loop := LoopExit\<rparr>) = ?r\<lparr>rn_loop := LoopLogCancelled\<rparr>"
    "loop_next ?b (?r\<lparr>rn_loop := LoopLogCancelled\<rparr>) = ?r\<lparr>rn_loop := LoopFinish\<rparr>"
    "loop_next ?b (?r\<lparr>rn_loop := LoopFinish\<rparr>) = loop_finish (?r\<lparr>rn_loop := LoopFinish\<rparr>)"
    by (simp_all add: run_cancel_def run0_fields loop_next_def loop_top_def loop_at_def loop_exit_def i loop_log_def l)
  have u: "run_unlogged = loop_finish (?r\<lparr>rn_loop := LoopFinish\<rparr>)"
    by (simp add: run_unlogged_def e)
  show "rn_loop run_unlogged = LoopGone" "rn_err run_unlogged = None"
    "ws_status (rn_state run_unlogged) = StatusRunning"
    unfolding u by (simp_all add: loop_finish_def loop_at_def run_stop_def interrupted_def run_cancel_def Let_def
        run0_record one_state_facts)
qed

definition run_subscribed :: wrun where
  "run_subscribed = run_subscribe 0 run0"

definition run_crowded :: wrun where
  "run_crowded = loop_top 6 (other_takes (''q'', ''z'') run0)"

lemma demo_reach':
  "run_reach demo_parse demo_execute run_subscribed" "run_reach demo_parse demo_execute run_crowded"
proof -
  show "run_reach demo_parse demo_execute run_subscribed"
    unfolding run_subscribed_def by (intro reach_step[OF run0_reach env_subscribe])
  have "run_reach demo_parse demo_execute (other_takes (''q'', ''z'') run0)"
    by (intro reach_step[OF run0_reach env_takes]) (simp_all add: run0_fields slot_free_def)
  then show "run_reach demo_parse demo_execute run_crowded"
    unfolding run_crowded_def
    by (rule reach_step) (rule loop_step_top, simp add: other_takes_def run0_fields)
qed

section \<open>Properties\<close>



text \<open>
  C2: a step has a goroutine only once every step it comes after is done; no two goroutines hold
  one session; and while a goroutine may still log its step's end, the log has none.
\<close>

theorem run_schedule:
  assumes "run_reach parse execute rn" "rn_threads rn sid = Some (st, pc)"
    "rn_threads rn sid' = Some (st', pc')"
  shows "st_id st = sid \<and> st \<in> set (wf_steps (ws_workflow (rn_state rn)))
    \<and> list_all (\<lambda>dep. status_of rn dep = StatusDone) (st_after st)
    \<and> (st_session st = st_session st' \<longrightarrow> sid = sid')
    \<and> (active pc \<longrightarrow> status_of rn sid = StatusPending \<or> status_of rn sid = StatusRunning)"
proof -
  have n: "n_threads rn" using run_reach_inv[OF assms(1)] by (simp add: run_inv_def)
  have "st_session st = st_session st' \<longrightarrow> sid = sid'" using n assms(2,3) unfolding n_threads_def by blast
  moreover have "st_id st = sid" "st \<in> set (wf_steps (ws_workflow (rn_state rn)))" "thread_ok rn st pc"
    using n assms(2) by (auto simp: n_threads_def)
  ultimately show ?thesis by (auto simp: thread_ok_def list_all_iff)
qed

theorem run_schedule_witness: "status_of run_following ''a'' = StatusPending \<or> status_of run_following ''a'' = StatusRunning"
proof -
  have t: "rn_threads run_following ''a'' = Some (one_step, StepFollow (Uuid 7))"
    by (simp add: run_following_record)
  show ?thesis using run_schedule[OF demo_reach(1) t t] by simp
qed



text \<open>
  C6: a run of a valid workflow never fails for want of a step that can start: while it has not
  stopped, some step is in flight or can start until every step is done.
\<close>

theorem run_never_stuck:
  assumes "run_reach parse execute rn"
  shows "rn_failure rn \<noteq> Some no_start"
  using run_reach_inv[OF assms] by (simp add: run_inv_def)

theorem run_never_stuck_witness: "rn_failure run_unlogged \<noteq> Some no_start"
  using run_never_stuck[OF demo_reach(3)] .

text \<open>
  C7: a loop that waits with nothing in flight can always go on, by a wake, its timer or the end
  of its context, unless every slot is taken, all by other runs: no wake is lost.
\<close>

theorem run_no_lost_wake:
  assumes "run_reach parse execute rn" "rn_loop rn = LoopWait d t" "rn_inflight rn = {}"
  shows "(\<exists>rn'. run_step parse execute rn rn' \<and> rn_loop rn' = LoopTop)
    \<or> (\<exists>n. rn_limit rn = Some n \<and> length (rn_slots rn) = n \<and> list_all (\<lambda>tok. fst tok \<noteq> rn_id rn) (rn_slots rn))"
proof -
  have i: "n_threads rn" "wait_inv rn" "slot_inv rn" using run_reach_inv[OF assms(1)] by (auto simp: run_inv_def)
  have step: "\<exists>rn'. run_step parse execute rn rn' \<and> rn_loop rn' = LoopTop" if "rn_wake rn \<or> t"
  proof (cases "rn_wake rn")
    case True
    then show ?thesis using loop_step_wake[of rn d t parse execute] assms(2)
      by (intro exI[of _ "loop_wake rn"]) (simp add: loop_wake_def loop_at_def)
  next
    case False
    then show ?thesis using loop_step_timer[of rn d parse execute] assms(2) that
      by (intro exI[of _ "loop_at LoopTop rn"]) (simp add: loop_at_def)
  qed
  show ?thesis
  proof (cases "rn_wake rn \<or> t")
    case False
    then have "\<not> slot_free rn" using i(2) assms(2,3) by (simp add: wait_inv_def)
    then obtain n where n: "rn_limit rn = Some n" "length (rn_slots rn) = n"
      using i(3) by (auto simp: slot_free_def slot_inv_def split: option.splits)
    have "dom (rn_threads rn) = {}" using i(1) assms(3) by (simp add: n_threads_def)
    then have "count_list (rn_slots rn) (rn_id rn, sid) = 0" for sid
      using i(3) n(1) by (auto simp: slot_inv_def holds_slot_def)
    then have "list_all (\<lambda>tok. fst tok \<noteq> rn_id rn) (rn_slots rn)"
      by (force simp: list_all_iff count_list_0_iff)
    then show ?thesis using n by blast
  qed (use step in blast)
qed

theorem run_no_lost_wake_witness:
  "(\<exists>rn'. run_step demo_parse demo_execute run_crowded rn' \<and> rn_loop rn' = LoopTop)
    \<or> (\<exists>n. rn_limit run_crowded = Some n \<and> length (rn_slots run_crowded) = n
         \<and> list_all (\<lambda>tok. fst tok \<noteq> rn_id run_crowded) (rn_slots run_crowded))"
proof (rule run_no_lost_wake[OF demo_reach'(2)])
  let ?r = "other_takes (''q'', ''z'') run0"
  have d: "done_count (one_state 1) \<noteq> length (wf_steps one_workflow)" by code_simp
  have r: "ready ?r = [one_step]"
    by (rule one_ready) (simp_all add: other_takes_def run0_record)
  have c: "run_crowded = loop_at (LoopWait True False) ?r"
    by (simp add: run_crowded_def loop_top_def r)
      (simp add: other_takes_def slot_take_def run0_record one_state_facts d slot_free_def)
  show "rn_loop run_crowded = LoopWait True False" "rn_inflight run_crowded = {}"
    unfolding c by (simp_all add: loop_at_def other_takes_def run0_fields)
qed

text \<open>
  C8: a run ends done only when every step is done, failed only once a step's failure ended it,
  and cancelled only when Cancel was what ended its context; and when its loop is gone it has
  ended, or has the reason it stopped without an end, or was cancelled.
\<close>

theorem run_end_has_cause:
  assumes "run_reach parse execute rn"
  shows "(case ws_status (rn_state rn) of
        StatusDone \<Rightarrow> steps_done rn
      | StatusFailed \<Rightarrow> rn_failure rn \<noteq> None
      | StatusCancelled \<Rightarrow> cancelled rn
      | _ \<Rightarrow> True)
    \<and> (rn_loop rn = LoopGone \<longrightarrow>
         status_ended (ws_status (rn_state rn)) \<or> rn_err rn \<noteq> None \<or> cancelled rn)"
  using run_reach_inv[OF assms] by (auto simp: run_inv_def loop_inv_def end_cause_def)

theorem run_end_has_cause_witness: "steps_done run_left"
proof -
  have "ws_status (one_state 5) = StatusDone" by code_simp
  then show ?thesis using run_end_has_cause[OF demo_reach(2)] run_left_facts by simp
qed

text \<open>
  C9: a subscriber whose context lasts has received or has queued every logged event from the one
  it subscribed after, each once and in order, among the live events; and its channel closes when
  the run is finished.
\<close>

theorem run_subscriber_complete:
  assumes "run_reach parse execute rn" "(past, q) \<in> set (rn_subs rn)" "\<not> q_cancelled q"
  shows "filter logged (q_out q @ q_held q) = drop past (rn_log rn) \<and> q_closed q = rn_finished rn"
proof -
  have "sub_ok (rn_log rn) (rn_finished rn) (past, q)"
    using run_reach_inv[OF assms(1)] assms(2) by (auto simp: run_inv_def subs_inv_def list_all_iff)
  then show ?thesis using assms(3) by (simp add: sub_ok_def)
qed

theorem run_subscriber_complete_witness:
  "\<exists>q. (0, q) \<in> set (rn_subs run_subscribed) \<and> filter logged (q_out q @ q_held q) = rn_log run_subscribed"
proof -
  let ?q = "wq_push (filter (\<lambda>e. we_seq e > 0) (rn_log run0)) new_queue"
  have m: "(0, ?q) \<in> set (rn_subs run_subscribed)" "\<not> q_cancelled ?q"
    by (simp_all add: run_subscribed_def run_subscribe_def run0_record wq_push_def new_queue_def q_signal_def)
  then show ?thesis using run_subscriber_complete[OF demo_reach'(1) m] by auto
qed

text \<open>
  C10: once a run is finished, which forgets its map of sessions, no goroutine it still has comes
  to write to that map, to log or to deliver an event.
\<close>

theorem run_finished_quiet:
  assumes "run_reach parse execute rn" "rn_finished rn" "rn_threads rn sid = Some (st, pc)"
  shows "\<not> active pc"
proof
  assume a: "active pc"
  have i: "n_threads rn" "loop_inv rn" using run_reach_inv[OF assms(1)] by (auto simp: run_inv_def)
  then show False using active_not_done[OF i(1) assms(3) a] assms(2) by (auto simp: loop_inv_def)
qed

theorem run_finished_quiet_witness: "\<not> active StepRelease"
proof -
  have "rn_finished run_left" "rn_threads run_left ''a'' = Some (one_step, StepRelease)"
    using run_left_facts by simp_all
  then show ?thesis using run_finished_quiet[OF demo_reach(2)] by blast
qed


text \<open>
  Cancel ends a run that no Runner is running: its log then folds to a cancelled run, and
  another Cancel, or a Resume, finds it ended.
\<close>

theorem cancel_idle_run:
  assumes "rr_runs r rid = None" "list_all (\<lambda>e. we_run_id e = rid) (rr_logs r rid)"
    "runner_cancel rid now None None r = (r', None)"
  shows "\<exists>s. runner_fold rid None r' = (s, None) \<and> ws_status s = StatusCancelled
    \<and> snd (runner_cancel rid now' None None r') = Some (for_run ErrRunEnded rid)
    \<and> runner_resume rid now' None None r' = (r', Some (for_run ErrRunEnded rid))"
proof -
  obtain s where s: "runner_fold rid None r = (s, None)" "\<not> status_ended (ws_status s)"
    using assms(1,3) by (auto simp: runner_cancel_def split: prod.splits option.splits if_splits)
  let ?e = "(ended_event StatusCancelled [])\<lparr>we_run_id := rid, we_seq := ws_seq s + 1, we_time := now\<rparr>"
  have r': "r' = r\<lparr>rr_logs := (rr_logs r)(rid := rr_logs r rid @ [?e])\<rparr>"
    using assms(1,3) s by (simp add: runner_cancel_def)
  have f: "rr_logs r rid \<noteq> []" "fold_events (rr_logs r rid) = (s, None)"
    using s(1) assms(1) by (auto simp: runner_fold_def store_log_def split: if_splits)
  have k: "we_kind ?e = KindRunEnded" "we_status ?e = StatusCancelled" by (simp_all add: ended_event_def wevent_of_def)
  have ok: "fold_ok (rr_logs r rid) s" using fold_events_ok[OF f(2)] .
  then have "ws_seq s \<noteq> 0" "ws_run_id s = rid"
    using f(1) assms(2) by (cases "rr_logs r rid"; auto simp: fold_ok_def)+
  then obtain s' where s': "apply_event s ?e = Inr s'" "ws_status s' = StatusCancelled"
    using s(2) k by (auto simp: apply_event_def apply_kind_def logged_def status_ended_def)
  then have "runner_fold rid None r' = (s', None)"
    using f assms(1) by (simp add: runner_fold_def store_log_def r' fold_events_snoc)
  moreover have "rr_runs r' rid = None" using assms(1) by (simp add: r')
  ultimately show ?thesis using s'(2) by (simp add: runner_cancel_def runner_resume_def status_ended_def)
qed

theorem cancel_idle_run_witness:
  "\<exists>r. snd (runner_cancel ''r'' 9 None None r) = Some (for_run ErrRunEnded ''r'')"
proof -
  let ?r = "new_runner (\<lambda>_. demo_log) 0"
  obtain r' er where r': "runner_cancel ''r'' 8 None None ?r = (r', er)" by fastforce
  have "rr_runs ?r ''r'' = None" "rr_logs ?r ''r'' = demo_log" by (simp_all add: new_runner_def)
  moreover have "list_all (\<lambda>e. we_run_id e = ''r'') demo_log" by code_simp
  moreover have "ws_status demo_state = StatusRunning" "demo_log \<noteq> []" by code_simp+
  then have "er = None" using r' demo_fold
    by (simp add: runner_cancel_def runner_fold_def store_log_def new_runner_def status_ended_def)
  ultimately show ?thesis
    using cancel_idle_run[of ?r "''r''" 8 r' 9] r' by auto
qed

section \<open>What the model shows of the code's comments\<close>

text \<open>
  The comment on release has the loop finish only once nothing is in flight, so that Wait and
  Shutdown never return ahead of a closing harness. A run whose last step has logged its end
  finishes while the step's goroutine has yet to close the session.
\<close>

theorem loop_gone_before_release:
  "\<exists>rn. run_reach demo_parse demo_execute rn \<and> rn_loop rn = LoopGone \<and> rn_inflight rn \<noteq> {}
     \<and> rn_threads rn ''a'' = Some (one_step, StepRelease)"
  using demo_reach(2) run_left_facts by (intro exI[of _ run_left]) simp

text \<open>
  A run's \<open>err\<close> is meant to say why it stopped without logging an end. A cancelled run whose
  last append fails has none.
\<close>

theorem cancelled_run_without_end:
  "\<exists>rn. run_reach demo_parse demo_execute rn \<and> rn_loop rn = LoopGone
     \<and> ws_status (rn_state rn) = StatusRunning \<and> rn_err rn = None"
  using demo_reach(3) run_unlogged_facts by blast

text \<open>
  Subscribe promises the events with a Seq above \<open>after\<close>. A subscriber that asks for those past
  the log's end is sent the next ones, though their Seq is not above it.
\<close>

theorem subscriber_before_after:
  "\<exists>e. e \<in> set (q_held (snd (last (rn_subs (step_opened one_step ''h'' 7 None
        (run_subscribe 100 (one_run 1 (StepOpened ''h'') True))))))) \<and> we_seq e = 2"
proof -
  have l: "snd (last (rn_subs (step_opened one_step ''h'' 7 None
      (run_subscribe 100 (one_run 1 (StepOpened ''h'') True)))))
    = wq_push [one_log ! 1] (wq_push [] new_queue)"
    using one_apply(1)
    by (simp add: step_opened_alt run_subscribe_def run_log_def one_state_facts one_log_take push_subs_def
        wq_gone_def wq_push_def new_queue_def q_signal_def Let_def)
      (simp add: one_run_def one_log_def One_nat_def)
  show ?thesis unfolding l by (simp add: wq_push_def new_queue_def q_signal_def q_held_def one_log_take)
qed

end
