(* ===== verification/Stdio.thy ===== *)
theory Stdio
  imports Harness Event_Queues "HOL-Library.AList" "HOL-Library.Word"
begin

text \<open>
  The line-protocol driver (harness/stdio). A Process moves lines between the harness and the
  driver (process.go); a Client gives them their meaning through a Codec (codec.go): it hands
  each response to the call that waits for it (calls.go), has the harness's requests answered,
  and queues everything else as events (client.go).

  The Client's state holds its open calls, its events, the lines it has written and where its
  reader and its answering goroutines stand. Each critical section, channel operation, write and
  call to the codec or the handler is one step. What the harness writes, and how a write ends,
  are arguments of the steps.
\<close>

section \<open>The codec\<close>

record response =
  rp_id :: string
  rp_err :: "err option"
  rp_data :: string

record 'b hrequest =
  hq_id :: string
  hq_body :: 'b

record 'b line_frame =
  fr_response :: "response option"
  fr_request :: "'b hrequest option"
  fr_events :: "event list"

definition empty_frame :: "'b line_frame" where
  "empty_frame = \<lparr>fr_response = None, fr_request = None, fr_events = []\<rparr>"

abbreviation LF :: char where
  "LF \<equiv> CHR 0x0A"

text \<open>What the Client relies on: a codec renders a command, or an answer, as one line.\<close>

locale codec =
  fixes encode :: "string \<Rightarrow> 'c \<Rightarrow> 'k \<Rightarrow> (err + string) \<times> 'k"
    and reply :: "'b hrequest \<Rightarrow> 'a \<Rightarrow> err + string"
  assumes encode_line: "encode i cmd k = (Inr line, k') \<Longrightarrow> LF \<notin> set line \<and> line \<noteq> [] \<and> last line \<noteq> CHR 0x0D"
    and reply_line: "reply req answer = Inr line \<Longrightarrow> LF \<notin> set line \<and> line \<noteq> [] \<and> last line \<noteq> CHR 0x0D"

section \<open>Process: lines and the tail of stderr\<close>

definition write_line :: "string \<Rightarrow> string" where
  "write_line line = line @ [LF]"

text \<open>bytes.TrimRight(line, "\\r\\n").\<close>

definition trim_eol :: "string \<Rightarrow> string" where
  "trim_eol line = rev (dropWhile (\<lambda>c. c = CHR 0x0D \<or> c = LF) (rev line))"

text \<open>ReadBytes('\\n') until the end of the output: the lines that are not empty.\<close>

fun read_lines_from :: "string \<Rightarrow> string \<Rightarrow> string list" where
  "read_lines_from acc [] = (if trim_eol acc = [] then [] else [trim_eol acc])"
| "read_lines_from acc (c # s) =
     (if c = LF
      then (if trim_eol (acc @ [c]) = [] then [] else [trim_eol (acc @ [c])]) @ read_lines_from [] s
      else read_lines_from (acc @ [c]) s)"

definition read_lines :: "string \<Rightarrow> string list" where
  "read_lines s = read_lines_from [] s"

definition stderr_tail :: nat where
  "stderr_tail = 65536"

text \<open>tail.Write, and tail.String.\<close>

definition tail_write :: "nat \<Rightarrow> string \<Rightarrow> string \<Rightarrow> string" where
  "tail_write bound b buf =
     (let buf = buf @ b; over = length buf - bound in if over > 0 then drop over buf else buf)"

definition tail_text :: "string \<Rightarrow> string" where
  "tail_text buf = trim_space buf"

text \<open>wait: the exit error, from what cmd.Wait answers and the end of stderr.\<close>

definition exit_error :: "string \<Rightarrow> err option \<Rightarrow> string \<Rightarrow> err option" where
  "exit_error name waited buf =
     (case waited of
        None \<Rightarrow> None
      | Some e \<Rightarrow> Some (Errorf (name @ '': exited: '' @ err_text e @ '': '' @ tail_text buf) [e]))"

text \<open>Client.Err: nil only when Close ended the process.\<close>

definition client_err :: "string \<Rightarrow> err option \<Rightarrow> err option \<Rightarrow> err option" where
  "client_err name exited cause =
     (if (case cause of None \<Rightarrow> False | Some c \<Rightarrow> err_is c ErrClosed) then None
      else case exited of
             Some e \<Rightarrow> Some e
           | None \<Rightarrow> (case cause of Some c \<Rightarrow> Some c | None \<Rightarrow> Some (Msg (name @ '': exited''))))"

section \<open>Calls\<close>

text \<open>
  A call, once registered: its id, the channel its response arrives on, and its caller. \<open>CallWrite\<close>
  has yet to write its line, \<open>CallOpen\<close> waits, \<open>CallLeft\<close> gave up and \<open>CallGot\<close> has its response.
\<close>

datatype call_pc = CallWrite string | CallOpen | CallLeft err | CallGot response

record call =
  ca_id :: string
  ca_chan :: "response list"
  ca_pc :: call_pc

datatype 'b reader_pc =
    ReaderRead
  | ReaderResolve "'b line_frame"
  | ReaderDeliver nat response "'b line_frame"
  | ReaderAnswer "'b line_frame"
  | ReaderPush "'b line_frame"
  | ReaderFail
  | ReaderStop
  | ReaderWait
  | ReaderDone

datatype 'b answer_pc = AnswerHandle "'b hrequest" | AnswerWrite "'b hrequest" string | AnswerReport err | AnswerDone

record ('k, 'b) client =
  cl_name :: string
  cl_issued :: nat
  cl_calls :: "call list"
  cl_pending :: "(string \<times> nat) list"
  cl_err :: "err option"
  cl_events :: "event equeue"
  cl_written :: "string list"
  cl_reader :: "'b reader_pc"
  cl_answers :: "'b answer_pc list"
  cl_stopped :: bool
  cl_codec :: 'k

definition new_client :: "string \<Rightarrow> 'k \<Rightarrow> ('k, 'b) client" where
  "new_client name k =
     \<lparr>cl_name = name, cl_issued = 0, cl_calls = [], cl_pending = [], cl_err = None,
      cl_events = new_queue, cl_written = [], cl_reader = ReaderRead, cl_answers = [],
      cl_stopped = False, cl_codec = k\<rparr>"

text \<open>strconv.FormatInt of the counter, an int64 that wraps.\<close>

definition call_id :: "nat \<Rightarrow> string" where
  "call_id n = int_text (sint (word_of_nat n :: 64 word))"

definition call_at :: "nat \<Rightarrow> (call \<Rightarrow> call) \<Rightarrow> ('k, 'b) client \<Rightarrow> ('k, 'b) client" where
  "call_at i f cl = cl\<lparr>cl_calls := (cl_calls cl)[i := f (cl_calls cl ! i)]\<rparr>"

definition calls_forget :: "string \<Rightarrow> ('k, 'b) client \<Rightarrow> ('k, 'b) client" where
  "calls_forget i cl = cl\<lparr>cl_pending := AList.delete i (cl_pending cl)\<rparr>"

text \<open>register: the call with its channel, unless the calls have failed.\<close>

definition call_register :: "string \<Rightarrow> string \<Rightarrow> ('k, 'b) client \<Rightarrow> ('k, 'b) client \<times> (err + nat)" where
  "call_register i line cl =
     (case cl_err cl of
        Some e \<Rightarrow> (cl, Inl e)
      | None \<Rightarrow>
          (cl\<lparr>cl_calls := cl_calls cl @ [\<lparr>ca_id = i, ca_chan = [], ca_pc = CallWrite line\<rparr>],
              cl_pending := AList.update i (length (cl_calls cl)) (cl_pending cl)\<rparr>,
           Inr (length (cl_calls cl))))"

text \<open>send, up to its write: the id, the encoding and the registration.\<close>

definition call_start :: "(string \<Rightarrow> 'c \<Rightarrow> 'k \<Rightarrow> (err + string) \<times> 'k) \<Rightarrow> 'c \<Rightarrow> ('k, 'b) client \<Rightarrow> ('k, 'b) client \<times> (err + nat)" where
  "call_start encode cmd cl =
     (let n = cl_issued cl + 1;
          (rendered, k) = encode (call_id n) cmd (cl_codec cl);
          cl = cl\<lparr>cl_issued := n, cl_codec := k\<rparr> in
      case rendered of
        Inl e \<Rightarrow> (cl, Inl e)
      | Inr line \<Rightarrow> call_register (call_id n) line cl)"

text \<open>Process.WriteLine, with what the write answers.\<close>

definition client_write :: "string \<Rightarrow> err option \<Rightarrow> ('k, 'b) client \<Rightarrow> ('k, 'b) client \<times> err option" where
  "client_write line answer cl =
     (case answer of
        None \<Rightarrow> (cl\<lparr>cl_written := cl_written cl @ [line]\<rparr>, None)
      | Some e \<Rightarrow> (cl, Some (wrap (cl_name cl @ '': write'') e)))"

definition call_write :: "nat \<Rightarrow> string \<Rightarrow> err option \<Rightarrow> ('k, 'b) client \<Rightarrow> ('k, 'b) client" where
  "call_write i line answer cl =
     (case client_write line answer cl of
        (cl, None) \<Rightarrow> call_at i (\<lambda>c. c\<lparr>ca_pc := CallOpen\<rparr>) cl
      | (cl, Some e) \<Rightarrow>
          calls_forget (ca_id (cl_calls cl ! i)) (call_at i (\<lambda>c. c\<lparr>ca_pc := CallLeft e\<rparr>) cl))"

text \<open>Call's select: the response, or the end of its context.\<close>

definition call_recv :: "nat \<Rightarrow> ('k, 'b) client \<Rightarrow> ('k, 'b) client" where
  "call_recv i cl =
     call_at i (\<lambda>c. case ca_chan c of
        [] \<Rightarrow> c
      | r # rs \<Rightarrow> c\<lparr>ca_chan := rs, ca_pc := CallGot r\<rparr>) cl"

definition call_leave :: "nat \<Rightarrow> err \<Rightarrow> ('k, 'b) client \<Rightarrow> ('k, 'b) client" where
  "call_leave i e cl =
     calls_forget (ca_id (cl_calls cl ! i)) (call_at i (\<lambda>c. c\<lparr>ca_pc := CallLeft e\<rparr>) cl)"

definition client_notify :: "(string \<Rightarrow> 'c \<Rightarrow> 'k \<Rightarrow> (err + string) \<times> 'k) \<Rightarrow> 'c \<Rightarrow> err option \<Rightarrow> ('k, 'b) client \<Rightarrow> ('k, 'b) client \<times> err option" where
  "client_notify encode cmd answer cl =
     (case encode [] cmd (cl_codec cl) of
        (Inl e, k) \<Rightarrow> (cl\<lparr>cl_codec := k\<rparr>, Some e)
      | (Inr line, k) \<Rightarrow> client_write line answer (cl\<lparr>cl_codec := k\<rparr>))"

section \<open>The reader\<close>

definition reader_at :: "'b reader_pc \<Rightarrow> ('k, 'b) client \<Rightarrow> ('k, 'b) client" where
  "reader_at pc cl = cl\<lparr>cl_reader := pc\<rparr>"

definition client_push :: "event list \<Rightarrow> ('k, 'b) client \<Rightarrow> ('k, 'b) client" where
  "client_push es cl = cl\<lparr>cl_events := eq_push es (cl_events cl)\<rparr>"

definition client_error :: "err \<Rightarrow> event" where
  "client_error e = (event_of EventError)\<lparr>ev_err := Some e\<rparr>"

definition reader_line :: "(string \<Rightarrow> 'k \<Rightarrow> (err + 'b line_frame) \<times> 'k) \<Rightarrow> string \<Rightarrow> ('k, 'b) client \<Rightarrow> ('k, 'b) client" where
  "reader_line decode line cl =
     (case decode line (cl_codec cl) of
        (Inl e, k) \<Rightarrow> client_push [(client_error e)\<lparr>ev_raw := line\<rparr>] (cl\<lparr>cl_codec := k\<rparr>)
      | (Inr f, k) \<Rightarrow> reader_at (ReaderResolve f) (cl\<lparr>cl_codec := k\<rparr>))"

text \<open>resolve: the call is removed first, and its response delivered after.\<close>

definition reader_resolve :: "'b line_frame \<Rightarrow> ('k, 'b) client \<Rightarrow> ('k, 'b) client" where
  "reader_resolve f cl =
     (case fr_response f of
        None \<Rightarrow> reader_at (ReaderAnswer f) cl
      | Some r \<Rightarrow>
          (case map_of (cl_pending cl) (rp_id r) of
             None \<Rightarrow> reader_at (ReaderAnswer f) (calls_forget (rp_id r) cl)
           | Some i \<Rightarrow> reader_at (ReaderDeliver i r f) (calls_forget (rp_id r) cl)))"

definition chan_put :: "response \<Rightarrow> call \<Rightarrow> call" where
  "chan_put r c = c\<lparr>ca_chan := ca_chan c @ [r]\<rparr>"

definition reader_deliver :: "nat \<Rightarrow> response \<Rightarrow> 'b line_frame \<Rightarrow> ('k, 'b) client \<Rightarrow> ('k, 'b) client" where
  "reader_deliver i r f cl = reader_at (ReaderAnswer f) (call_at i (chan_put r) cl)"

definition reader_answer :: "bool \<Rightarrow> 'b line_frame \<Rightarrow> ('k, 'b) client \<Rightarrow> ('k, 'b) client" where
  "reader_answer handles f cl =
     reader_at (ReaderPush f)
       (case fr_request f of
          None \<Rightarrow> cl
        | Some req \<Rightarrow>
            if handles then cl\<lparr>cl_answers := cl_answers cl @ [AnswerHandle req]\<rparr>
            else client_push [client_error (Msg (cl_name cl @ '': request '' @ hq_id req
                                                 @ '': no handler to answer it''))] cl)"

definition reader_push :: "'b line_frame \<Rightarrow> ('k, 'b) client \<Rightarrow> ('k, 'b) client" where
  "reader_push f cl = reader_at ReaderRead (client_push (fr_events f) cl)"

text \<open>fail: every open call gets the error, and every later one fails with it.\<close>

fun fail_pending :: "err \<Rightarrow> (string \<times> nat) list \<Rightarrow> call list \<Rightarrow> call list" where
  "fail_pending e [] cs = cs"
| "fail_pending e ((i, n) # ps) cs =
     fail_pending e ps (cs[n := chan_put \<lparr>rp_id = i, rp_err = Some e, rp_data = []\<rparr> (cs ! n)])"

definition calls_fail :: "err \<Rightarrow> ('k, 'b) client \<Rightarrow> ('k, 'b) client" where
  "calls_fail e cl =
     cl\<lparr>cl_err := Some e, cl_calls := fail_pending e (cl_pending cl) (cl_calls cl), cl_pending := []\<rparr>"

definition reader_fail :: "err option \<Rightarrow> ('k, 'b) client \<Rightarrow> ('k, 'b) client" where
  "reader_fail exited cl =
     reader_at ReaderStop
       (calls_fail (case exited of Some e \<Rightarrow> e | None \<Rightarrow> Msg (cl_name cl @ '': exited'')) cl)"

definition reader_stop :: "('k, 'b) client \<Rightarrow> ('k, 'b) client" where
  "reader_stop cl = reader_at ReaderWait (cl\<lparr>cl_stopped := True\<rparr>)"

definition reader_close :: "('k, 'b) client \<Rightarrow> ('k, 'b) client" where
  "reader_close cl = reader_at ReaderDone (cl\<lparr>cl_events := eq_close (cl_events cl)\<rparr>)"

section \<open>Answers\<close>

definition answer_at :: "nat \<Rightarrow> 'b answer_pc \<Rightarrow> ('k, 'b) client \<Rightarrow> ('k, 'b) client" where
  "answer_at i pc cl = cl\<lparr>cl_answers := (cl_answers cl)[i := pc]\<rparr>"

definition answer_handle :: "('b hrequest \<Rightarrow> 'a \<Rightarrow> err + string) \<Rightarrow> nat \<Rightarrow> 'b hrequest \<Rightarrow> 'a \<Rightarrow> ('k, 'b) client \<Rightarrow> ('k, 'b) client" where
  "answer_handle reply i req answer cl =
     answer_at i (case reply req answer of Inl e \<Rightarrow> AnswerReport (wrap (cl_name cl @ '': answer request '' @ hq_id req) e)
                                       | Inr line \<Rightarrow> AnswerWrite req line) cl"

definition answer_write :: "nat \<Rightarrow> 'b hrequest \<Rightarrow> string \<Rightarrow> err option \<Rightarrow> ('k, 'b) client \<Rightarrow> ('k, 'b) client" where
  "answer_write i req line answer cl =
     (case client_write line answer cl of
        (cl, None) \<Rightarrow> answer_at i AnswerDone cl
      | (cl, Some e) \<Rightarrow> answer_at i (AnswerReport (wrap (cl_name cl @ '': answer request '' @ hq_id req) e)) cl)"

definition answer_report :: "nat \<Rightarrow> err \<Rightarrow> ('k, 'b) client \<Rightarrow> ('k, 'b) client" where
  "answer_report i e cl =
     answer_at i AnswerDone (if cl_stopped cl then cl else client_push [client_error e] cl)"

text \<open>The process's context ends: Close, or an output that cannot be read.\<close>

definition client_cancel :: "('k, 'b) client \<Rightarrow> ('k, 'b) client" where
  "client_cancel cl = cl\<lparr>cl_stopped := True, cl_events := q_cancel (cl_events cl)\<rparr>"

section \<open>Steps\<close>

inductive cl_step ::
  "(string \<Rightarrow> 'c \<Rightarrow> 'k \<Rightarrow> (err + string) \<times> 'k) \<Rightarrow> (string \<Rightarrow> 'k \<Rightarrow> (err + 'b line_frame) \<times> 'k) \<Rightarrow> ('b hrequest \<Rightarrow> 'a \<Rightarrow> err + string) \<Rightarrow> bool
     \<Rightarrow> ('k, 'b) client \<Rightarrow> ('k, 'b) client \<Rightarrow> bool" for encode decode reply handles where
  cl_start: "cl_step encode decode reply handles cl (fst (call_start encode cmd cl))"
| cl_write: "i < length (cl_calls cl) \<Longrightarrow> ca_pc (cl_calls cl ! i) = CallWrite line \<Longrightarrow>
    cl_step encode decode reply handles cl (call_write i line answer cl)"
| cl_recv: "i < length (cl_calls cl) \<Longrightarrow> ca_pc (cl_calls cl ! i) = CallOpen \<Longrightarrow> ca_chan (cl_calls cl ! i) \<noteq> [] \<Longrightarrow>
    cl_step encode decode reply handles cl (call_recv i cl)"
| cl_leave: "i < length (cl_calls cl) \<Longrightarrow> ca_pc (cl_calls cl ! i) = CallOpen \<Longrightarrow>
    cl_step encode decode reply handles cl (call_leave i e cl)"
| cl_notify: "cl_step encode decode reply handles cl (fst (client_notify encode cmd answer cl))"
| cl_line: "cl_reader cl = ReaderRead \<Longrightarrow> cl_step encode decode reply handles cl (reader_line decode line cl)"
| cl_resolve: "cl_reader cl = ReaderResolve f \<Longrightarrow> cl_step encode decode reply handles cl (reader_resolve f cl)"
| cl_deliver: "cl_reader cl = ReaderDeliver i r f \<Longrightarrow> ca_chan (cl_calls cl ! i) = [] \<Longrightarrow>
    cl_step encode decode reply handles cl (reader_deliver i r f cl)"
| cl_answer: "cl_reader cl = ReaderAnswer f \<Longrightarrow> cl_step encode decode reply handles cl (reader_answer handles f cl)"
| cl_push: "cl_reader cl = ReaderPush f \<Longrightarrow> cl_step encode decode reply handles cl (reader_push f cl)"
| cl_end: "cl_reader cl = ReaderRead \<Longrightarrow> cl_step encode decode reply handles cl (reader_at ReaderFail cl)"
| cl_fail: "cl_reader cl = ReaderFail \<Longrightarrow> cl_step encode decode reply handles cl (reader_fail exited cl)"
| cl_stop: "cl_reader cl = ReaderStop \<Longrightarrow> cl_step encode decode reply handles cl (reader_stop cl)"
| cl_close: "cl_reader cl = ReaderWait \<Longrightarrow> cl_step encode decode reply handles cl (reader_close cl)"
| cl_handle: "i < length (cl_answers cl) \<Longrightarrow> cl_answers cl ! i = AnswerHandle req \<Longrightarrow>
    cl_step encode decode reply handles cl (answer_handle reply i req answer cl)"
| cl_reply: "i < length (cl_answers cl) \<Longrightarrow> cl_answers cl ! i = AnswerWrite req line \<Longrightarrow>
    cl_step encode decode reply handles cl (answer_write i req line answer' cl)"
| cl_report: "i < length (cl_answers cl) \<Longrightarrow> cl_answers cl ! i = AnswerReport e \<Longrightarrow>
    cl_step encode decode reply handles cl (answer_report i e cl)"
| cl_cancel: "cl_step encode decode reply handles cl (client_cancel cl)"
| cl_pump: "eq_step (cl_events cl) q \<Longrightarrow> cl_step encode decode reply handles cl (cl\<lparr>cl_events := q\<rparr>)"

section \<open>Lines\<close>

lemma trim_eol_line:
  assumes "line \<noteq> []" "LF \<notin> set line" "last line \<noteq> CHR 0x0D"
  shows "trim_eol line = line" "trim_eol (line @ [LF]) = line"
proof -
  have "last line \<noteq> LF" using assms(1,2) last_in_set by metis
  then show "trim_eol line = line" "trim_eol (line @ [LF]) = line"
    using assms(1,3) by (cases line rule: rev_cases; simp add: trim_eol_def)+
qed

lemma read_lines_line:
  assumes "LF \<notin> set line"
  shows "read_lines_from acc (line @ LF # s)
    = (if trim_eol (acc @ line @ [LF]) = [] then [] else [trim_eol (acc @ line @ [LF])]) @ read_lines_from [] s"
  using assms
proof (induction line arbitrary: acc)
  case (Cons c line)
  then have "c \<noteq> LF" by auto
  then show ?case using Cons.IH[of "acc @ [c]"] Cons.prems by simp
qed simp

text \<open>Lines written one after another are read back as they were.\<close>

definition plain_line :: "string \<Rightarrow> bool" where
  "plain_line line \<longleftrightarrow> line \<noteq> [] \<and> LF \<notin> set line \<and> last line \<noteq> CHR 0x0D"

lemma read_written:
  "list_all plain_line ls \<Longrightarrow> read_lines (concat (map write_line ls)) = ls"
proof (induction ls)
  case (Cons l ls)
  have "concat (map write_line (l # ls)) = l @ LF # concat (map write_line ls)" by (simp add: write_line_def)
  then show ?case using Cons read_lines_line[of l "[]" "concat (map write_line ls)"] trim_eol_line[of l]
    by (simp add: read_lines_def plain_line_def)
qed (simp add: read_lines_def trim_eol_def)

text \<open>The tail keeps the end of all that was written.\<close>

definition last_n :: "nat \<Rightarrow> string \<Rightarrow> string" where
  "last_n n s = drop (length s - n) s"

lemma tail_writes: "fold (tail_write n) bs (last_n n s) = last_n n (s @ concat bs)"
proof (induction bs arbitrary: s)
  case (Cons b bs)
  have "tail_write n b (last_n n s) = last_n n (s @ b)"
    by (cases "n \<le> length s") (auto simp: tail_write_def last_n_def Let_def add.commute)
  then show ?case using Cons.IH[of "s @ b"] by simp
qed simp

section \<open>Ids\<close>

lemma word_of_nat_inj: "m < 2 ^ 64 \<Longrightarrow> n < 2 ^ 64 \<Longrightarrow> (word_of_nat m :: 64 word) = word_of_nat n \<Longrightarrow> m = n"
  by (simp add: word_of_nat_eq_iff take_bit_nat_eq_self)

lemma call_id_parse: "parse_int (call_id n) = Some (sint (word_of_nat n :: 64 word))"
proof -
  let ?w = "word_of_nat n :: 64 word"
  have "- (2 ^ 63) \<le> sint ?w" "sint ?w < 2 ^ 63"
    using sint_greater_eq[of ?w] sint_less[of ?w] by simp_all
  then show ?thesis by (simp only: call_id_def parse_int_text)
qed

lemma call_id_inj: "m < 2 ^ 64 \<Longrightarrow> n < 2 ^ 64 \<Longrightarrow> call_id m = call_id n \<Longrightarrow> m = n"
  using call_id_parse[of m] call_id_parse[of n] word_of_nat_inj[of m n] signed_word_eqI
  by (metis option.inject)

section \<open>Calls and their responses\<close>

definition delivering :: "'b reader_pc \<Rightarrow> nat option" where
  "delivering r = (case r of ReaderDeliver i x f \<Rightarrow> Some i | _ \<Rightarrow> None)"

text \<open>
  A call has at most one response, with its id. It is registered, or its response is being
  delivered, or its channel holds it, or its caller has it or has left.
\<close>

definition call_inv :: "(string \<times> nat) list \<Rightarrow> nat option \<Rightarrow> nat \<Rightarrow> call \<Rightarrow> bool" where
  "call_inv pending deliv i c \<longleftrightarrow>
     list_all (\<lambda>r. rp_id r = ca_id c) (ca_chan c) \<and> length (ca_chan c) \<le> 1
     \<and> (map_of pending (ca_id c) = Some i \<longrightarrow> ca_chan c = [] \<and> deliv \<noteq> Some i)
     \<and> (deliv = Some i \<longrightarrow> ca_chan c = [])
     \<and> (case ca_pc c of
          CallGot r \<Rightarrow> rp_id r = ca_id c \<and> ca_chan c = [] \<and> deliv \<noteq> Some i \<and> map_of pending (ca_id c) \<noteq> Some i
        | CallLeft e \<Rightarrow> map_of pending (ca_id c) \<noteq> Some i
        | _ \<Rightarrow> ca_chan c \<noteq> [] \<or> map_of pending (ca_id c) = Some i \<or> deliv = Some i)"

fun reader_over :: "'b reader_pc \<Rightarrow> bool" where
  "reader_over ReaderStop = True"
| "reader_over ReaderWait = True"
| "reader_over ReaderDone = True"
| "reader_over _ = False"

definition calls_ok ::
  "call list \<Rightarrow> (string \<times> nat) list \<Rightarrow> nat \<Rightarrow> err option \<Rightarrow> 'b reader_pc \<Rightarrow> bool" where
  "calls_ok cs p n e r \<longleftrightarrow>
     (\<forall>i < length cs. call_inv p (delivering r) i (cs ! i))
     \<and> distinct (map ca_id cs) \<and> distinct (map fst p)
     \<and> set (map ca_id cs) \<subseteq> call_id ` {1..n}
     \<and> (\<forall>k i. map_of p k = Some i \<longrightarrow> i < length cs \<and> ca_id (cs ! i) = k)
     \<and> (\<forall>i x f. r = ReaderDeliver i x f \<longrightarrow> i < length cs \<and> rp_id x = ca_id (cs ! i))
     \<and> (reader_over r \<longrightarrow> p = [] \<and> e \<noteq> None)"

definition cl_inv :: "('k, 'b) client \<Rightarrow> bool" where
  "cl_inv cl \<longleftrightarrow> calls_ok (cl_calls cl) (cl_pending cl) (cl_issued cl) (cl_err cl) (cl_reader cl)"

lemma delivering_simps [simp]:
  "delivering ReaderRead = None" "delivering (ReaderResolve f) = None" "delivering (ReaderDeliver i x f) = Some i"
  "delivering (ReaderAnswer f) = None" "delivering (ReaderPush f) = None" "delivering ReaderFail = None"
  "delivering ReaderStop = None" "delivering ReaderWait = None" "delivering ReaderDone = None"
  by (simp_all add: delivering_def)

lemma calls_ok_reader:
  "calls_ok cs p n e r \<Longrightarrow> delivering r = None \<Longrightarrow> delivering r' = None \<Longrightarrow> (reader_over r' \<longrightarrow> reader_over r) \<Longrightarrow>
     calls_ok cs p n e r'"
  by (cases r') (auto simp: calls_ok_def)

lemma calls_ok_upd:
  assumes c: "calls_ok cs p n e r" and i: "i < length cs" and id: "ca_id c' = ca_id (cs ! i)"
    and p: "p' = p \<or> p' = AList.delete (ca_id (cs ! i)) p"
    and r: "r' = r \<or> delivering r = Some i \<and> delivering r' = None \<and> \<not> reader_over r'"
    and f: "call_inv p' (delivering r') i c'"
  shows "calls_ok (cs[i := c']) p' n e r'"
proof -
  have dist: "distinct (map ca_id cs)" using c by (simp add: calls_ok_def)
  have ids: "map ca_id (cs[i := c']) = map ca_id cs" using i id by (simp add: map_update list_update_same_conv)
  have ids': "ca_id (cs[i := c'] ! j) = ca_id (cs ! j)" for j using id i by (cases "j = i") simp_all
  have other: "ca_id (cs ! j) \<noteq> ca_id (cs ! i)" if "j < length cs" "j \<noteq> i" for j
    using dist that i by (simp add: distinct_conv_nth)
  have pend: "map_of p' k = map_of p k" if "k \<noteq> ca_id (cs ! i)" for k using p that by (auto simp: delete_conv')
  have sub: "map_of p' k = Some j \<Longrightarrow> map_of p k = Some j" for k j
    using p by (auto simp: delete_conv' split: if_splits)
  have inv: "call_inv p' (delivering r') j (cs[i := c'] ! j)" if j: "j < length cs" for j
  proof (cases "j = i")
    case True
    then show ?thesis using f i by simp
  next
    case False
    have "call_inv p (delivering r) j (cs ! j)" using c j by (simp add: calls_ok_def)
    moreover have "delivering r' = Some j \<longleftrightarrow> delivering r = Some j" using r False by auto
    ultimately show ?thesis using False pend[OF other[OF j False]]
      by (simp add: call_inv_def split: call_pc.splits)
  qed
  show ?thesis unfolding calls_ok_def
  proof (intro conjI allI impI)
    fix j assume "j < length (cs[i := c'])"
    then show "call_inv p' (delivering r') j (cs[i := c'] ! j)" using inv by simp
  next
    show "distinct (map ca_id (cs[i := c']))" using dist ids by simp
    show "distinct (map fst p')" using c p by (auto simp: calls_ok_def distinct_delete)
    have "set (map ca_id (cs[i := c'])) = set (map ca_id cs)" by (simp only: ids)
    then show "set (map ca_id (cs[i := c'])) \<subseteq> call_id ` {1..n}" using c by (simp add: calls_ok_def)
  next
    fix k j assume "map_of p' k = Some j"
    from sub[OF this] have "j < length cs \<and> ca_id (cs ! j) = k" using c unfolding calls_ok_def by blast
    then show "j < length (cs[i := c'])" "ca_id (cs[i := c'] ! j) = k" using ids' by simp_all
  next
    fix j x f assume "r' = ReaderDeliver j x f"
    then have "r = ReaderDeliver j x f" using r by auto
    then have "j < length cs \<and> rp_id x = ca_id (cs ! j)" using c unfolding calls_ok_def by blast
    then show "j < length (cs[i := c'])" "rp_id x = ca_id (cs[i := c'] ! j)" using ids' by simp_all
  next
    assume "reader_over r'"
    then have "reader_over r" using r by auto
    then have "p = [] \<and> e \<noteq> None" using c unfolding calls_ok_def by blast
    then show "p' = []" "e \<noteq> None" using p by auto
  qed
qed


lemma fail_pending_length [simp]: "length (fail_pending e ps cs) = length cs"
  by (induction e ps cs rule: fail_pending.induct) simp_all

lemma fail_pending_nth:
  assumes "distinct (map snd ps)" "\<forall>(k, i) \<in> set ps. i < length cs" "j < length cs"
  shows "fail_pending e ps cs ! j =
    (case map_of (map (\<lambda>(k, i). (i, k)) ps) j of
       None \<Rightarrow> cs ! j
     | Some k \<Rightarrow> chan_put \<lparr>rp_id = k, rp_err = Some e, rp_data = []\<rparr> (cs ! j))"
  using assms
proof (induction e ps cs rule: fail_pending.induct)
  case (2 e k i ps cs)
  have "map_of (map (\<lambda>(k, i). (i, k)) ps) i = None"
    using "2.prems"(1) by (auto simp: map_of_eq_None_iff image_iff)
  then show ?case using 2 by (auto simp: nth_list_update split: option.splits)
qed simp

lemma calls_ok_indices:
  assumes "calls_ok cs p n e r"
  shows "distinct (map snd p)" "\<forall>(k, i) \<in> set p. i < length cs"
proof -
  have m: "map_of p k = Some i \<Longrightarrow> i < length cs \<and> ca_id (cs ! i) = k" for k i
    using assms unfolding calls_ok_def by blast
  have d: "distinct (map fst p)" using assms by (simp add: calls_ok_def)
  then have s: "(k, i) \<in> set p \<Longrightarrow> i < length cs \<and> ca_id (cs ! i) = k" for k i
    using m by simp
  then show "\<forall>(k, i) \<in> set p. i < length cs" by auto
  have "inj_on snd (set p)" by (rule inj_onI) (metis s prod.collapse)
  moreover have "distinct p" using d by (simp add: distinct_map)
  ultimately show "distinct (map snd p)" by (simp add: distinct_map)
qed

lemma calls_ok_fail:
  assumes c: "calls_ok cs p n e r" and r: "delivering r = None" "delivering r' = None"
  shows "calls_ok (fail_pending x p cs) [] n (Some x) r'"
proof -
  let ?f = "fail_pending x p cs"
  note ix = calls_ok_indices[OF c]
  have m: "map_of (map (\<lambda>(k, i). (i, k)) p) j = Some k \<Longrightarrow> map_of p k = Some j \<and> ca_id (cs ! j) = k" for j k
  proof -
    assume "map_of (map (\<lambda>(k, i). (i, k)) p) j = Some k"
    then have "(k, j) \<in> set p" by (auto dest!: map_of_SomeD)
    then have "map_of p k = Some j" using c by (simp add: calls_ok_def)
    then show ?thesis using c unfolding calls_ok_def by blast
  qed
  have none: "map_of (map (\<lambda>(k, i). (i, k)) p) j = None \<Longrightarrow> map_of p k \<noteq> Some j" for j k
    by (auto simp: map_of_eq_None_iff image_iff dest!: map_of_SomeD)
  have nth: "?f ! j = (case map_of (map (\<lambda>(k, i). (i, k)) p) j of
       None \<Rightarrow> cs ! j
     | Some k \<Rightarrow> chan_put \<lparr>rp_id = k, rp_err = Some x, rp_data = []\<rparr> (cs ! j))" if "j < length cs" for j
    using fail_pending_nth[OF ix that] .
  have ids: "ca_id (?f ! j) = ca_id (cs ! j)" if "j < length cs" for j
    using nth[OF that] by (simp add: chan_put_def split: option.split)
  then have mids: "map ca_id ?f = map ca_id cs" by (auto intro: nth_equalityI)
  have inv: "call_inv [] None j (?f ! j)" if j: "j < length cs" for j
  proof -
    have i: "call_inv p None j (cs ! j)" using c j r by (simp add: calls_ok_def)
    show ?thesis
    proof (cases "map_of (map (\<lambda>(k, i). (i, k)) p) j")
      case None
      then show ?thesis using nth[OF j] i none[OF None] by (auto simp: call_inv_def split: call_pc.splits)
    next
      case (Some k)
      then show ?thesis using nth[OF j] i m[OF Some]
        by (auto simp: call_inv_def chan_put_def simp del: map_of_eq_Some_iff split: call_pc.splits)
    qed
  qed
  have "set (map ca_id ?f) \<subseteq> call_id ` {1..n}" "distinct (map ca_id ?f)"
    unfolding mids using c by (simp_all add: calls_ok_def)
  then show ?thesis using inv r by (auto simp: calls_ok_def)
qed

lemma calls_ok_issue: "calls_ok cs p n e r \<Longrightarrow> calls_ok cs p (Suc n) e r"
proof -
  assume c: "calls_ok cs p n e r"
  then have "set (map ca_id cs) \<subseteq> call_id ` {1..n}" by (simp add: calls_ok_def)
  also have "\<dots> \<subseteq> call_id ` {1..Suc n}" by auto
  finally show ?thesis using c unfolding calls_ok_def by (elim conjE) (intro conjI; assumption)
qed

lemma calls_ok_pending: "calls_ok cs p n e r \<Longrightarrow> map_of p k = Some i \<Longrightarrow> i < length cs \<and> ca_id (cs ! i) = k"
  unfolding calls_ok_def by blast

lemma calls_ok_register:
  assumes c: "calls_ok cs p n e r" and b: "Suc n < 2 ^ 64" and e: "e = None"
  shows "calls_ok (cs @ [\<lparr>ca_id = call_id (Suc n), ca_chan = [], ca_pc = CallWrite line\<rparr>])
    (AList.update (call_id (Suc n)) (length cs) p) (Suc n) e r"
proof -
  let ?c = "\<lparr>ca_id = call_id (Suc n), ca_chan = [], ca_pc = CallWrite line\<rparr>"
  let ?p = "AList.update (call_id (Suc n)) (length cs) p"
  have fresh: "call_id (Suc n) \<notin> set (map ca_id cs)"
  proof
    assume "call_id (Suc n) \<in> set (map ca_id cs)"
    then obtain k where "k \<in> {1..n}" "call_id (Suc n) = call_id k" using c unfolding calls_ok_def by blast
    then show False using call_id_inj[of "Suc n" k] b by auto
  qed
  have d: "delivering r \<noteq> Some (length cs)" using c by (auto simp: calls_ok_def delivering_def split: reader_pc.splits)
  have pend: "map_of ?p = (map_of p)(call_id (Suc n) \<mapsto> length cs)" by (simp add: update_conv')
  have inv: "call_inv ?p (delivering r) j ((cs @ [?c]) ! j)" if j: "j < length (cs @ [?c])" for j
  proof (cases "j = length cs")
    case True
    then show ?thesis using d by (simp add: call_inv_def pend del: map_of_eq_Some_iff)
  next
    case False
    then have j': "j < length cs" using j by simp
    then have "ca_id (cs ! j) \<in> set (map ca_id cs)" by simp
    then have "ca_id (cs ! j) \<noteq> call_id (Suc n)" using fresh by metis
    moreover have "call_inv p (delivering r) j (cs ! j)" using c j' by (simp add: calls_ok_def)
    ultimately show ?thesis using j' by (simp add: nth_append call_inv_def pend del: map_of_eq_Some_iff split: call_pc.splits)
  qed
  have "\<not> reader_over r" using c e by (auto simp: calls_ok_def)
  then show ?thesis unfolding calls_ok_def
  proof (intro conjI allI impI)
    fix j assume "j < length (cs @ [?c])"
    then show "call_inv ?p (delivering r) j ((cs @ [?c]) ! j)" by (rule inv)
  next
    show "distinct (map ca_id (cs @ [?c]))" using c fresh by (simp add: calls_ok_def)
    show "distinct (map fst ?p)" using c by (simp add: calls_ok_def distinct_update)
    have "set (map ca_id cs) \<subseteq> call_id ` {1..n}" using c by (simp add: calls_ok_def)
    also have "\<dots> \<subseteq> call_id ` {1..Suc n}" by auto
    finally show "set (map ca_id (cs @ [?c])) \<subseteq> call_id ` {1..Suc n}" by simp
  next
    fix k j assume "map_of ?p k = Some j"
    then have "k = call_id (Suc n) \<and> j = length cs \<or> map_of p k = Some j"
      by (simp add: pend del: map_of_eq_Some_iff split: if_splits)
    then have "k = call_id (Suc n) \<and> j = length cs \<or> j < length cs \<and> ca_id (cs ! j) = k"
      using calls_ok_pending[OF c] by blast
    then show "j < length (cs @ [?c])" "ca_id ((cs @ [?c]) ! j) = k" by (auto simp: nth_append)
  next
    fix j x f assume "r = ReaderDeliver j x f"
    then show "j < length (cs @ [?c])" "rp_id x = ca_id ((cs @ [?c]) ! j)"
      using c by (auto simp: calls_ok_def nth_append)
  qed auto
qed


lemma calls_ok_deliver:
  assumes c: "calls_ok cs p n e r" and r: "delivering r = None" "\<not> reader_over r" and m: "map_of p (rp_id x) = Some i"
  shows "calls_ok cs (AList.delete (rp_id x) p) n e (ReaderDeliver i x f)"
proof -
  have i: "i < length cs" "ca_id (cs ! i) = rp_id x" using calls_ok_pending[OF c m] by simp_all
  have own: "call_inv p None i (cs ! i)" using c i(1) r(1) by (simp add: calls_ok_def)
  have dist: "distinct (map ca_id cs)" using c by (simp add: calls_ok_def)
  have other: "ca_id (cs ! j) \<noteq> rp_id x" if "j \<noteq> i" "j < length cs" for j
    using nth_eq_iff_index_eq[OF dist, of j i] that i by auto
  have inv: "call_inv (AList.delete (rp_id x) p) (Some i) j (cs ! j)" if j: "j < length cs" for j
  proof (cases "j = i")
    case True
    then show ?thesis using own i(2) m
      by (simp add: call_inv_def delete_conv' del: map_of_eq_Some_iff split: call_pc.splits)
  next
    case False
    have "call_inv p None j (cs ! j)" using c j r(1) by (simp add: calls_ok_def)
    then show ?thesis using False other[OF False j]
      by (simp add: call_inv_def delete_conv' del: map_of_eq_Some_iff split: call_pc.splits)
  qed
  show ?thesis unfolding calls_ok_def
  proof (intro conjI allI impI)
    fix j assume "j < length cs"
    then show "call_inv (AList.delete (rp_id x) p) (delivering (ReaderDeliver i x f)) j (cs ! j)" using inv by simp
  next
    show "distinct (map ca_id cs)" "distinct (map fst (AList.delete (rp_id x) p))" "set (map ca_id cs) \<subseteq> call_id ` {1..n}"
      using c by (simp_all add: calls_ok_def distinct_delete)
  next
    fix k j assume "map_of (AList.delete (rp_id x) p) k = Some j"
    then have "map_of p k = Some j" by (auto simp: delete_conv' simp del: map_of_eq_Some_iff split: if_splits)
    from calls_ok_pending[OF c this] show "j < length cs" "ca_id (cs ! j) = k" by simp_all
  next
    fix j y g assume "ReaderDeliver i x f = ReaderDeliver j y g"
    then show "j < length cs" "rp_id y = ca_id (cs ! j)" using i by auto
  qed auto
qed

lemma calls_ok_delete_none:
  "calls_ok cs p n e r \<Longrightarrow> map_of p k = None \<Longrightarrow> calls_ok cs (AList.delete k p) n e r"
proof -
  assume c: "calls_ok cs p n e r" and m: "map_of p k = None"
  then have "AList.delete k p = p" by (simp add: map_of_eq_None_iff)
  then show ?thesis using c by simp
qed

lemma client_write_calls [simp]:
  "cl_calls (fst (client_write line answer cl)) = cl_calls cl" "cl_pending (fst (client_write line answer cl)) = cl_pending cl"
  "cl_issued (fst (client_write line answer cl)) = cl_issued cl" "cl_err (fst (client_write line answer cl)) = cl_err cl"
  "cl_reader (fst (client_write line answer cl)) = cl_reader cl"
  by (simp_all add: client_write_def split: option.split)

lemma cl_inv_fields:
  "cl_inv cl \<Longrightarrow> cl_calls cl' = cl_calls cl \<Longrightarrow> cl_pending cl' = cl_pending cl \<Longrightarrow> cl_issued cl' = cl_issued cl \<Longrightarrow>
     cl_err cl' = cl_err cl \<Longrightarrow> cl_reader cl' = cl_reader cl \<Longrightarrow> cl_inv cl'"
  by (simp only: cl_inv_def)

lemma cl_inv_move:
  "cl_inv cl \<Longrightarrow> delivering (cl_reader cl) = None \<Longrightarrow> delivering (cl_reader cl') = None \<Longrightarrow>
     (reader_over (cl_reader cl') \<longrightarrow> reader_over (cl_reader cl)) \<Longrightarrow>
     cl_calls cl' = cl_calls cl \<Longrightarrow> cl_pending cl' = cl_pending cl \<Longrightarrow> cl_issued cl' = cl_issued cl \<Longrightarrow>
     cl_err cl' = cl_err cl \<Longrightarrow> cl_inv cl'"
  unfolding cl_inv_def using calls_ok_reader by metis

lemma cl_inv_leave:
  assumes c: "cl_inv cl" and i: "i < length (cl_calls cl)"
  shows "cl_inv (calls_forget (ca_id (cl_calls cl ! i)) (call_at i (\<lambda>x. x\<lparr>ca_pc := CallLeft e\<rparr>) cl))"
proof -
  have "call_inv (cl_pending cl) (delivering (cl_reader cl)) i (cl_calls cl ! i)"
    using c i by (simp add: cl_inv_def calls_ok_def)
  then have "call_inv (AList.delete (ca_id (cl_calls cl ! i)) (cl_pending cl)) (delivering (cl_reader cl)) i
      ((cl_calls cl ! i)\<lparr>ca_pc := CallLeft e\<rparr>)"
    by (simp add: call_inv_def delete_conv' del: map_of_eq_Some_iff)
  then show ?thesis using calls_ok_upd[OF c[unfolded cl_inv_def] i]
    by (simp add: cl_inv_def calls_forget_def call_at_def)
qed

lemma cl_inv_step:
  assumes s: "cl_step encode decode reply handles cl cl'" and c: "cl_inv cl" and b: "cl_issued cl' < 2 ^ 64"
  shows "cl_inv cl'"
  using s
proof (cases rule: cl_step.cases)
  case (cl_start cmd)
  then show ?thesis using c b calls_ok_issue calls_ok_register
    by (auto simp: cl_inv_def call_start_def call_register_def Let_def split: sum.splits option.splits prod.splits)
next
  case (cl_write i line answer)
  show ?thesis
  proof (cases answer)
    case None
    have "call_inv (cl_pending cl) (delivering (cl_reader cl)) i (cl_calls cl ! i)"
      using c cl_write by (simp add: cl_inv_def calls_ok_def)
    then have "call_inv (cl_pending cl) (delivering (cl_reader cl)) i ((cl_calls cl ! i)\<lparr>ca_pc := CallOpen\<rparr>)"
      using cl_write by (simp add: call_inv_def)
    then show ?thesis using calls_ok_upd[OF c[unfolded cl_inv_def] cl_write(2)] None cl_write(1)
      by (simp add: cl_inv_def call_write_def client_write_def call_at_def)
  next
    case (Some e)
    then show ?thesis using cl_inv_leave[OF c cl_write(2)] cl_write(1,3)
      by (simp add: call_write_def client_write_def)
  qed
next
  case (cl_recv i)
  have "call_inv (cl_pending cl) (delivering (cl_reader cl)) i (cl_calls cl ! i)"
    using c cl_recv by (simp add: cl_inv_def calls_ok_def)
  moreover obtain r rs where r: "ca_chan (cl_calls cl ! i) = r # rs" using cl_recv(4) by (cases "ca_chan (cl_calls cl ! i)") auto
  ultimately have "call_inv (cl_pending cl) (delivering (cl_reader cl)) i
      ((cl_calls cl ! i)\<lparr>ca_chan := rs, ca_pc := CallGot r\<rparr>)"
    by (auto simp: call_inv_def simp del: map_of_eq_Some_iff)
  then show ?thesis using calls_ok_upd[OF c[unfolded cl_inv_def] cl_recv(2)] cl_recv(1) r
    by (simp add: cl_inv_def call_recv_def call_at_def)
next
  case (cl_leave i e)
  then show ?thesis using cl_inv_leave[OF c cl_leave(2)] by (simp add: call_leave_def)
next
  case (cl_notify cmd answer)
  then show ?thesis by (auto simp: client_notify_def intro!: cl_inv_fields[OF c] split: sum.splits prod.splits)
next
  case (cl_line line)
  then show ?thesis
    by (auto simp: reader_line_def reader_at_def client_push_def intro!: cl_inv_move[OF c] split: sum.splits prod.splits)
next
  case (cl_resolve f)
  have i: "calls_ok (cl_calls cl) (cl_pending cl) (cl_issued cl) (cl_err cl) (cl_reader cl)" using c by (simp only: cl_inv_def)
  have d: "delivering (cl_reader cl) = None" "\<not> reader_over (cl_reader cl)" using cl_resolve by simp_all
  have a: "calls_ok (cl_calls cl) (cl_pending cl) (cl_issued cl) (cl_err cl) (ReaderAnswer f)"
    by (rule calls_ok_reader[OF i d(1)]) simp_all
  show ?thesis
  proof (cases "fr_response f")
    case None
    then show ?thesis using a cl_resolve(1) by (simp add: cl_inv_def reader_resolve_def reader_at_def)
  next
    case (Some r)
    show ?thesis
    proof (cases "map_of (cl_pending cl) (rp_id r)")
      case None
      then show ?thesis using calls_ok_delete_none[OF a None] Some cl_resolve(1)
        by (simp add: cl_inv_def reader_resolve_def reader_at_def calls_forget_def)
    next
      case (Some k)
      then show ?thesis using calls_ok_deliver[OF i d Some, of f] \<open>fr_response f = Some r\<close> cl_resolve(1)
        by (simp add: cl_inv_def reader_resolve_def reader_at_def calls_forget_def del: map_of_eq_Some_iff)
    qed
  qed
next
  case (cl_deliver i r f)
  have d: "i < length (cl_calls cl)" "rp_id r = ca_id (cl_calls cl ! i)"
    using c cl_deliver(2) unfolding cl_inv_def calls_ok_def by blast+
  then have "call_inv (cl_pending cl) (Some i) i (cl_calls cl ! i)"
    using c cl_deliver(2) by (simp add: cl_inv_def calls_ok_def)
  then have "call_inv (cl_pending cl) None i (chan_put r (cl_calls cl ! i))"
    using d(2) by (auto simp: call_inv_def chan_put_def simp del: map_of_eq_Some_iff split: call_pc.splits)
  then show ?thesis
    using calls_ok_upd[OF c[unfolded cl_inv_def] d(1), of "chan_put r (cl_calls cl ! i)" "cl_pending cl" "ReaderAnswer f"] cl_deliver(1,2)
    by (simp add: cl_inv_def reader_deliver_def reader_at_def call_at_def) (simp add: chan_put_def)
next
  case (cl_answer f)
  then show ?thesis
    by (auto simp: reader_answer_def reader_at_def client_push_def intro!: cl_inv_move[OF c] split: option.splits)
next
  case (cl_push f)
  then show ?thesis by (auto simp: reader_push_def reader_at_def client_push_def intro!: cl_inv_move[OF c])
next
  case cl_end
  then show ?thesis by (auto simp: reader_at_def intro!: cl_inv_move[OF c])
next
  case (cl_fail exited)
  have "calls_ok (fail_pending x (cl_pending cl) (cl_calls cl)) [] (cl_issued cl) (Some x) ReaderStop" for x
    by (rule calls_ok_fail[OF c[unfolded cl_inv_def]]) (use cl_fail(2) in simp_all)
  then show ?thesis using cl_fail(1) by (simp add: cl_inv_def reader_fail_def reader_at_def calls_fail_def)
next
  case cl_stop
  then show ?thesis by (auto simp: reader_stop_def reader_at_def intro!: cl_inv_move[OF c])
next
  case cl_close
  then show ?thesis by (auto simp: reader_close_def reader_at_def intro!: cl_inv_move[OF c])
next
  case (cl_handle i req answer)
  then show ?thesis by (auto simp: answer_handle_def answer_at_def intro!: cl_inv_fields[OF c])
next
  case (cl_reply i req line answer')
  then show ?thesis by (auto simp: answer_write_def answer_at_def client_write_def intro!: cl_inv_fields[OF c] split: option.splits)
next
  case (cl_report i e)
  then show ?thesis by (auto simp: answer_report_def answer_at_def client_push_def intro!: cl_inv_fields[OF c])
next
  case cl_cancel
  then show ?thesis by (auto simp: client_cancel_def intro!: cl_inv_fields[OF c])
next
  case (cl_pump q)
  then show ?thesis by (auto intro!: cl_inv_fields[OF c])
qed


lemma cl_step_issued: "cl_step encode decode reply handles cl cl' \<Longrightarrow> cl_issued cl \<le> cl_issued cl'"
  by (cases rule: cl_step.cases)
    (auto simp: call_start_def call_register_def Let_def call_write_def call_at_def calls_forget_def call_recv_def call_leave_def
       client_notify_def client_write_def reader_line_def client_push_def reader_at_def reader_resolve_def
       reader_deliver_def reader_answer_def reader_push_def reader_fail_def calls_fail_def reader_stop_def
       reader_close_def answer_handle_def answer_at_def answer_write_def answer_report_def client_cancel_def
       split: sum.splits option.splits prod.splits)

abbreviation cl_reach where
  "cl_reach encode decode reply handles name k \<equiv> (cl_step encode decode reply handles)\<^sup>*\<^sup>* (new_client name k)"

lemma cl_inv_new: "cl_inv (new_client name k)"
  by (simp add: cl_inv_def new_client_def calls_ok_def)

lemma cl_reach_inv:
  assumes "cl_reach encode decode reply handles name k0 cl" "cl_issued cl < 2 ^ 64"
  shows "cl_inv cl"
  using assms
proof (induction rule: rtranclp_induct)
  case base
  show ?case by (rule cl_inv_new)
next
  case (step cl cl')
  then have "cl_issued cl < 2 ^ 64" using cl_step_issued[OF step(2)] by simp
  then show ?case using cl_inv_step[OF step(2) step(3)] step(4) by blast
qed

text \<open>What the invariant says of one call.\<close>

lemma cl_inv_call:
  "cl_inv cl \<Longrightarrow> i < length (cl_calls cl) \<Longrightarrow>
     call_inv (cl_pending cl) (delivering (cl_reader cl)) i (cl_calls cl ! i)"
  by (simp add: cl_inv_def calls_ok_def)

section \<open>Written lines\<close>

definition pc_plain :: "call_pc \<Rightarrow> bool" where
  "pc_plain pc = (case pc of CallWrite l \<Rightarrow> plain_line l | _ \<Rightarrow> True)"

lemma pc_plain_simps [simp]:
  "pc_plain (CallWrite l) = plain_line l" "pc_plain CallOpen" "pc_plain (CallLeft e)" "pc_plain (CallGot r)"
  by (simp_all add: pc_plain_def)

definition answer_plain :: "'b answer_pc \<Rightarrow> bool" where
  "answer_plain pc = (case pc of AnswerWrite req l \<Rightarrow> plain_line l | _ \<Rightarrow> True)"

definition lines_plain :: "('k, 'b) client \<Rightarrow> bool" where
  "lines_plain cl \<longleftrightarrow> list_all plain_line (cl_written cl) \<and> list_all (\<lambda>c. pc_plain (ca_pc c)) (cl_calls cl)
     \<and> list_all answer_plain (cl_answers cl)"

lemma list_all_update: "list_all P xs \<Longrightarrow> (i < length xs \<Longrightarrow> P x) \<Longrightarrow> list_all P (xs[i := x])"
  by (cases "i < length xs") (auto simp: list_all_length nth_list_update)

lemma fail_pending_plain: "list_all (\<lambda>c. pc_plain (ca_pc c)) cs \<Longrightarrow> list_all (\<lambda>c. pc_plain (ca_pc c)) (fail_pending e ps cs)"
proof (induction e ps cs rule: fail_pending.induct)
  case (2 e i n ps cs)
  have "list_all (\<lambda>c. pc_plain (ca_pc c)) (cs[n := chan_put \<lparr>rp_id = i, rp_err = Some e, rp_data = []\<rparr> (cs ! n)])"
    by (rule list_all_update[OF "2.prems"]) (use "2.prems" in \<open>simp add: chan_put_def list_all_length\<close>)
  from "2.IH"[OF this] show ?case by simp
qed simp

lemma lines_plain_call_at:
  "lines_plain cl \<Longrightarrow> (i < length (cl_calls cl) \<Longrightarrow> pc_plain (ca_pc (f (cl_calls cl ! i)))) \<Longrightarrow> lines_plain (call_at i f cl)"
  by (simp add: lines_plain_def call_at_def list_all_update)

lemma lines_plain_answer_at: "lines_plain cl \<Longrightarrow> answer_plain pc \<Longrightarrow> lines_plain (answer_at i pc cl)"
  by (simp add: lines_plain_def answer_at_def list_all_update)

lemma lines_plain_same:
  "lines_plain cl \<Longrightarrow> cl_written cl' = cl_written cl \<Longrightarrow> cl_calls cl' = cl_calls cl \<Longrightarrow> cl_answers cl' = cl_answers cl \<Longrightarrow>
     lines_plain cl'"
  by (simp add: lines_plain_def)

lemma lines_plain_write: "lines_plain cl \<Longrightarrow> plain_line l \<Longrightarrow> lines_plain (fst (client_write l answer cl))"
  by (simp add: lines_plain_def client_write_def split: option.split)

context codec
begin

lemma encode_plain: "encode i cmd k = (Inr l, k') \<Longrightarrow> plain_line l"
  using encode_line by (simp add: plain_line_def)

lemma reply_plain: "reply req answer = Inr l \<Longrightarrow> plain_line l"
  using reply_line by (simp add: plain_line_def)

lemma step_plain:
  assumes s: "cl_step encode decode reply handles cl cl'" and p: "lines_plain cl"
  shows "lines_plain cl'"
  using s
proof (cases rule: cl_step.cases)
  case (cl_start cmd)
  then show ?thesis using p encode_plain
    by (auto simp: call_start_def call_register_def Let_def lines_plain_def pc_plain_def split: sum.splits option.splits prod.splits)
next
  case (cl_write i line answer)
  have "plain_line line" using p cl_write by (auto simp: lines_plain_def list_all_length pc_plain_def)
  then have w: "lines_plain (fst (client_write line answer cl))" using p by (rule lines_plain_write[rotated])
  show ?thesis
  proof (cases answer)
    case None
    then show ?thesis using cl_write(1) lines_plain_call_at[OF w, of i "\<lambda>c. c\<lparr>ca_pc := CallOpen\<rparr>"]
      by (simp add: call_write_def client_write_def pc_plain_def)
  next
    case (Some e)
    have "lines_plain (call_at i (\<lambda>x. x\<lparr>ca_pc := CallLeft (wrap (cl_name cl @ '': write'') e)\<rparr>) cl)"
      by (rule lines_plain_call_at[OF p]) (simp add: pc_plain_def)
    then show ?thesis using cl_write(1) Some
      by (auto simp: call_write_def client_write_def calls_forget_def intro: lines_plain_same)
  qed
next
  case (cl_recv i)
  have "pc_plain (ca_pc (cl_calls cl ! i))" using p cl_recv by (simp add: lines_plain_def list_all_length)
  then show ?thesis using cl_recv(1) p
    by (auto simp: call_recv_def pc_plain_def intro!: lines_plain_call_at split: list.splits)
next
  case (cl_leave i e)
  have "lines_plain (call_at i (\<lambda>x. x\<lparr>ca_pc := CallLeft e\<rparr>) cl)"
    by (rule lines_plain_call_at[OF p]) (simp add: pc_plain_def)
  then show ?thesis using cl_leave(1) by (auto simp: call_leave_def calls_forget_def intro: lines_plain_same)
next
  case (cl_notify cmd answer)
  have k: "lines_plain (cl\<lparr>cl_codec := k\<rparr>)" for k using p by (rule lines_plain_same) simp_all
  then show ?thesis using cl_notify
    by (auto simp: client_notify_def intro!: lines_plain_write[OF k encode_plain] split: sum.splits prod.splits)
next
  case (cl_line line)
  then show ?thesis
    by (auto simp: reader_line_def reader_at_def client_push_def intro!: lines_plain_same[OF p] split: sum.splits prod.splits)
next
  case (cl_resolve f)
  then show ?thesis
    by (auto simp: reader_resolve_def reader_at_def calls_forget_def intro!: lines_plain_same[OF p] split: option.splits)
next
  case (cl_deliver i r f)
  have "lines_plain (call_at i (chan_put r) cl)"
    by (rule lines_plain_call_at[OF p]) (use p in \<open>simp add: chan_put_def lines_plain_def list_all_length\<close>)
  then show ?thesis using cl_deliver(1) by (auto simp: reader_deliver_def reader_at_def intro: lines_plain_same)
next
  case (cl_answer f)
  then show ?thesis using p
    by (auto simp: reader_answer_def reader_at_def client_push_def lines_plain_def answer_plain_def split: option.splits)
next
  case (cl_push f)
  then show ?thesis by (auto simp: reader_push_def reader_at_def client_push_def intro!: lines_plain_same[OF p])
next
  case cl_end
  then show ?thesis by (auto simp: reader_at_def intro!: lines_plain_same[OF p])
next
  case (cl_fail exited)
  then show ?thesis using p
    by (simp add: reader_fail_def reader_at_def calls_fail_def lines_plain_def fail_pending_plain)
next
  case cl_stop
  then show ?thesis by (auto simp: reader_stop_def reader_at_def intro!: lines_plain_same[OF p])
next
  case cl_close
  then show ?thesis by (auto simp: reader_close_def reader_at_def intro!: lines_plain_same[OF p])
next
  case (cl_handle i req answer)
  then show ?thesis using reply_plain
    by (auto simp: answer_handle_def answer_plain_def intro!: lines_plain_answer_at[OF p] split: sum.splits prod.splits)
next
  case (cl_reply i req line answer')
  have "plain_line line" using p cl_reply by (auto simp: lines_plain_def list_all_length answer_plain_def)
  then have w: "lines_plain (fst (client_write line answer' cl))" using p by (rule lines_plain_write[rotated])
  show ?thesis using cl_reply(1) lines_plain_answer_at[OF w, of AnswerDone i] lines_plain_answer_at[OF p]
    by (cases answer') (simp_all add: answer_write_def client_write_def answer_plain_def)
next
  case (cl_report i e)
  have "lines_plain (if cl_stopped cl then cl else client_push [client_error e] cl)"
    using p by (auto simp: client_push_def intro!: lines_plain_same[OF p])
  then show ?thesis using cl_report(1) by (simp add: answer_report_def lines_plain_answer_at answer_plain_def)
next
  case cl_cancel
  then show ?thesis by (auto simp: client_cancel_def intro!: lines_plain_same[OF p])
next
  case (cl_pump q)
  then show ?thesis by (auto intro!: lines_plain_same[OF p])
qed

text \<open>What the driver reads are the lines the Client wrote.\<close>

lemma driver_reads:
  assumes "cl_reach encode decode reply handles name k0 cl"
  shows "read_lines (concat (map write_line (cl_written cl))) = cl_written cl"
proof -
  have "lines_plain cl" using assms
    by (induction rule: rtranclp_induct) (simp add: lines_plain_def new_client_def, rule step_plain)
  then show ?thesis by (simp add: lines_plain_def read_written)
qed

end


section \<open>Properties\<close>

text \<open>
  C12: A response reaches the call it answers and no other. Until the call ids wrap, every call's
  channel holds at most one response, the one with the call's id, a call returns only with its
  own response, no two calls share an id, and delivering never waits: the channel the reader is
  about to fill, and every one that fail would fill, is empty (harness/stdio/calls.go).
\<close>

theorem calls_matched:
  assumes "cl_reach encode decode reply handles name k0 cl" "cl_issued cl < 2 ^ 64" "i < length (cl_calls cl)"
  shows "length (ca_chan (cl_calls cl ! i)) \<le> 1
    \<and> (\<forall>r \<in> set (ca_chan (cl_calls cl ! i)). rp_id r = ca_id (cl_calls cl ! i))
    \<and> (\<forall>r. ca_pc (cl_calls cl ! i) = CallGot r \<longrightarrow> rp_id r = ca_id (cl_calls cl ! i))
    \<and> (\<forall>j < length (cl_calls cl). ca_id (cl_calls cl ! j) = ca_id (cl_calls cl ! i) \<longrightarrow> j = i)
    \<and> (\<forall>r f. cl_reader cl = ReaderDeliver i r f \<longrightarrow>
          ca_chan (cl_calls cl ! i) = [] \<and> rp_id r = ca_id (cl_calls cl ! i))
    \<and> (\<forall>k. map_of (cl_pending cl) k = Some i \<longrightarrow>
          ca_chan (cl_calls cl ! i) = [] \<and> ca_id (cl_calls cl ! i) = k)"
proof -
  have c: "cl_inv cl" by (rule cl_reach_inv[OF assms(1,2)])
  note i = cl_inv_call[OF c assms(3)]
  have "distinct (map ca_id (cl_calls cl))" using c by (simp add: cl_inv_def calls_ok_def)
  then have "j < length (cl_calls cl) \<Longrightarrow> ca_id (cl_calls cl ! j) = ca_id (cl_calls cl ! i) \<Longrightarrow> j = i" for j
    using assms(3) nth_eq_iff_index_eq[of "map ca_id (cl_calls cl)" j i] by simp
  moreover have "cl_reader cl = ReaderDeliver i r f \<Longrightarrow> ca_chan (cl_calls cl ! i) = [] \<and> rp_id r = ca_id (cl_calls cl ! i)" for r f
    using i c by (simp add: call_inv_def cl_inv_def calls_ok_def)
  moreover have "map_of (cl_pending cl) k = Some i \<Longrightarrow> ca_chan (cl_calls cl ! i) = [] \<and> ca_id (cl_calls cl ! i) = k" for k
    using calls_ok_pending[OF c[unfolded cl_inv_def], of k i] i by (simp add: call_inv_def)
  moreover have "r \<in> set (ca_chan (cl_calls cl ! i)) \<Longrightarrow> rp_id r = ca_id (cl_calls cl ! i)" for r
    using i by (auto simp: call_inv_def list_all_iff)
  moreover have "length (ca_chan (cl_calls cl ! i)) \<le> 1" "ca_pc (cl_calls cl ! i) = CallGot r \<Longrightarrow> rp_id r = ca_id (cl_calls cl ! i)" for r
    using i by (simp_all add: call_inv_def)
  ultimately show ?thesis by blast
qed

text \<open>
  C13: No call is left hanging. Once the driver's output has ended and its calls have been failed,
  every call has returned, or has its response or the failure waiting in its channel, and every
  later call fails at once with the same error or the codec's (harness/stdio/client.go: read, send).
\<close>

theorem calls_end:
  assumes "cl_reach encode decode reply handles name k0 cl" "cl_issued cl < 2 ^ 64" "reader_over (cl_reader cl)"
  shows "list_all (\<lambda>c. ca_chan c \<noteq> [] \<or> (case ca_pc c of CallGot r \<Rightarrow> True | CallLeft e \<Rightarrow> True | _ \<Rightarrow> False)) (cl_calls cl)
    \<and> (\<exists>e. cl_err cl = Some e \<and> snd (call_start encode' cmd cl)
          = Inl (case fst (encode' (call_id (cl_issued cl + 1)) cmd (cl_codec cl)) of Inl x \<Rightarrow> x | Inr l \<Rightarrow> e))"
proof -
  have c: "cl_inv cl" by (rule cl_reach_inv[OF assms(1,2)])
  then have p: "cl_pending cl = []" "cl_err cl \<noteq> None" using assms(3) by (auto simp: cl_inv_def calls_ok_def)
  have d: "delivering (cl_reader cl) = None" using assms(3) by (cases "cl_reader cl") simp_all
  have "ca_chan (cl_calls cl ! i) \<noteq> [] \<or> (case ca_pc (cl_calls cl ! i) of CallGot r \<Rightarrow> True | CallLeft e \<Rightarrow> True | _ \<Rightarrow> False)"
    if "i < length (cl_calls cl)" for i
    using cl_inv_call[OF c that] unfolding p(1) d call_inv_def by (cases "ca_pc (cl_calls cl ! i)") simp_all
  then have l: "list_all (\<lambda>c. ca_chan c \<noteq> [] \<or> (case ca_pc c of CallGot r \<Rightarrow> True | CallLeft e \<Rightarrow> True | _ \<Rightarrow> False)) (cl_calls cl)"
    unfolding list_all_length by blast
  have "\<exists>e. cl_err cl = Some e \<and> snd (call_start encode' cmd cl)
          = Inl (case fst (encode' (call_id (cl_issued cl + 1)) cmd (cl_codec cl)) of Inl x \<Rightarrow> x | Inr l \<Rightarrow> e)"
    using p(2) by (auto simp: call_start_def call_register_def Let_def split: sum.split prod.split)
  with l show ?thesis by (rule conjI)
qed

text \<open>
  What is kept of a driver's stderr is its end: after any writes, the tail holds the last
  bytes written, never more than its bound (harness/stdio/process.go: tail).
\<close>

theorem tail_keeps_end:
  "fold (tail_write n) bs [] = drop (length (concat bs) - n) (concat bs)
     \<and> length (fold (tail_write n) bs []) = min n (length (concat bs))"
  using tail_writes[of n bs "[]"] by (simp add: last_n_def)

text \<open>A client of a harness that answers a command with the command's id, for the examples.\<close>

definition echo_encode :: "string \<Rightarrow> string \<Rightarrow> unit \<Rightarrow> (err + string) \<times> unit" where
  "echo_encode i cmd k = (Inr (i @ cmd), k)"

definition echo_decode :: "string \<Rightarrow> unit \<Rightarrow> (err + unit line_frame) \<times> unit" where
  "echo_decode line k = (Inr (empty_frame\<lparr>fr_response := Some \<lparr>rp_id = line, rp_err = None, rp_data = []\<rparr>\<rparr>), k)"

definition echo_reply :: "unit hrequest \<Rightarrow> unit \<Rightarrow> err + string" where
  "echo_reply req answer = Inr (hq_id req)"

abbreviation echo_reach :: "(unit, unit) client \<Rightarrow> bool" where
  "echo_reach \<equiv> cl_reach echo_encode echo_decode echo_reply False ''echo'' ()"

lemma call_id_1: "call_id 1 = ''1''"
  by code_simp

lemma echo_started:
  "echo_reach ((new_client ''echo'' ())\<lparr>cl_issued := 1,
     cl_calls := [\<lparr>ca_id = ''1'', ca_chan = [], ca_pc = CallWrite ''1hi''\<rparr>], cl_pending := [(''1'', 0)]\<rparr>)"
proof -
  have "echo_reach (fst (call_start echo_encode ''hi'' (new_client ''echo'' ())))"
    by (rule r_into_rtranclp) (rule cl_start)
  then show ?thesis by (simp add: call_start_def call_register_def new_client_def echo_encode_def call_id_1[unfolded One_nat_def] Let_def)
qed

theorem calls_end_witness:
  "\<exists>cl. echo_reach cl \<and> cl_issued cl < 2 ^ 64 \<and> reader_over (cl_reader cl) \<and> length (cl_calls cl) = 1
     \<and> list_all (\<lambda>c. ca_chan c \<noteq> [] \<or> (case ca_pc c of CallGot r \<Rightarrow> True | CallLeft e \<Rightarrow> True | _ \<Rightarrow> False)) (cl_calls cl)"
proof -
  let ?s = "(new_client ''echo'' ())\<lparr>cl_issued := 1,
     cl_calls := [\<lparr>ca_id = ''1'', ca_chan = [], ca_pc = CallWrite ''1hi''\<rparr>], cl_pending := [(''1'', 0)]\<rparr>"
  let ?e = "reader_fail None (reader_at ReaderFail ?s)"
  have "echo_reach (reader_at ReaderFail ?s)"
    by (rule rtranclp.rtrancl_into_rtrancl[OF echo_started]) (rule cl_end, simp add: new_client_def)
  then have r: "echo_reach ?e"
    by (rule rtranclp.rtrancl_into_rtrancl) (rule cl_fail, simp add: reader_at_def)
  have e: "cl_issued ?e < 2 ^ 64" "reader_over (cl_reader ?e)" "length (cl_calls ?e) = 1"
    by (simp_all add: reader_fail_def reader_at_def calls_fail_def new_client_def)
  show ?thesis
    by (intro exI[of _ ?e] conjI r e conjunct1[OF calls_end[OF r e(1,2), of echo_encode "''hi''"]])
qed

theorem calls_matched_witness:
  "\<exists>cl r. echo_reach cl \<and> cl_issued cl < 2 ^ 64 \<and> length (cl_calls cl) = 1
     \<and> r \<in> set (ca_chan (cl_calls cl ! 0)) \<and> rp_id r = ca_id (cl_calls cl ! 0)"
proof -
  let ?s = "(new_client ''echo'' ())\<lparr>cl_issued := 1,
     cl_calls := [\<lparr>ca_id = ''1'', ca_chan = [], ca_pc = CallWrite ''1hi''\<rparr>], cl_pending := [(''1'', 0)]\<rparr>"
  let ?r = "\<lparr>rp_id = ''1'', rp_err = None, rp_data = []\<rparr>"
  let ?f = "empty_frame\<lparr>fr_response := Some ?r\<rparr>"
  let ?w = "call_write 0 ''1hi'' None ?s"
  let ?l = "reader_line echo_decode ''1'' ?w"
  let ?v = "reader_resolve ?f ?l"
  let ?d = "reader_deliver 0 ?r ?f ?v"
  note defs = call_write_def client_write_def call_at_def new_client_def reader_line_def echo_decode_def reader_at_def
    reader_resolve_def reader_deliver_def calls_forget_def chan_put_def empty_frame_def
  have "echo_reach ?w"
    by (rule rtranclp.rtrancl_into_rtrancl[OF echo_started], rule cl_write) (simp_all add: new_client_def)
  then have "echo_reach ?l" by (rule rtranclp.rtrancl_into_rtrancl) (rule cl_line, simp add: defs)
  then have "echo_reach ?v" by (rule rtranclp.rtrancl_into_rtrancl) (rule cl_resolve, simp add: defs)
  then have d: "echo_reach ?d"
    by (rule rtranclp.rtrancl_into_rtrancl) (rule cl_deliver; simp add: defs)
  have e: "cl_issued ?d < 2 ^ 64" "length (cl_calls ?d) = 1" "?r \<in> set (ca_chan (cl_calls ?d ! 0))"
    by (simp_all add: defs)
  have "0 < length (cl_calls ?d)" unfolding e(2) by (rule zero_less_one)
  from calls_matched[OF d e(1) this] show ?thesis using d e by blast
qed

end
