(* ===== verification/Json_Encode.thy ===== *)
theory Json_Encode
  imports Json "HOL-Library.List_Lexorder" "HOL-Library.Char_ord"
begin

text \<open>
  The part of encoding/json the program writes with: json.Marshal of the values its wire types
  are made of, and json.Compact. The lemmas show what the line protocols rely on: what Marshal
  writes holds no line feed, so it is one line.
\<close>

section \<open>Strings\<close>

text \<open>
  Quotes, backslashes, control characters, the characters HTML reads and the separators U+2028
  and U+2029 are escaped.
\<close>

definition json_char :: "char \<Rightarrow> string" where
  "json_char c =
     (let n = of_char c :: nat in
      if n = 34 \<or> n = 0x5C then [CHR 0x5C, c]
      else if n = 8 then CHR 0x5C # ''b''
      else if n = 12 then CHR 0x5C # ''f''
      else if n = 10 then CHR 0x5C # ''n''
      else if n = 13 then CHR 0x5C # ''r''
      else if n = 9 then CHR 0x5C # ''t''
      else if n < 32 \<or> c = CHR ''<'' \<or> c = CHR ''>'' \<or> c = CHR ''&''
        then CHR 0x5C # ''u00'' @ [hex_digit (n div 16), hex_digit n]
      else [c])"

definition separator :: "string \<Rightarrow> string option" where
  "separator s =
     (if take 3 s = [CHR 0xE2, CHR 0x80, CHR 0xA8] then Some (CHR 0x5C # ''u2028'')
      else if take 3 s = [CHR 0xE2, CHR 0x80, CHR 0xA9] then Some (CHR 0x5C # ''u2029'')
      else None)"

function json_chars :: "string \<Rightarrow> string" where
  "json_chars [] = []"
| "json_chars (c # s) =
     (case separator (c # s) of
        Some e \<Rightarrow> e @ json_chars (drop 2 s)
      | None \<Rightarrow> json_char c @ json_chars s)"
  by pat_completeness auto
termination by (relation "measure length") auto

definition json_string :: "string \<Rightarrow> string" where
  "json_string s = [CHR 0x22] @ json_chars s @ [CHR 0x22]"

text \<open>An object of members already rendered, in order.\<close>

definition json_object :: "(string \<times> string) list \<Rightarrow> string" where
  "json_object ms = ''{'' @ join '','' (map (\<lambda>(k, v). json_string k @ '':'' @ v) ms) @ ''}''"

definition json_array :: "string list \<Rightarrow> string" where
  "json_array vs = ''['' @ join '','' vs @ '']''"

section \<open>Compact\<close>

text \<open>json.Compact: white space outside strings goes.\<close>

fun compact_from :: "bool \<Rightarrow> string \<Rightarrow> string" where
  "compact_from q [] = []"
| "compact_from True (c # s) =
     (if c = CHR 0x5C then (case s of [] \<Rightarrow> [c] | e # s' \<Rightarrow> c # e # compact_from True s')
      else c # compact_from (c \<noteq> CHR 0x22) s)"
| "compact_from False (c # s) =
     (if is_ws c then compact_from False s else c # compact_from (c = CHR 0x22) s)"

definition json_compact :: "string \<Rightarrow> string option" where
  "json_compact s = (if json_valid s then Some (compact_from False s) else None)"

text \<open>A json.RawMessage inside a Marshal: null when nil, else compacted, with HTML's characters escaped.\<close>

function html_escape :: "string \<Rightarrow> string" where
  "html_escape [] = []"
| "html_escape (c # s) =
     (case separator (c # s) of
        Some e \<Rightarrow> e @ html_escape (drop 2 s)
      | None \<Rightarrow> (if c = CHR ''<'' \<or> c = CHR ''>'' \<or> c = CHR ''&'' then json_char c else [c]) @ html_escape s)"
  by pat_completeness auto
termination by (relation "measure length") auto

definition json_raw :: "string \<Rightarrow> string option" where
  "json_raw r = (if r = [] then Some ''null'' else map_option html_escape (json_compact r))"

section \<open>Marshal\<close>

text \<open>
  A value to be marshalled. A struct's members come in its fields' order, without those an
  omitempty left out; a map's are sorted by key.
\<close>

datatype goval =
    GNull
  | GBool bool
  | GInt int
  | GStr string
  | GRaw string
  | GList "goval list"
  | GStruct "(string \<times> goval) list"
  | GMap "(string \<times> goval) list"

fun marshal :: "goval \<Rightarrow> string option"
  and marshal_list :: "goval list \<Rightarrow> string list option"
  and marshal_members :: "(string \<times> goval) list \<Rightarrow> (string \<times> string) list option" where
  "marshal GNull = Some ''null''"
| "marshal (GBool b) = Some (if b then ''true'' else ''false'')"
| "marshal (GInt i) = Some (int_text i)"
| "marshal (GStr s) = Some (json_string s)"
| "marshal (GRaw r) = json_raw r"
| "marshal (GList vs) = map_option json_array (marshal_list vs)"
| "marshal (GStruct ms) = map_option json_object (marshal_members ms)"
| "marshal (GMap ms) = map_option (\<lambda>rs. json_object (sort_key fst rs)) (marshal_members ms)"
| "marshal_list [] = Some []"
| "marshal_list (v # vs) =
     (case marshal v of
        None \<Rightarrow> None
      | Some r \<Rightarrow> map_option ((#) r) (marshal_list vs))"
| "marshal_members [] = Some []"
| "marshal_members ((k, v) # ms) =
     (case marshal v of
        None \<Rightarrow> None
      | Some r \<Rightarrow> map_option ((#) (k, r)) (marshal_members ms))"

text \<open>A member with omitempty.\<close>

definition omit_str :: "string \<Rightarrow> string \<Rightarrow> (string \<times> goval) list" where
  "omit_str k s = (if s = [] then [] else [(k, GStr s)])"

definition omit_raw :: "string \<Rightarrow> string \<Rightarrow> (string \<times> goval) list" where
  "omit_raw k s = (if s = [] then [] else [(k, GRaw s)])"

definition omit_bool :: "string \<Rightarrow> bool \<Rightarrow> (string \<times> goval) list" where
  "omit_bool k b = (if b then [(k, GBool True)] else [])"

definition omit_list :: "string \<Rightarrow> goval list \<Rightarrow> (string \<times> goval) list" where
  "omit_list k vs = (if vs = [] then [] else [(k, GList vs)])"

section \<open>One line\<close>

text \<open>Inside a string: text that compaction keeps as it is, to the string's end or short of it.\<close>

abbreviation newline :: char where
  "newline \<equiv> CHR 0x0A"

definition str_inner :: "string \<Rightarrow> bool" where
  "str_inner p \<longleftrightarrow> newline \<notin> set p \<and> (\<forall>u. compact_from True (p @ u) = p @ compact_from True u)"

definition str_piece :: "string \<Rightarrow> bool" where
  "str_piece p \<longleftrightarrow> newline \<notin> set p \<and> (\<forall>u. compact_from True (p @ u) = p @ compact_from False u)"

lemma str_inner_append: "str_inner p \<Longrightarrow> str_inner q \<Longrightarrow> str_inner (p @ q)"
  by (simp add: str_inner_def)

lemma str_piece_append: "str_inner p \<Longrightarrow> str_piece q \<Longrightarrow> str_piece (p @ q)"
  by (simp add: str_inner_def str_piece_def)

lemma str_inner_char: "c \<noteq> CHR 0x22 \<Longrightarrow> c \<noteq> CHR 0x5C \<Longrightarrow> c \<noteq> newline \<Longrightarrow> str_inner [c]"
  by (simp add: str_inner_def)

lemma str_inner_escape: "e \<noteq> newline \<Longrightarrow> str_inner [CHR 0x5C, e]"
  by (simp add: str_inner_def)

lemma str_piece_quote: "str_piece [CHR 0x22]"
  by (simp add: str_piece_def)

lemma str_inner_plain: "list_all (\<lambda>c. c \<noteq> CHR 0x22 \<and> c \<noteq> CHR 0x5C \<and> c \<noteq> newline) p \<Longrightarrow> str_inner p"
proof (induction p)
  case (Cons c p)
  then show ?case using str_inner_append[OF str_inner_char[of c], of p] by simp
qed (simp add: str_inner_def)

lemma foldl_Some:
  assumes "\<And>acc c y. f acc c = Some y \<Longrightarrow> acc \<noteq> None \<and> P c"
  shows "foldl f acc cs = Some u \<Longrightarrow> list_all P cs"
proof (induction cs arbitrary: u rule: rev_induct)
  case (snoc c cs)
  then show ?case using assms[of "foldl f acc cs" c u] by auto
qed simp

lemma hex4_digits: "hex4 s = Some u \<Longrightarrow> 4 \<le> length s \<and> list_all (\<lambda>c. hex_val c \<noteq> None) (take 4 s)"
proof -
  let ?f = "\<lambda>acc c. case (acc, hex_val c) of (Some a, Some d) \<Rightarrow> Some (16 * a + d) | _ \<Rightarrow> None"
  have f: "acc \<noteq> None \<and> hex_val c \<noteq> None" if "?f acc c = Some y" for acc c y
    using that by (auto split: option.splits)
  assume "hex4 s = Some u"
  then have h: "4 \<le> length s" "foldl ?f (Some 0) (take 4 s) = Some u" by (auto simp: hex4_def split: if_splits)
  have "list_all (\<lambda>c. hex_val c \<noteq> None) (take 4 s)" by (rule foldl_Some[OF _ h(2)]) (rule f)
  then show ?thesis using h(1) by blast
qed

lemma hex4_inner: "hex4 s = Some u \<Longrightarrow> str_inner ([CHR 0x5C, CHR ''u''] @ take 4 s)"
proof -
  assume "hex4 s = Some u"
  then have "list_all (\<lambda>c. hex_val c \<noteq> None) (take 4 s)" using hex4_digits by blast
  moreover have "c \<noteq> CHR 0x22 \<and> c \<noteq> CHR 0x5C \<and> c \<noteq> newline" if "hex_val c \<noteq> None" for c
    using that by (auto simp: hex_val_def Let_def)
  ultimately have "list_all (\<lambda>c. c \<noteq> CHR 0x22 \<and> c \<noteq> CHR 0x5C \<and> c \<noteq> newline) (take 4 s)"
    by (rule list.pred_mono_strong)
  then have "str_inner (take 4 s)" by (rule str_inner_plain)
  then show ?thesis using str_inner_append[OF str_inner_escape[of "CHR ''u''"]] by simp
qed

lemma low_surrogate_inner:
  "low_surrogate s = Some l \<Longrightarrow> 6 \<le> length s \<and> str_inner (take 6 s)"
proof -
  assume "low_surrogate s = Some l"
  then obtain t where t: "s = CHR 0x5C # CHR ''u'' # t" "hex4 t = Some l"
    by (auto simp: low_surrogate_def split: list.splits if_splits option.splits)
  then have "take 6 s = [CHR 0x5C, CHR ''u''] @ take 4 t" by simp
  then show ?thesis using t hex4_inner[OF t(2)] hex4_digits[OF t(2)] by simp
qed

text \<open>A string's body up to and with its closing quote.\<close>

lemma str_body_piece: "str_body s = Some (t, r) \<Longrightarrow> \<exists>p. s = p @ r \<and> str_piece p"
proof (induction "length s" arbitrary: s t rule: less_induct)
  case less
  have IH: "\<exists>p. s = (q @ p) @ r \<and> str_piece (q @ p)"
    if b: "str_body x = Some (a, r)" and q: "str_inner q" "s = q @ x" "q \<noteq> []" for x a q
  proof -
    have "length x < length s" using q by simp
    from less.hyps[OF this b] obtain p where "x = p @ r" "str_piece p" by blast
    then show ?thesis using q str_piece_append by auto
  qed
  obtain c s' where s: "s = c # s'" using less.prems by (cases s) auto
  consider (quote) "c = CHR 0x22" | (plain) "c \<noteq> CHR 0x22" "c \<noteq> CHR 0x5C" | (escape) "c = CHR 0x5C" by blast
  then show ?case
  proof cases
    case quote
    then have "s = [c] @ r" using less.prems s by simp
    then show ?thesis using quote str_piece_quote by blast
  next
    case plain
    then have "\<not> (of_char c :: nat) < 32" using less.prems s by (auto split: if_splits)
    then have "str_inner [c]" using plain by (auto intro!: str_inner_char)
    moreover obtain a where "str_body s' = Some (a, r)" using less.prems s plain by (auto split: if_splits)
    ultimately show ?thesis using IH[of s' a "[c]"] s by auto
  next
    case escape
    then obtain e s'' where s': "s' = e # s''" using less.prems s by (auto split: list.splits if_splits)
    show ?thesis
    proof (cases "e = CHR ''u''")
      case True
      then obtain u where h: "hex4 s'' = Some u" using less.prems s s' escape by (auto split: option.splits if_splits)
      let ?q = "[CHR 0x5C, CHR ''u''] @ take 4 s''"
      have q: "str_inner ?q" using hex4_inner[OF h] .
      have s4: "s = ?q @ drop 4 s''" using s s' escape True by simp
      consider (pair) l a where "low_surrogate (drop 4 s'') = Some l" "str_body (drop 10 s'') = Some (a, r)"
        | (single) a where "str_body (drop 4 s'') = Some (a, r)"
        using less.prems s s' escape True h by (auto split: option.splits if_splits)
      then show ?thesis
      proof cases
        case pair
        note l = low_surrogate_inner[OF pair(1)]
        have "take 6 (drop 4 s'') @ drop 10 s'' = drop 4 s''"
          using append_take_drop_id[of 6 "drop 4 s''"] by (simp add: add.commute)
        then have "s = (?q @ take 6 (drop 4 s'')) @ drop 10 s''" using s4 by simp
        moreover have "str_inner (?q @ take 6 (drop 4 s''))" using str_inner_append[OF q] l by blast
        ultimately show ?thesis using IH[OF pair(2)] by blast
      next
        case single
        show ?thesis using IH[OF single q s4] by blast
      qed
    next
      case False
      then obtain d a where d: "simple_escape e = Some d" "str_body s'' = Some (a, r)"
        using less.prems s s' escape by (auto split: option.splits if_splits)
      then have "e \<noteq> newline" by (auto simp: simple_escape_def split: if_splits)
      then show ?thesis using IH[OF d(2) str_inner_escape, of e] s s' escape by auto
    qed
  qed
qed

text \<open>Outside strings: text whose compaction doesn't depend on what follows, and is one line.\<close>

definition piece :: "string \<Rightarrow> bool" where
  "piece p \<longleftrightarrow> newline \<notin> set (compact_from False p)
     \<and> (\<forall>u. compact_from False (p @ u) = compact_from False p @ compact_from False u)"

lemma piece_append: "piece p \<Longrightarrow> piece q \<Longrightarrow> piece (p @ q)"
  by (simp add: piece_def)

lemma piece_plain: "CHR 0x22 \<notin> set p \<Longrightarrow> piece p"
  by (induction p) (auto simp: piece_def is_ws_def)

lemma piece_Nil [simp]: "piece []"
  by (simp add: piece_def)

lemma piece_Cons: "c \<noteq> CHR 0x22 \<Longrightarrow> piece p \<Longrightarrow> piece (c # p)"
  using piece_append[OF piece_plain[of "[c]"], of p] by simp

lemma piece_string: "str_piece p \<Longrightarrow> piece (CHR 0x22 # p)"
proof -
  assume p: "str_piece p"
  have "compact_from True (p @ u) = p @ compact_from False u" for u using p by (simp add: str_piece_def)
  from this[of "[]"] this show ?thesis using p by (simp add: piece_def is_ws_def str_piece_def)
qed

lemma piece_skip: "\<exists>p. s = p @ skip_ws s \<and> piece p"
proof -
  have "CHR 0x22 \<notin> set (takeWhile is_ws s)" using set_takeWhileD[of "CHR 0x22" is_ws s] by (auto simp: is_ws_def)
  then show ?thesis using takeWhile_dropWhile_id[of is_ws s] piece_plain unfolding skip_ws_def by metis
qed

lemma scan_digits_piece: "scan_digits s = Some (d, r) \<Longrightarrow> s = d @ r \<and> CHR 0x22 \<notin> set d"
  using set_takeWhileD[of "CHR 0x22" is_digit s] by (auto simp: scan_digits_def is_digit_def split: if_splits)

lemma scan_int_piece: "scan_int s = Some (d, r) \<Longrightarrow> s = d @ r \<and> CHR 0x22 \<notin> set d"
  using scan_digits_piece by (auto simp: scan_int_def split: list.splits if_splits)

lemma scan_frac_piece: "scan_frac s = Some (d, r) \<Longrightarrow> s = d @ r \<and> CHR 0x22 \<notin> set d"
  using scan_digits_piece by (auto simp: scan_frac_def split: list.splits if_splits)

lemma scan_exp_piece: "scan_exp s = Some (d, r) \<Longrightarrow> s = d @ r \<and> CHR 0x22 \<notin> set d"
  using scan_digits_piece by (fastforce simp: scan_exp_def split: list.splits if_splits)

lemma scan_number_piece: "scan_number s = Some (d, r) \<Longrightarrow> s = d @ r \<and> CHR 0x22 \<notin> set d"
  by (fastforce simp: scan_number_def Let_def split: list.splits if_splits option.splits
      dest: scan_int_piece scan_frac_piece scan_exp_piece)

lemma scan_lit_piece:
  "scan_lit w v s = Some (x, r) \<Longrightarrow> CHR 0x22 \<notin> set w \<Longrightarrow> \<exists>p. s = p @ r \<and> piece p"
proof -
  assume "scan_lit w v s = Some (x, r)" and w: "CHR 0x22 \<notin> set w"
  then have "take (length w) s = w" "r = drop (length w) s" by (auto simp: scan_lit_def has_prefix_def split: if_splits)
  then have "s = w @ r" using append_take_drop_id[of "length w" s] by simp
  then show ?thesis using piece_plain[OF w] by blast
qed

text \<open>A scan that reads one piece.\<close>

definition reads_to :: "string \<Rightarrow> string \<Rightarrow> bool" where
  "reads_to s r \<longleftrightarrow> (\<exists>p. s = p @ r \<and> piece p)"

lemma reads_trans:
  assumes "reads_to s t" "reads_to t r"
  shows "reads_to s r"
proof -
  obtain p q where "s = p @ t" "piece p" "t = q @ r" "piece q" using assms by (auto simp: reads_to_def)
  then have "s = (p @ q) @ r" "piece (p @ q)" using piece_append by simp_all
  then show ?thesis unfolding reads_to_def by blast
qed

lemma reads_refl: "reads_to s s"
  by (simp add: reads_to_def)

lemma reads_char: "c \<noteq> CHR 0x22 \<Longrightarrow> reads_to s r \<Longrightarrow> reads_to (c # s) r"
proof -
  assume c: "c \<noteq> CHR 0x22" and "reads_to s r"
  then obtain p where "s = p @ r" "piece p" by (auto simp: reads_to_def)
  then have "c # s = (c # p) @ r" "piece (c # p)" using piece_Cons[OF c] by simp_all
  then show ?thesis unfolding reads_to_def by blast
qed

lemma reads_skip: "reads_to (skip_ws s) r \<Longrightarrow> reads_to s r"
proof -
  have "reads_to s (skip_ws s)" unfolding reads_to_def by (rule piece_skip)
  then show "reads_to (skip_ws s) r \<Longrightarrow> reads_to s r" by (rule reads_trans)
qed

lemma reads_skip_char: "skip_ws s = c # t \<Longrightarrow> c \<noteq> CHR 0x22 \<Longrightarrow> reads_to t r \<Longrightarrow> reads_to s r"
  using reads_skip reads_char by metis

lemma reads_string: "str_body t = Some (a, s) \<Longrightarrow> reads_to s r \<Longrightarrow> reads_to (CHR 0x22 # t) r"
proof -
  assume b: "str_body t = Some (a, s)" and r: "reads_to s r"
  obtain p where "t = p @ s" "str_piece p" using str_body_piece[OF b] by blast
  then have "CHR 0x22 # t = (CHR 0x22 # p) @ s" "piece (CHR 0x22 # p)" using piece_string by simp_all
  then have "reads_to (CHR 0x22 # t) s" unfolding reads_to_def by blast
  then show ?thesis using r by (rule reads_trans)
qed

lemma reads_number: "scan_number s = Some (d, r) \<Longrightarrow> reads_to s r"
  unfolding reads_to_def using scan_number_piece piece_plain by blast

lemma reads_lit: "scan_lit w v s = Some (x, r) \<Longrightarrow> CHR 0x22 \<notin> set w \<Longrightarrow> reads_to s r"
  unfolding reads_to_def using scan_lit_piece by blast

lemma jscan_reads:
  "(\<forall>s v r. jvalue n s = Some (v, r) \<longrightarrow> reads_to s r)
   \<and> (\<forall>s es r. jelems n s = Some (es, r) \<longrightarrow> reads_to s r)
   \<and> (\<forall>s ms r. jmembers n s = Some (ms, r) \<longrightarrow> reads_to s r)"
proof (induction n)
  case (Suc n)
  have V: "jvalue n s = Some (v, r) \<Longrightarrow> reads_to s r" for s v r using Suc.IH by blast
  have E: "jelems n s = Some (es, r) \<Longrightarrow> reads_to s r" for s es r using Suc.IH by blast
  have M: "jmembers n s = Some (ms, r) \<Longrightarrow> reads_to s r" for s ms r using Suc.IH by blast
  have "reads_to s r" if j: "jvalue (Suc n) s = Some (v, r)" for s v r
  proof -
    obtain c t where s: "s = c # t" using j by (cases s) auto
    consider (obj) "c = CHR ''{''" | (arr) "c = CHR ''[''" | (str) "c = CHR 0x22"
      | (lit) "c = CHR ''n'' \<or> c = CHR ''t'' \<or> c = CHR ''f''"
      | (num) "c \<noteq> CHR ''{''" "c \<noteq> CHR ''[''" "c \<noteq> CHR 0x22" "c \<noteq> CHR ''n''" "c \<noteq> CHR ''t''" "c \<noteq> CHR ''f''"
      by blast
    then show ?thesis
    proof cases
      case obj
      then obtain d u where u: "skip_ws t = d # u" using j s by (auto split: list.splits)
      then have "reads_to t r" using j s obj reads_skip_char[OF u _ reads_refl] reads_skip[of t] M
        by (auto split: if_splits)
      then show ?thesis using s obj by (auto intro: reads_char)
    next
      case arr
      then obtain d u where u: "skip_ws t = d # u" using j s by (auto split: list.splits)
      then have "reads_to t r" using j s arr reads_skip_char[OF u _ reads_refl] reads_skip[of t] E
        by (auto split: if_splits)
      then show ?thesis using s arr by (auto intro: reads_char)
    next
      case str
      then show ?thesis using j s reads_string[OF _ reads_refl] by auto
    next
      case lit
      then show ?thesis using j s by (auto split: if_splits dest: reads_lit)
    next
      case num
      then show ?thesis using j s by (auto split: if_splits dest: reads_number)
    qed
  qed
  moreover have "reads_to s r" if j: "jelems (Suc n) s = Some (es, r)" for s es r
  proof -
    obtain v u where v: "jvalue n s = Some (v, u)" using j by (auto split: option.splits)
    obtain d t where d: "skip_ws u = d # t" using j v by (auto split: list.splits)
    have "reads_to u r"
      using j v d reads_skip_char[OF d _ reads_refl] reads_skip_char[OF d _ reads_skip[OF E]]
      by (auto split: if_splits)
    then show ?thesis using V[OF v] reads_trans by blast
  qed
  moreover have "reads_to s r" if j: "jmembers (Suc n) s = Some (ms, r)" for s ms r
  proof -
    obtain t where s: "s = CHR 0x22 # t" using j by (cases s) (auto split: if_splits)
    obtain k t1 where k: "str_body t = Some (k, t1)" using j s by (auto split: option.splits)
    obtain t2 where c: "skip_ws t1 = CHR '':'' # t2" using j s k by (auto split: list.splits if_splits)
    obtain v u where v: "jvalue n (skip_ws t2) = Some (v, u)"
      using j s k c by (auto simp: Let_def split: option.splits)
    obtain d t3 where d: "skip_ws u = d # t3" using j s k c v by (auto simp: Let_def split: list.splits)
    have "reads_to u r"
      using j s k c v d reads_skip_char[OF d _ reads_refl] reads_skip_char[OF d _ reads_skip[OF M]]
      by (auto simp: Let_def split: if_splits)
    then have "reads_to t1 r" using reads_skip_char[OF c _ reads_skip[OF reads_trans[OF V[OF v]]]] by simp
    then show ?thesis using s reads_string[OF k] by simp
  qed
  ultimately show ?case by blast
qed simp

text \<open>What json.Compact, and json.Marshal of a RawMessage, write is one line.\<close>

lemma compact_ws: "skip_ws s = [] \<Longrightarrow> compact_from False s = []"
  by (induction s) (auto simp: skip_ws_def split: if_splits)

lemma json_compact_line: "json_compact s = Some r \<Longrightarrow> newline \<notin> set r"
proof -
  assume c: "json_compact s = Some r"
  then obtain v t where j: "jvalue (json_fuel s) (skip_ws s) = Some (v, t)" and t: "skip_ws t = []"
    by (auto simp: json_compact_def json_valid_def json_parse_def split: option.splits if_splits)
  have "reads_to s t" using reads_skip jscan_reads j by blast
  then obtain p where "s = p @ t" "piece p" by (auto simp: reads_to_def)
  then have "newline \<notin> set (compact_from False s)" using compact_ws[OF t] by (simp add: piece_def)
  then show ?thesis using c by (simp add: json_compact_def split: if_splits)
qed

lemma hex_digit_line: "newline \<noteq> hex_digit n"
proof -
  have "list_all (\<lambda>c. newline \<noteq> c) ''0123456789abcdef''" by simp
  moreover have "n mod 16 < length ''0123456789abcdef''" by simp
  ultimately show ?thesis unfolding hex_digit_def list_all_length by blast
qed

lemma json_char_line: "newline \<notin> set (json_char c)"
proof (cases "c = newline")
  case False
  then show ?thesis using hex_digit_line[of "of_char c div 16"] hex_digit_line[of "of_char c"]
    by (simp add: json_char_def Let_def)
qed (simp add: json_char_def)

lemma separator_line: "separator s = Some e \<Longrightarrow> newline \<notin> set e"
  by (auto simp: separator_def split: if_splits)

lemma json_chars_line: "newline \<notin> set (json_chars s)"
proof (induction s rule: json_chars.induct)
  case (2 c s)
  then show ?case using json_char_line[of c] separator_line by (auto split: option.splits)
qed simp

lemma json_string_line: "newline \<notin> set (json_string s)"
  using json_chars_line by (simp add: json_string_def)

lemma html_escape_line: "newline \<notin> set s \<Longrightarrow> newline \<notin> set (html_escape s)"
proof (induction s rule: html_escape.induct)
  case (2 c s)
  have "newline \<notin> set (drop 2 s)" using "2.prems" in_set_dropD[of newline 2 s] by auto
  then show ?case using 2 json_char_line[of c] separator_line by (auto split: option.splits)
qed simp

lemma json_raw_line: "json_raw r = Some t \<Longrightarrow> newline \<notin> set t"
  using json_compact_line html_escape_line by (auto simp: json_raw_def split: if_splits)

lemma join_line: "newline \<notin> set sep \<Longrightarrow> list_all (\<lambda>s. newline \<notin> set s) ss \<Longrightarrow> newline \<notin> set (join sep ss)"
  by (induction sep ss rule: join.induct) simp_all

lemma json_object_line: "list_all (\<lambda>m. newline \<notin> set (snd m)) ms \<Longrightarrow> newline \<notin> set (json_object ms)"
proof -
  assume "list_all (\<lambda>m. newline \<notin> set (snd m)) ms"
  then have "list_all (\<lambda>s. newline \<notin> set s) (map (\<lambda>(k, v). json_string k @ '':'' @ v) ms)"
    using json_string_line by (auto simp: list_all_iff)
  from join_line[OF _ this, of "'',''"] show ?thesis by (simp add: json_object_def)
qed

lemma json_array_line: "list_all (\<lambda>v. newline \<notin> set v) vs \<Longrightarrow> newline \<notin> set (json_array vs)"
  using join_line[of "'',''" vs] by (simp add: json_array_def)

lemma nat_text_line: "newline \<notin> set (nat_text n)"
proof -
  have "list_all is_digit (nat_text n)" using nat_text_read by blast
  moreover have "\<not> is_digit newline" by (simp add: is_digit_def)
  ultimately show ?thesis by (auto simp: list_all_iff)
qed

lemma int_text_line: "newline \<notin> set (int_text i)"
  using nat_text_line by (simp add: int_text_def)

lemma marshal_line:
  "marshal v = Some r \<Longrightarrow> newline \<notin> set r"
  "marshal_list vs = Some rs \<Longrightarrow> list_all (\<lambda>r. newline \<notin> set r) rs"
  "marshal_members ms = Some qs \<Longrightarrow> list_all (\<lambda>m. newline \<notin> set (snd m)) qs"
proof (induction v and vs and ms arbitrary: r and rs and qs rule: marshal_marshal_list_marshal_members.induct)
  case (8 ms)
  then have "list_all (\<lambda>m. newline \<notin> set (snd m)) (sort_key fst q)" if "marshal_members ms = Some q" for q
    using that by (simp add: list_all_iff)
  then show ?case using 8(2) json_object_line by auto
qed (auto simp: int_text_line json_string_line json_raw_line json_array_line json_object_line split: option.splits if_splits)

text \<open>A struct or a map is marshalled as a line that ends with its closing brace.\<close>

lemma marshal_object_line:
  "marshal (GStruct ms) = Some r \<Longrightarrow> newline \<notin> set r \<and> r \<noteq> [] \<and> last r = CHR ''}''"
  "marshal (GMap ms) = Some r \<Longrightarrow> newline \<notin> set r \<and> r \<noteq> [] \<and> last r = CHR ''}''"
  using marshal_line(1)[of "GStruct ms" r] marshal_line(1)[of "GMap ms" r] by (auto simp: json_object_def)

end
