(* ===== verification/Adapters.thy ===== *)
theory Adapters
  imports Stdio Json_Encode "HOL-Library.Monad_Syntax"
begin

text \<open>
  What the adapters' codecs share: a value rendered as a line, the event a line without a
  normalized meaning becomes, the text blocks of a message, and the names mcpbridge keeps for the
  tool a structured response is given with (mcpbridge/server.go).
\<close>

definition json_line :: "goval \<Rightarrow> err + string" where
  "json_line v = (case marshal v of None \<Rightarrow> Inl json_err | Some l \<Rightarrow> Inr l)"

lemma json_line_plain: "json_line (GStruct ms) = Inr l \<Longrightarrow> LF \<notin> set l \<and> l \<noteq> [] \<and> last l \<noteq> CHR 0x0D"
  using marshal_object_line(1)[of ms] by (auto simp: json_line_def split: option.splits)

definition harness_event :: "string \<Rightarrow> event" where
  "harness_event raw = (event_of EventHarness)\<lparr>ev_raw := raw\<rparr>"

lemma harness_event_fields [simp]:
  "ev_raw (harness_event raw) = raw" "ev_kind (harness_event raw) = EventHarness"
  "ev_structured (harness_event raw) = []"
  by (simp_all add: harness_event_def event_of_def)

definition text_blocks :: "(string \<times> string) list \<Rightarrow> string" where
  "text_blocks bs = concat (map snd (filter (\<lambda>b. fst b = ''text'') bs))"

section \<open>Blocks\<close>

text \<open>A loop over the blocks, and the event of a message with none to report.\<close>

fun each_block :: "('b \<Rightarrow> 'k \<Rightarrow> event list \<times> 'k) \<Rightarrow> 'b list \<Rightarrow> 'k \<Rightarrow> event list \<times> 'k" where
  "each_block f [] k = ([], k)"
| "each_block f (b # bs) k =
     (let (es, k) = f b k; (es', k) = each_block f bs k in (es @ es', k))"

definition or_harness :: "string \<Rightarrow> event list \<Rightarrow> event list" where
  "or_harness raw es = (if es = [] then [harness_event raw] else es)"

section \<open>The respond tool\<close>

definition respond_prefix :: string where
  "respond_prefix = ''respond_''"

definition is_respond :: "string \<Rightarrow> bool" where
  "is_respond name = has_prefix name respond_prefix"

definition mcp_accepted :: string where
  "mcp_accepted = ''Accepted.''"

end
