(* ===== verification/Pi_Codec.thy ===== *)
theory Pi_Codec
  imports Adapters
begin

text \<open>
  The Pi adapter's protocol (pi/wire.go, pi/codec.go): the lines the driver writes and reads, and
  how each line of Pi's becomes a response, a dialog to answer, or normalized events.

  A wire struct is a record of the fields the driver reads, decoded by a function of its own,
  which is undefined where json.Unmarshal fails. Values of Go's type any are datatypes with the
  cases the code tells apart; the other cases keep the name of the value's type, for the error.
\<close>

section \<open>Wire types\<close>

record pi_usage =
  pu_input :: int
  pu_output :: int
  pu_cache_read :: int
  pu_cache_write :: int

definition pi_usage_of :: "members \<Rightarrow> pi_usage option" where
  "pi_usage_of ms = do {
     i \<leftarrow> int_field ''input'' ms;
     out \<leftarrow> int_field ''output'' ms;
     cr \<leftarrow> int_field ''cacheRead'' ms;
     cw \<leftarrow> int_field ''cacheWrite'' ms;
     Some \<lparr>pu_input = i, pu_output = out, pu_cache_read = cr, pu_cache_write = cw\<rparr> }"

record pi_message =
  pm_role :: string
  pm_content :: string
  pm_stop_reason :: string
  pm_error_message :: string
  pm_usage :: "pi_usage option"

definition pi_message_of :: "members \<Rightarrow> pi_message option" where
  "pi_message_of ms = do {
     role \<leftarrow> str_field ''role'' ms;
     stop \<leftarrow> str_field ''stopReason'' ms;
     em \<leftarrow> str_field ''errorMessage'' ms;
     u \<leftarrow> opt_struct pi_usage_of ''usage'' ms;
     Some \<lparr>pm_role = role, pm_content = raw_field ''content'' ms, pm_stop_reason = stop,
           pm_error_message = em, pm_usage = u\<rparr> }"

record pi_assistant =
  pa_type :: string
  pa_delta :: string

definition pi_assistant_of :: "members \<Rightarrow> pi_assistant option" where
  "pi_assistant_of ms = do {
     t \<leftarrow> str_field ''type'' ms;
     d \<leftarrow> str_field ''delta'' ms;
     Some \<lparr>pa_type = t, pa_delta = d\<rparr> }"

record pi_record =
  pr_type :: string
  pr_id :: string
  pr_command :: string
  pr_success :: bool
  pr_error :: string
  pr_data :: string
  pr_assistant :: "pi_assistant option"
  pr_message :: "pi_message option"
  pr_tool_call_id :: string
  pr_tool_name :: string
  pr_args :: string
  pr_result :: string
  pr_is_error :: bool

definition pi_record_of :: "members \<Rightarrow> pi_record option" where
  "pi_record_of ms = do {
     t \<leftarrow> str_field ''type'' ms;
     i \<leftarrow> str_field ''id'' ms;
     c \<leftarrow> str_field ''command'' ms;
     ok \<leftarrow> bool_field ''success'' ms;
     e \<leftarrow> str_field ''error'' ms;
     a \<leftarrow> opt_struct pi_assistant_of ''assistantMessageEvent'' ms;
     m \<leftarrow> opt_struct pi_message_of ''message'' ms;
     ci \<leftarrow> str_field ''toolCallId'' ms;
     tn \<leftarrow> str_field ''toolName'' ms;
     failed \<leftarrow> bool_field ''isError'' ms;
     Some \<lparr>pr_type = t, pr_id = i, pr_command = c, pr_success = ok, pr_error = e,
           pr_data = raw_field ''data'' ms, pr_assistant = a, pr_message = m, pr_tool_call_id = ci,
           pr_tool_name = tn, pr_args = raw_field ''args'' ms, pr_result = raw_field ''result'' ms,
           pr_is_error = failed\<rparr> }"

record pi_dialog =
  dl_method :: string
  dl_title :: string
  dl_placeholder :: string

definition pi_dialogs :: "string list" where
  "pi_dialogs = [''select'', ''confirm'', ''input'', ''editor'']"

record pi_ui_request =
  ui_id :: string
  ui_dialog :: pi_dialog

definition pi_ui_request_of :: "members \<Rightarrow> pi_ui_request option" where
  "pi_ui_request_of ms = do {
     i \<leftarrow> str_field ''id'' ms;
     m \<leftarrow> str_field ''method'' ms;
     t \<leftarrow> str_field ''title'' ms;
     p \<leftarrow> str_field ''placeholder'' ms;
     Some \<lparr>ui_id = i, ui_dialog = \<lparr>dl_method = m, dl_title = t, dl_placeholder = p\<rparr>\<rparr> }"

record pi_image =
  pg_data :: string
  pg_mime_type :: string

definition pi_image_val :: "pi_image \<Rightarrow> goval" where
  "pi_image_val i =
     GStruct [(''type'', GStr ''image''), (''data'', GStr (pg_data i)), (''mimeType'', GStr (pg_mime_type i))]"

record pi_command =
  pc_id :: string
  pc_type :: string
  pc_provider :: string
  pc_model_id :: string
  pc_message :: string
  pc_images :: "pi_image list"
  pc_since :: string

definition pi_command_of :: "string \<Rightarrow> pi_command" where
  "pi_command_of t =
     \<lparr>pc_id = [], pc_type = t, pc_provider = [], pc_model_id = [], pc_message = [], pc_images = [],
      pc_since = []\<rparr>"

definition pi_command_val :: "pi_command \<Rightarrow> goval" where
  "pi_command_val c =
     GStruct (omit_str ''id'' (pc_id c) @ [(''type'', GStr (pc_type c))]
       @ omit_str ''provider'' (pc_provider c) @ omit_str ''modelId'' (pc_model_id c)
       @ omit_str ''message'' (pc_message c) @ omit_list ''images'' (map pi_image_val (pc_images c))
       @ omit_str ''since'' (pc_since c))"

datatype pi_any = PiCommand pi_command | PiOther string

datatype pi_answer = PiDismiss | PiText string | PiAnswerOther string

section \<open>The codec\<close>

text \<open>The codec has no state of its own.\<close>

definition pi_encode :: "string \<Rightarrow> pi_any \<Rightarrow> unit \<Rightarrow> (err + string) \<times> unit" where
  "pi_encode i cmd k =
     (case cmd of
        PiOther t \<Rightarrow> Inl (Msg (''pi: encode '' @ t @ '': not a command''))
      | PiCommand c \<Rightarrow> json_line (pi_command_val (c\<lparr>pc_id := i\<rparr>)), k)"

definition pi_reply :: "'b hrequest \<Rightarrow> pi_answer \<Rightarrow> err + string" where
  "pi_reply req answer =
     (let head = [(''type'', GStr ''extension_ui_response''), (''id'', GStr (hq_id req))] in
      case answer of
        PiDismiss \<Rightarrow> json_line (GStruct (head @ omit_bool ''cancelled'' True))
      | PiText v \<Rightarrow> json_line (GStruct (head @ [(''value'', GStr v)]))
      | PiAnswerOther t \<Rightarrow>
          Inl (Msg (''pi: reply to '' @ hq_id req @ '': '' @ t @ '' isn't a dialog answer'')))"

definition pi_decode_error :: "string \<Rightarrow> err" where
  "pi_decode_error line = wrap (''pi: decode '' @ quote line) json_err"

text \<open>messageText: the text blocks of a list of blocks, and nothing of anything else.\<close>

definition pi_block_of :: "string \<times> json \<Rightarrow> (string \<times> string) option" where
  "pi_block_of e = do {
     ms \<leftarrow> elem_struct e;
     t \<leftarrow> str_field ''type'' ms;
     x \<leftarrow> str_field ''text'' ms;
     Some (t, x) }"

definition pi_message_text :: "string \<Rightarrow> string" where
  "pi_message_text content =
     (case unmarshal_list content of
        None \<Rightarrow> []
      | Some es \<Rightarrow>
          (case option_all pi_block_of es of
             None \<Rightarrow> []
           | Some bs \<Rightarrow> text_blocks bs))"

definition pi_usage_event :: "pi_usage \<Rightarrow> usage" where
  "pi_usage_event u =
     \<lparr>us_input = pu_input u, us_output = pu_output u, us_cache_read = pu_cache_read u,
      us_cache_write = pu_cache_write u\<rparr>"

definition pi_message_end :: "pi_message \<Rightarrow> string \<Rightarrow> event list" where
  "pi_message_end m raw =
     (event_of EventMessageEnd)\<lparr>ev_text := pi_message_text (pm_content m),
        ev_stop_reason := pm_stop_reason m, ev_raw := raw,
        ev_usage := map_option pi_usage_event (pm_usage m)\<rparr>
     # (if pm_stop_reason m = ''aborted''
        then [(event_of EventCancelled)\<lparr>ev_stop_reason := pm_stop_reason m\<rparr>]
        else if pm_stop_reason m = ''error''
        then [(event_of EventError)\<lparr>ev_err := Some (Msg (pm_error_message m))\<rparr>]
        else [])"

definition pi_respond_tool :: string where
  "pi_respond_tool = ''respond''"

text \<open>structured: a respond call's outcome.\<close>

definition pi_structured :: "string \<Rightarrow> bool \<Rightarrow> string \<Rightarrow> event" where
  "pi_structured result failed raw =
     (let fields = (case unmarshal_struct result of None \<Rightarrow> [] | Some ms \<Rightarrow> ms) in
      if failed then
        (let text = pi_message_text (raw_field ''content'' fields);
             reason = (if text = [] then result else text) in
         (event_of EventStructuredRejected)\<lparr>ev_err := Some (Msg (''pi: respond: '' @ reason)), ev_raw := raw\<rparr>)
      else if unmarshal_struct result = None \<or> raw_field ''details'' fields = [] then
        (event_of EventError)\<lparr>ev_err := Some (Errorf (err_text ErrNoStructuredResponse
             @ '': pi: respond returned no details in '' @ result) [ErrNoStructuredResponse]), ev_raw := raw\<rparr>
      else (event_of EventStructured)\<lparr>ev_structured := raw_field ''details'' fields, ev_raw := raw\<rparr>)"

definition pi_extension_error :: "string \<Rightarrow> err" where
  "pi_extension_error raw =
     (case do {
        ms \<leftarrow> unmarshal_struct raw;
        p \<leftarrow> str_field ''extensionPath'' ms;
        v \<leftarrow> str_field ''event'' ms;
        e \<leftarrow> str_field ''error'' ms;
        Some (p, v, e) } of
        Some (p, v, e) \<Rightarrow>
          if e = [] then Msg (''pi: extension error: '' @ raw)
          else Msg (''pi: extension '' @ p @ '': '' @ v @ '': '' @ e)
      | None \<Rightarrow> Msg (''pi: extension error: '' @ raw))"

definition pi_delta :: "pi_record \<Rightarrow> event \<Rightarrow> event" where
  "pi_delta r ev =
     (case pr_assistant r of
        None \<Rightarrow> ev
      | Some a \<Rightarrow>
          if pa_type a = ''text_delta'' then ev\<lparr>ev_kind := EventTextDelta, ev_text := pa_delta a\<rparr>
          else if pa_type a = ''thinking_delta'' then ev\<lparr>ev_kind := EventThinkingDelta, ev_text := pa_delta a\<rparr>
          else ev)"

definition pi_tool_start :: "pi_record \<Rightarrow> event \<Rightarrow> event" where
  "pi_tool_start r ev =
     (if pr_tool_name r = pi_respond_tool then ev
      else ev\<lparr>ev_kind := EventToolCall,
              ev_tool := Some \<lparr>te_call_id = pr_tool_call_id r, te_name = pr_tool_name r, te_args = pr_args r,
                               te_result = [], te_is_error = False\<rparr>\<rparr>)"

definition pi_tool_end :: "pi_record \<Rightarrow> string \<Rightarrow> event" where
  "pi_tool_end r raw =
     (if pr_tool_name r = pi_respond_tool then pi_structured (pr_result r) (pr_is_error r) raw
      else (harness_event raw)\<lparr>ev_kind := EventToolResult,
              ev_tool := Some \<lparr>te_call_id = pr_tool_call_id r, te_name = pr_tool_name r, te_args = [],
                               te_result = pr_result r, te_is_error = pr_is_error r\<rparr>\<rparr>)"

definition pi_normalize :: "pi_record \<Rightarrow> string \<Rightarrow> event list" where
  "pi_normalize r raw =
     (let ev = harness_event raw; t = pr_type r in
      if t = ''agent_start'' then [ev\<lparr>ev_kind := EventStarted\<rparr>]
      else if t = ''agent_settled'' then [ev\<lparr>ev_kind := EventEnded\<rparr>]
      else if t = ''message_update'' then [pi_delta r ev]
      else if t = ''tool_execution_start'' then [pi_tool_start r ev]
      else if t = ''tool_execution_end'' then [pi_tool_end r raw]
      else if t = ''extension_error'' then [ev\<lparr>ev_kind := EventError, ev_err := Some (pi_extension_error raw)\<rparr>]
      else if t = ''message_end'' then
        (case pr_message r of
           None \<Rightarrow> [ev]
         | Some m \<Rightarrow> if pm_role m \<noteq> ''assistant'' then [ev] else pi_message_end m raw)
      else [ev])"

definition pi_decode_ui :: "string \<Rightarrow> err + pi_dialog line_frame" where
  "pi_decode_ui line =
     (case unmarshal_struct line \<bind> pi_ui_request_of of
        None \<Rightarrow> Inl (pi_decode_error line)
      | Some u \<Rightarrow>
          Inr \<lparr>fr_response = None,
               fr_request = (if dl_method (ui_dialog u) \<in> set pi_dialogs
                             then Some \<lparr>hq_id = ui_id u, hq_body = ui_dialog u\<rparr> else None),
               fr_events = [harness_event line]\<rparr>)"

definition pi_response :: "pi_record \<Rightarrow> response" where
  "pi_response r =
     \<lparr>rp_id = pr_id r, rp_err = (if pr_success r then None else Some (CommandErr (pr_command r) (pr_error r))),
      rp_data = pr_data r\<rparr>"

definition pi_decode_line :: "string \<Rightarrow> err + pi_dialog line_frame" where
  "pi_decode_line line =
     (case unmarshal_struct line \<bind> str_field ''type'' of
        None \<Rightarrow> Inl (pi_decode_error line)
      | Some t \<Rightarrow>
          if t = ''extension_ui_request'' then pi_decode_ui line
          else case unmarshal_struct line \<bind> pi_record_of of
                 None \<Rightarrow> Inl (pi_decode_error line)
               | Some r \<Rightarrow>
                   if pr_type r = ''response'' then Inr (empty_frame\<lparr>fr_response := Some (pi_response r)\<rparr>)
                   else Inr (empty_frame\<lparr>fr_events := pi_normalize r line\<rparr>))"

definition pi_decode :: "string \<Rightarrow> unit \<Rightarrow> (err + pi_dialog line_frame) \<times> unit" where
  "pi_decode line k = (pi_decode_line line, k)"

section \<open>One line each\<close>

interpretation pi_lines: codec pi_encode "pi_reply :: 'b hrequest \<Rightarrow> pi_answer \<Rightarrow> err + string"
proof
  fix i cmd k l k'
  assume "pi_encode i cmd k = (Inr l, k')"
  then show "LF \<notin> set l \<and> l \<noteq> [] \<and> last l \<noteq> CHR 0x0D"
    unfolding pi_encode_def pi_command_val_def using json_line_plain by (auto split: pi_any.splits)
next
  fix req :: "'b hrequest" and answer l
  assume "pi_reply req answer = Inr l"
  then show "LF \<notin> set l \<and> l \<noteq> [] \<and> last l \<noteq> CHR 0x0D"
    unfolding pi_reply_def Let_def using json_line_plain by (auto split: pi_answer.splits)
qed

section \<open>Nothing is lost\<close>

lemma pi_events_named [simp]: "pi_normalize r raw \<noteq> []"
  by (simp add: pi_normalize_def Let_def pi_message_end_def split: option.split)

lemma pi_structured_raw: "ev_raw (pi_structured result failed raw) = raw"
  by (simp add: pi_structured_def Let_def)

lemma pi_normalize_raw: "ev_raw (hd (pi_normalize r raw)) = raw"
  by (simp add: pi_normalize_def Let_def pi_message_end_def pi_delta_def pi_tool_start_def pi_tool_end_def
      pi_structured_raw split: option.split)

text \<open>
  Nothing Pi writes is lost. A line that decodes is a response and nothing else, or it yields
  at least one event, whose first carries the whole line; a dialog is that event and the request
  to answer it; and a line that doesn't decode is an error that names it (pi/codec.go: Decode).
\<close>

theorem pi_nothing_lost:
  shows "(case pi_decode_line line of
            Inl e \<Rightarrow> e = wrap (''pi: decode '' @ quote line) json_err
          | Inr f \<Rightarrow>
              (case fr_response f of
                 Some r \<Rightarrow> fr_events f = [] \<and> fr_request f = None
               | None \<Rightarrow> fr_events f \<noteq> [] \<and> ev_raw (hd (fr_events f)) = line
                   \<and> (case fr_request f of None \<Rightarrow> True | Some q \<Rightarrow> fr_events f = [harness_event line])))"
  by (simp add: pi_decode_line_def pi_decode_ui_def pi_decode_error_def empty_frame_def pi_normalize_raw
      Option.bind_def split: option.split)

section \<open>Structured responses\<close>

lemmas pi_event_defs =
  pi_normalize_def Let_def pi_message_end_def pi_delta_def pi_tool_start_def pi_tool_end_def
  pi_structured_def pi_respond_tool_def

text \<open>
  A structured response is the respond tool's and no other's. A normalized event is
  EventStructured only when its line ends a respond call that didn't fail and whose result has
  details, which are the response; a respond call is never reported as a tool call or a tool's
  result; and one that ends without a structured response is reported as a rejection or an error
  that matches ErrNoStructuredResponse (pi/codec.go: normalize, structured).
\<close>

theorem pi_structured_only_respond:
  assumes "ev \<in> set (pi_normalize r raw)"
  shows "(ev_kind ev = EventStructured \<longrightarrow>
           pr_type r = ''tool_execution_end'' \<and> pr_tool_name r = ''respond'' \<and> \<not> pr_is_error r
           \<and> (\<exists>ms. unmarshal_struct (pr_result r) = Some ms \<and> raw_field ''details'' ms \<noteq> []
                \<and> ev_structured ev = raw_field ''details'' ms))
    \<and> (ev_kind ev \<in> {EventToolCall, EventToolResult} \<longrightarrow>
           (\<exists>t. ev_tool ev = Some t \<and> te_name t \<noteq> ''respond'' \<and> te_call_id t = pr_tool_call_id r))
    \<and> (pr_type r = ''tool_execution_end'' \<and> pr_tool_name r = ''respond'' \<longrightarrow>
           ev_kind ev = EventStructured \<or> (\<exists>e. ev_err ev = Some e \<and>
             (if pr_is_error r then ev_kind ev = EventStructuredRejected
              else ev_kind ev = EventError \<and> err_is e ErrNoStructuredResponse)))"
  using assms by (auto simp: pi_event_defs split: option.splits if_splits)


definition pi_example_end :: string where
  \<open>pi_example_end = ''{"type":"tool_execution_end","toolCallId":"c","toolName":"respond","result":{"content":[],"details":{"a":1}}}''\<close>

theorem pi_structured_only_respond_witness:
  "\<exists>r ev. unmarshal_struct pi_example_end \<bind> pi_record_of = Some r \<and> ev \<in> set (pi_normalize r pi_example_end)
     \<and> ev_kind ev = EventStructured \<and> pr_tool_name r = ''respond''"
proof -
  have "(case unmarshal_struct pi_example_end \<bind> pi_record_of of None \<Rightarrow> False
     | Some r \<Rightarrow> list_ex (\<lambda>ev. ev_kind ev = EventStructured) (pi_normalize r pi_example_end))"
    by code_simp
  then obtain r ev where r: "unmarshal_struct pi_example_end \<bind> pi_record_of = Some r"
      "ev \<in> set (pi_normalize r pi_example_end)" "ev_kind ev = EventStructured"
    by (auto simp: list_ex_iff split: option.splits)
  from pi_structured_only_respond[OF r(2)] show ?thesis using r by blast
qed

end
