(* ===== verification/Claude_Codec.thy ===== *)
theory Claude_Codec
  imports Adapters
begin

text \<open>
  The Claude Code adapter's protocol (claude/wire.go, claude/codec.go). The codec keeps state
  across lines: the respond calls whose results have yet to come, the tool names of the other
  calls, and the turn's last rate-limit notice. Decoding passes that state on explicitly, also
  past a line that doesn't decode.

  A float64 is kept as the number's text, which JSON's grammar bounds.
\<close>

section \<open>Wire types\<close>

record claude_control =
  ct_subtype :: string
  ct_hooks :: bool
  ct_server_name :: string
  ct_message :: string
  ct_tool_name :: string
  ct_input :: string

definition claude_control_req :: "string \<Rightarrow> claude_control" where
  "claude_control_req t =
     \<lparr>ct_subtype = t, ct_hooks = False, ct_server_name = [], ct_message = [], ct_tool_name = [], ct_input = []\<rparr>"

definition claude_control_val :: "claude_control \<Rightarrow> goval" where
  "claude_control_val c =
     GStruct ([(''subtype'', GStr (ct_subtype c)), (''hooks'', if ct_hooks c then GStruct [] else GNull)]
       @ omit_str ''server_name'' (ct_server_name c) @ omit_raw ''message'' (ct_message c)
       @ omit_str ''tool_name'' (ct_tool_name c) @ omit_raw ''input'' (ct_input c))"

definition claude_control_of :: "members \<Rightarrow> claude_control option" where
  "claude_control_of ms = do {
     t \<leftarrow> str_field ''subtype'' ms;
     h \<leftarrow> struct_field ''hooks'' ms;
     sn \<leftarrow> str_field ''server_name'' ms;
     tn \<leftarrow> str_field ''tool_name'' ms;
     Some \<lparr>ct_subtype = t, ct_hooks = (h \<noteq> None), ct_server_name = sn,
           ct_message = raw_field ''message'' ms, ct_tool_name = tn, ct_input = raw_field ''input'' ms\<rparr> }"

record claude_source =
  sc_type :: string
  sc_media_type :: string
  sc_data :: string

definition claude_source_of :: "members \<Rightarrow> claude_source option" where
  "claude_source_of ms = do {
     t \<leftarrow> str_field ''type'' ms;
     m \<leftarrow> str_field ''media_type'' ms;
     d \<leftarrow> str_field ''data'' ms;
     Some \<lparr>sc_type = t, sc_media_type = m, sc_data = d\<rparr> }"

definition claude_source_val :: "claude_source \<Rightarrow> goval" where
  "claude_source_val s =
     GStruct [(''type'', GStr (sc_type s)), (''media_type'', GStr (sc_media_type s)), (''data'', GStr (sc_data s))]"

record claude_block =
  cb_type :: string
  cb_text :: string
  cb_source :: "claude_source option"
  cb_id :: string
  cb_name :: string
  cb_input :: string
  cb_tool_use_id :: string
  cb_content :: string
  cb_is_error :: bool

definition claude_block_type :: "string \<Rightarrow> claude_block" where
  "claude_block_type t =
     \<lparr>cb_type = t, cb_text = [], cb_source = None, cb_id = [], cb_name = [], cb_input = [],
      cb_tool_use_id = [], cb_content = [], cb_is_error = False\<rparr>"

definition claude_block_of :: "string \<times> json \<Rightarrow> claude_block option" where
  "claude_block_of e = do {
     ms \<leftarrow> elem_struct e;
     t \<leftarrow> str_field ''type'' ms;
     x \<leftarrow> str_field ''text'' ms;
     s \<leftarrow> opt_struct claude_source_of ''source'' ms;
     i \<leftarrow> str_field ''id'' ms;
     n \<leftarrow> str_field ''name'' ms;
     u \<leftarrow> str_field ''tool_use_id'' ms;
     f \<leftarrow> bool_field ''is_error'' ms;
     Some \<lparr>cb_type = t, cb_text = x, cb_source = s, cb_id = i, cb_name = n,
           cb_input = raw_field ''input'' ms, cb_tool_use_id = u,
           cb_content = raw_field ''content'' ms, cb_is_error = f\<rparr> }"

definition claude_block_val :: "claude_block \<Rightarrow> goval" where
  "claude_block_val b =
     GStruct ([(''type'', GStr (cb_type b))] @ omit_str ''text'' (cb_text b)
       @ (case cb_source b of None \<Rightarrow> [] | Some s \<Rightarrow> [(''source'', claude_source_val s)])
       @ omit_str ''id'' (cb_id b) @ omit_str ''name'' (cb_name b) @ omit_raw ''input'' (cb_input b)
       @ omit_str ''tool_use_id'' (cb_tool_use_id b) @ omit_raw ''content'' (cb_content b)
       @ omit_bool ''is_error'' (cb_is_error b))"

record claude_user =
  um_content :: "claude_block list"
  um_parent :: "string option"
  um_session_id :: string

text \<open>A userMessage whose type and role are user, the only ones the driver writes; nil content is null.\<close>

definition claude_user_val :: "claude_user \<Rightarrow> goval" where
  "claude_user_val m =
     GStruct [(''type'', GStr ''user''),
       (''message'', GStruct [(''role'', GStr ''user''),
          (''content'', if um_content m = [] then GNull else GList (map claude_block_val (um_content m)))]),
       (''parent_tool_use_id'', case um_parent m of None \<Rightarrow> GNull | Some p \<Rightarrow> GStr p),
       (''session_id'', GStr (um_session_id m))]"

definition claude_envelope_val :: "string \<Rightarrow> string \<Rightarrow> goval" where
  "claude_envelope_val i req =
     GStruct [(''type'', GStr ''control_request''), (''request_id'', GStr i), (''request'', GRaw req)]"

record claude_reply_body =
  rb_subtype :: string
  rb_request_id :: string
  rb_response :: string
  rb_error :: string

definition claude_reply_val :: "claude_reply_body \<Rightarrow> goval" where
  "claude_reply_val r =
     GStruct [(''type'', GStr ''control_response''),
       (''response'', GStruct ([(''subtype'', GStr (rb_subtype r)), (''request_id'', GStr (rb_request_id r))]
          @ omit_raw ''response'' (rb_response r) @ omit_str ''error'' (rb_error r)))]"

definition claude_reply_body_of :: "members \<Rightarrow> claude_reply_body option" where
  "claude_reply_body_of ms = do {
     _ \<leftarrow> str_field ''type'' ms;
     b \<leftarrow> inner_field ''response'' ms;
     t \<leftarrow> str_field ''subtype'' b;
     i \<leftarrow> str_field ''request_id'' b;
     e \<leftarrow> str_field ''error'' b;
     Some \<lparr>rb_subtype = t, rb_request_id = i, rb_response = raw_field ''response'' b, rb_error = e\<rparr> }"

record claude_stream =
  se_type :: string
  se_delta_type :: string
  se_text :: string
  se_thinking :: string

definition claude_stream_of :: "members \<Rightarrow> claude_stream option" where
  "claude_stream_of ms = do {
     ev \<leftarrow> inner_field ''event'' ms;
     t \<leftarrow> str_field ''type'' ev;
     d \<leftarrow> inner_field ''delta'' ev;
     dt \<leftarrow> str_field ''type'' d;
     x \<leftarrow> str_field ''text'' d;
     th \<leftarrow> str_field ''thinking'' d;
     Some \<lparr>se_type = t, se_delta_type = dt, se_text = x, se_thinking = th\<rparr> }"

definition claude_usage_of :: "members \<Rightarrow> usage option" where
  "claude_usage_of ms = do {
     i \<leftarrow> int_field ''input_tokens'' ms;
     out \<leftarrow> int_field ''output_tokens'' ms;
     cr \<leftarrow> int_field ''cache_read_input_tokens'' ms;
     cw \<leftarrow> int_field ''cache_creation_input_tokens'' ms;
     Some \<lparr>us_input = i, us_output = out, us_cache_read = cr, us_cache_write = cw\<rparr> }"

record claude_result =
  cr_subtype :: string
  cr_is_error :: bool
  cr_result :: string
  cr_stop_reason :: "string option"
  cr_terminal_reason :: string
  cr_errors :: "string list"
  cr_api_status :: "int option"
  cr_usage :: "usage option"

definition claude_result_of :: "members \<Rightarrow> claude_result option" where
  "claude_result_of ms = do {
     t \<leftarrow> str_field ''subtype'' ms;
     f \<leftarrow> bool_field ''is_error'' ms;
     r \<leftarrow> str_field ''result'' ms;
     s \<leftarrow> opt_str_field ''stop_reason'' ms;
     tr \<leftarrow> str_field ''terminal_reason'' ms;
     es \<leftarrow> list_field ''errors'' ms;
     errs \<leftarrow> option_all (\<lambda>e. decode_str [e] []) es;
     a \<leftarrow> opt_int_field ''api_error_status'' ms;
     u \<leftarrow> opt_struct claude_usage_of ''usage'' ms;
     Some \<lparr>cr_subtype = t, cr_is_error = f, cr_result = r, cr_stop_reason = s, cr_terminal_reason = tr,
           cr_errors = errs, cr_api_status = a, cr_usage = u\<rparr> }"

text \<open>A number's text, 0 when absent.\<close>

fun decode_num :: "(string \<times> json) list \<Rightarrow> string \<Rightarrow> string option" where
  "decode_num [] acc = Some acc"
| "decode_num ((t, JNull) # vs) acc = decode_num vs acc"
| "decode_num ((t, JNum s) # vs) acc = decode_num vs s"
| "decode_num (v # vs) acc = None"

record claude_window =
  wi_utilization :: string
  wi_resets_at :: int

definition claude_window_of :: "string \<times> json \<Rightarrow> claude_window option" where
  "claude_window_of e = do {
     ms \<leftarrow> elem_struct e;
     u \<leftarrow> decode_num (matches ''utilization'' ms) ''0'';
     r \<leftarrow> int_field ''resetsAt'' ms;
     Some \<lparr>wi_utilization = u, wi_resets_at = r\<rparr> }"

record claude_rate =
  rl_status :: string
  rl_resets_at :: int
  rl_type :: string
  rl_windows :: "(string \<times> claude_window) list"

text \<open>A map's keys are its own, not fields: they match exactly, and the last of two equal keys wins.\<close>

definition claude_rate_of :: "members \<Rightarrow> claude_rate option" where
  "claude_rate_of ms = do {
     i \<leftarrow> inner_field ''rate_limit_info'' ms;
     s \<leftarrow> str_field ''status'' i;
     r \<leftarrow> int_field ''resetsAt'' i;
     t \<leftarrow> str_field ''rateLimitType'' i;
     w \<leftarrow> struct_field ''unifiedWindows'' i;
     ws \<leftarrow> option_all (\<lambda>m. map_option (Pair (fst m)) (claude_window_of (snd m)))
            (case w of None \<Rightarrow> [] | Some m \<Rightarrow> m);
     Some \<lparr>rl_status = s, rl_resets_at = r, rl_type = t, rl_windows = rev ws\<rparr> }"

section \<open>State, encoding and replies\<close>

definition claude_server_name :: string where
  "claude_server_name = ''driver''"

definition claude_tool_prefix :: string where
  "claude_tool_prefix = ''mcp__'' @ claude_server_name @ ''__''"

record claude_codec =
  cc_responds :: "string \<rightharpoonup> string"
  cc_calls :: "string \<rightharpoonup> string"
  cc_limit :: "limit_status option"

definition new_claude_codec :: claude_codec where
  "new_claude_codec = \<lparr>cc_responds = Map.empty, cc_calls = Map.empty, cc_limit = None\<rparr>"

datatype claude_any = ClaudeControl claude_control | ClaudeUser claude_user | ClaudeOther string

definition claude_encode :: "string \<Rightarrow> claude_any \<Rightarrow> claude_codec \<Rightarrow> (err + string) \<times> claude_codec" where
  "claude_encode i cmd k =
     (case cmd of
        ClaudeControl c \<Rightarrow>
          (case json_line (claude_control_val c) of
             Inl e \<Rightarrow> Inl e
           | Inr req \<Rightarrow> json_line (claude_envelope_val i req))
      | ClaudeUser m \<Rightarrow> json_line (claude_user_val m)
      | ClaudeOther t \<Rightarrow> Inl (Msg (''claude: encode '' @ t @ '': not a command'')), k)"

datatype claude_answer = ClaudeError err | ClaudeValue goval

definition claude_reply :: "'b hrequest \<Rightarrow> claude_answer \<Rightarrow> err + string" where
  "claude_reply req answer =
     (case answer of
        ClaudeError e \<Rightarrow>
          json_line (claude_reply_val \<lparr>rb_subtype = ''error'', rb_request_id = hq_id req, rb_response = [],
                                       rb_error = err_text e\<rparr>)
      | ClaudeValue v \<Rightarrow>
          (case json_line v of
             Inl e \<Rightarrow> Inl e
           | Inr data \<Rightarrow>
               json_line (claude_reply_val \<lparr>rb_subtype = ''success'', rb_request_id = hq_id req,
                                            rb_response = data, rb_error = []\<rparr>)))"

section \<open>Decoding\<close>

definition claude_decode_error :: "string \<Rightarrow> err" where
  "claude_decode_error raw = wrap (''claude: decode '' @ quote raw) json_err"

text \<open>blocksOf: content that is no list of blocks holds none.\<close>

definition claude_blocks :: "string \<Rightarrow> claude_block list option" where
  "claude_blocks raw = do {
     ms \<leftarrow> unmarshal_struct raw;
     m \<leftarrow> inner_field ''message'' ms;
     Some (case unmarshal_list (raw_field ''content'' m) of
             None \<Rightarrow> []
           | Some es \<Rightarrow> (case option_all claude_block_of es of None \<Rightarrow> [] | Some bs \<Rightarrow> bs)) }"

definition claude_tool_name :: "string \<Rightarrow> string" where
  "claude_tool_name name = trim_prefix name claude_tool_prefix"

text \<open>
  resultText drops the decoding's error, so a block of the wrong shape still gives what did fit.
\<close>

definition claude_loose_block :: "string \<times> json \<Rightarrow> string \<times> string" where
  "claude_loose_block e =
     (case snd e of
        JObj ms \<Rightarrow> (lenient_str_field ''type'' ms, lenient_str_field ''text'' ms)
      | _ \<Rightarrow> ([], []))"

definition claude_result_text :: "string \<Rightarrow> string" where
  "claude_result_text content =
     (case unmarshal_str content of
        Some s \<Rightarrow> s
      | None \<Rightarrow>
          (case unmarshal_list content of
             Some es \<Rightarrow> text_blocks (map claude_loose_block es)
           | None \<Rightarrow> []))"

definition claude_limit_status :: "claude_rate \<Rightarrow> limit_status" where
  "claude_limit_status r =
     \<lparr>ls_status = rl_status r, ls_kind = rl_type r,
      ls_utilization = (case map_of (rl_windows r) (rl_type r) of None \<Rightarrow> ''0'' | Some w \<Rightarrow> wi_utilization w),
      ls_resets_at = (if rl_resets_at r > 0 then unix_time (rl_resets_at r) else 0)\<rparr>"

text \<open>toolCalls: one tool_use block.\<close>

definition claude_tool_call :: "string \<Rightarrow> claude_block \<Rightarrow> claude_codec \<Rightarrow> event list \<times> claude_codec" where
  "claude_tool_call raw b k =
     (if cb_type b \<noteq> ''tool_use'' then ([], k)
      else let name = claude_tool_name (cb_name b) in
        if is_respond name \<and> has_prefix (cb_name b) claude_tool_prefix
        then ([], k\<lparr>cc_responds := (cc_responds k)(cb_id b \<mapsto> cb_input b)\<rparr>)
        else ([(event_of EventToolCall)\<lparr>ev_raw := raw,
                 ev_tool := Some \<lparr>te_call_id = cb_id b, te_name = name, te_args = cb_input b,
                                  te_result = [], te_is_error = False\<rparr>\<rparr>],
              k\<lparr>cc_calls := (cc_calls k)(cb_id b \<mapsto> name)\<rparr>))"

text \<open>toolResults: one tool_result block.\<close>

definition claude_tool_result :: "string \<Rightarrow> claude_block \<Rightarrow> claude_codec \<Rightarrow> event list \<times> claude_codec" where
  "claude_tool_result raw b k =
     (if cb_type b \<noteq> ''tool_result'' then ([], k)
      else case cc_responds k (cb_tool_use_id b) of
        Some args \<Rightarrow>
          let text = claude_result_text (cb_content b) in
          ([if cb_is_error b \<or> text \<noteq> mcp_accepted
            then (event_of EventStructuredRejected)\<lparr>ev_raw := raw,
                   ev_err := Some (Msg (''claude: respond: '' @ text))\<rparr>
            else (event_of EventStructured)\<lparr>ev_structured := args, ev_raw := raw\<rparr>],
           k\<lparr>cc_responds := (cc_responds k)(cb_tool_use_id b := None)\<rparr>)
      | None \<Rightarrow>
          ([(event_of EventToolResult)\<lparr>ev_raw := raw,
              ev_tool := Some \<lparr>te_call_id = cb_tool_use_id b,
                 te_name = (case cc_calls k (cb_tool_use_id b) of None \<Rightarrow> [] | Some n \<Rightarrow> n),
                 te_args = [], te_result = cb_content b, te_is_error = cb_is_error b\<rparr>\<rparr>],
           k\<lparr>cc_calls := (cc_calls k)(cb_tool_use_id b := None)\<rparr>))"

definition claude_message ::
  "(string \<Rightarrow> claude_block \<Rightarrow> claude_codec \<Rightarrow> event list \<times> claude_codec) \<Rightarrow> string \<Rightarrow> claude_codec
     \<Rightarrow> (err + event list) \<times> claude_codec" where
  "claude_message f raw k =
     (case claude_blocks raw of
        None \<Rightarrow> (Inl (claude_decode_error raw), k)
      | Some bs \<Rightarrow> let (es, k) = each_block (f raw) bs k in (Inr (or_harness raw es), k))"

section \<open>The end of a turn\<close>

text \<open>
  \<open>limitReset\<close>, the expression \<open>(?i)limit.*\|(\d{9,})\<close>: after the first limit whose line goes on
  with it, the digits behind the line's last bar that nine or more digits follow.
\<close>

fun last_bar :: "string \<Rightarrow> string option" where
  "last_bar [] = None"
| "last_bar (c # s) =
     (case last_bar s of
        Some d \<Rightarrow> Some d
      | None \<Rightarrow>
          (if c = CHR ''|'' \<and> 9 \<le> length (takeWhile is_digit s) then Some (takeWhile is_digit s) else None))"

fun limit_reset :: "string \<Rightarrow> string option" where
  "limit_reset [] = None"
| "limit_reset (c # s) =
     (case (if to_lower_ascii (take 5 (c # s)) = ''limit''
            then last_bar (takeWhile (\<lambda>x. x \<noteq> LF) (drop 5 (c # s))) else None) of
        Some d \<Rightarrow> Some d
      | None \<Rightarrow> limit_reset s)"

definition claude_error_text :: "claude_result \<Rightarrow> string" where
  "claude_error_text r =
     (let msg = join ''; '' (cr_errors r);
          msg = (if msg = [] then cr_result r else msg)
      in if msg = [] then cr_subtype r else msg)"

definition claude_limited :: "claude_codec \<Rightarrow> claude_result \<Rightarrow> bool" where
  "claude_limited k r \<longleftrightarrow>
     (case cc_limit k of None \<Rightarrow> False | Some l \<Rightarrow> ls_status l = ''rejected'')
     \<or> cr_api_status r = Some 429
     \<or> limit_reset (claude_error_text r) \<noteq> None"

definition claude_turn_error :: "claude_codec \<Rightarrow> claude_result \<Rightarrow> err" where
  "claude_turn_error k r =
     (let msg = claude_error_text r;
          resets = (case limit_reset msg of
                      None \<Rightarrow> 0
                    | Some d \<Rightarrow> (case parse_int d of None \<Rightarrow> 0 | Some sec \<Rightarrow> unix_time sec)) in
      if \<not> claude_limited k r then Msg (''claude: '' @ msg)
      else LimitErr
        (if is_zero resets then (case cc_limit k of None \<Rightarrow> resets | Some l \<Rightarrow> ls_resets_at l) else resets) msg)"

definition claude_aborted :: "claude_result \<Rightarrow> bool" where
  "claude_aborted r = has_prefix (cr_terminal_reason r) ''aborted''"

definition claude_stop_reason :: "claude_result \<Rightarrow> string" where
  "claude_stop_reason r =
     (if claude_aborted r then ''aborted''
      else if cr_is_error r then ''error''
      else case cr_stop_reason r of None \<Rightarrow> [] | Some s \<Rightarrow> s)"

definition claude_end :: "claude_result \<Rightarrow> string \<Rightarrow> claude_codec \<Rightarrow> event list \<times> claude_codec" where
  "claude_end r raw k =
     ((event_of EventMessageEnd)\<lparr>ev_text := cr_result r, ev_stop_reason := claude_stop_reason r, ev_raw := raw,
         ev_usage := cr_usage r\<rparr>
      # (if claude_aborted r then [(event_of EventCancelled)\<lparr>ev_stop_reason := claude_stop_reason r\<rparr>]
         else if cr_is_error r then [(event_of EventError)\<lparr>ev_err := Some (claude_turn_error k r)\<rparr>]
         else [])
      @ [event_of EventEnded],
      k\<lparr>cc_responds := Map.empty, cc_calls := Map.empty\<rparr>)"

definition claude_delta :: "claude_stream \<Rightarrow> event \<Rightarrow> event" where
  "claude_delta s ev =
     (if se_type s \<noteq> ''content_block_delta'' then ev
      else if se_delta_type s = ''text_delta'' \<and> se_text s \<noteq> []
      then ev\<lparr>ev_kind := EventTextDelta, ev_text := se_text s\<rparr>
      else if se_delta_type s = ''thinking_delta'' \<and> se_thinking s \<noteq> []
      then ev\<lparr>ev_kind := EventThinkingDelta, ev_text := se_thinking s\<rparr>
      else ev)"

definition claude_normalize :: "string \<Rightarrow> string \<Rightarrow> string \<Rightarrow> claude_codec \<Rightarrow> (err + event list) \<times> claude_codec" where
  "claude_normalize t subtype raw k =
     (let ev = harness_event raw in
      if t = ''system'' \<and> subtype = ''init'' then (Inr [ev\<lparr>ev_kind := EventStarted\<rparr>], k\<lparr>cc_limit := None\<rparr>)
      else if t = ''stream_event'' then
        (case unmarshal_struct raw \<bind> claude_stream_of of
           None \<Rightarrow> (Inl (claude_decode_error raw), k)
         | Some s \<Rightarrow> (Inr [claude_delta s ev], k))
      else if t = ''assistant'' then claude_message claude_tool_call raw k
      else if t = ''user'' then claude_message claude_tool_result raw k
      else if t = ''rate_limit_event'' then
        (case unmarshal_struct raw \<bind> claude_rate_of of
           None \<Rightarrow> (Inl (claude_decode_error raw), k)
         | Some r \<Rightarrow>
             (Inr [ev\<lparr>ev_kind := EventLimit, ev_limit := Some (claude_limit_status r)\<rparr>],
              k\<lparr>cc_limit := Some (claude_limit_status r)\<rparr>))
      else if t = ''result'' then
        (case unmarshal_struct raw \<bind> claude_result_of of
           None \<Rightarrow> (Inl (claude_decode_error raw), k)
         | Some r \<Rightarrow> apfst Inr (claude_end r raw k))
      else (Inr [ev], k))"

definition claude_response_of :: "claude_reply_body \<Rightarrow> response" where
  "claude_response_of b =
     \<lparr>rp_id = rb_request_id b,
      rp_err = (if rb_subtype b = ''error'' then Some (Msg (''claude: '' @ rb_error b)) else None),
      rp_data = rb_response b\<rparr>"

definition claude_request_of :: "members \<Rightarrow> claude_control hrequest option" where
  "claude_request_of ms = do {
     _ \<leftarrow> str_field ''type'' ms;
     i \<leftarrow> str_field ''request_id'' ms;
     rs \<leftarrow> unmarshal_struct (raw_field ''request'' ms);
     c \<leftarrow> claude_control_of rs;
     Some \<lparr>hq_id = i, hq_body = c\<rparr> }"

definition claude_head_of :: "members \<Rightarrow> (string \<times> string) option" where
  "claude_head_of ms = do { t \<leftarrow> str_field ''type'' ms; s \<leftarrow> str_field ''subtype'' ms; Some (t, s) }"

definition claude_decode :: "string \<Rightarrow> claude_codec \<Rightarrow> (err + claude_control line_frame) \<times> claude_codec" where
  "claude_decode raw k =
     (case unmarshal_struct raw \<bind> claude_head_of of
        None \<Rightarrow> (Inl (claude_decode_error raw), k)
      | Some (t, subtype) \<Rightarrow>
          if t = ''control_response'' then
            (case unmarshal_struct raw \<bind> claude_reply_body_of of
               None \<Rightarrow> (Inl (claude_decode_error raw), k)
             | Some b \<Rightarrow> (Inr (empty_frame\<lparr>fr_response := Some (claude_response_of b)\<rparr>), k))
          else if t = ''control_request'' then
            (case unmarshal_struct raw \<bind> claude_request_of of
               None \<Rightarrow> (Inl (claude_decode_error raw), k)
             | Some q \<Rightarrow> (Inr (empty_frame\<lparr>fr_request := Some q\<rparr>), k))
          else
            (case claude_normalize t subtype raw k of
               (Inl e, k) \<Rightarrow> (Inl e, k)
             | (Inr es, k) \<Rightarrow> (Inr (empty_frame\<lparr>fr_events := es\<rparr>), k)))"

section \<open>One line each\<close>

interpretation claude_lines: codec claude_encode "claude_reply :: 'b hrequest \<Rightarrow> claude_answer \<Rightarrow> err + string"
proof
  fix i cmd k l k'
  assume "claude_encode i cmd k = (Inr l, k')"
  then show "LF \<notin> set l \<and> l \<noteq> [] \<and> last l \<noteq> CHR 0x0D"
    unfolding claude_encode_def claude_envelope_val_def claude_user_val_def using json_line_plain
    by (auto split: claude_any.splits sum.splits)
next
  fix req :: "'b hrequest" and answer l
  assume "claude_reply req answer = Inr l"
  then show "LF \<notin> set l \<and> l \<noteq> [] \<and> last l \<noteq> CHR 0x0D"
    unfolding claude_reply_def claude_reply_val_def using json_line_plain
    by (auto split: claude_answer.splits sum.splits)
qed

lemma claude_message_alt:
  "claude_message f raw k =
     (case claude_blocks raw of
        None \<Rightarrow> (Inl (claude_decode_error raw), k)
      | Some bs \<Rightarrow> (Inr (or_harness raw (fst (each_block (f raw) bs k))), snd (each_block (f raw) bs k)))"
  by (simp add: claude_message_def split_beta Let_def split: option.split)

section \<open>Where a structured response comes from\<close>

text \<open>A line that calls the respond tool, and one that ends a turn.\<close>

definition claude_calls_respond :: "string \<Rightarrow> string \<Rightarrow> string \<Rightarrow> bool" where
  "claude_calls_respond line i args \<longleftrightarrow>
     map_option fst (unmarshal_struct line \<bind> claude_head_of) = Some ''assistant''
     \<and> (\<exists>bs. claude_blocks line = Some bs \<and>
          (\<exists>b \<in> set bs. cb_type b = ''tool_use'' \<and> cb_id b = i \<and> cb_input b = args
             \<and> has_prefix (cb_name b) claude_tool_prefix \<and> is_respond (claude_tool_name (cb_name b))))"

definition claude_ends :: "string \<Rightarrow> bool" where
  "claude_ends line \<longleftrightarrow>
     map_option fst (unmarshal_struct line \<bind> claude_head_of) = Some ''result''
     \<and> unmarshal_struct line \<bind> claude_result_of \<noteq> None"

definition claude_run :: "string list \<Rightarrow> claude_codec" where
  "claude_run ls = fold (\<lambda>l k. snd (claude_decode l k)) ls new_claude_codec"

lemma claude_calls_responds:
  "cc_responds (snd (each_block (claude_tool_call raw) bs k)) i = Some a \<Longrightarrow>
     cc_responds k i = Some a \<or>
     (\<exists>b \<in> set bs. cb_type b = ''tool_use'' \<and> cb_id b = i \<and> cb_input b = a
        \<and> has_prefix (cb_name b) claude_tool_prefix \<and> is_respond (claude_tool_name (cb_name b)))"
proof (induction bs arbitrary: k)
  case (Cons b bs)
  let ?k = "snd (claude_tool_call raw b k)"
  have "cc_responds (snd (each_block (claude_tool_call raw) bs ?k)) i = Some a"
    using Cons.prems by (simp add: split_beta Let_def)
  from Cons.IH[OF this] have "cc_responds ?k i = Some a \<or> (\<exists>b \<in> set bs. cb_type b = ''tool_use'' \<and> cb_id b = i
      \<and> cb_input b = a \<and> has_prefix (cb_name b) claude_tool_prefix \<and> is_respond (claude_tool_name (cb_name b)))" .
  moreover have "cc_responds ?k i = Some a \<Longrightarrow> cc_responds k i = Some a \<or>
      cb_type b = ''tool_use'' \<and> cb_id b = i \<and> cb_input b = a
        \<and> has_prefix (cb_name b) claude_tool_prefix \<and> is_respond (claude_tool_name (cb_name b))"
    by (auto simp: claude_tool_call_def Let_def split: if_splits)
  ultimately show ?case by auto
qed simp

lemma claude_result_responds:
  "cc_responds (snd (claude_tool_result raw b k)) i = Some a \<Longrightarrow> cc_responds k i = Some a"
  by (auto simp: claude_tool_result_def Let_def split: if_splits option.splits)

lemma claude_results_responds:
  "cc_responds (snd (each_block (claude_tool_result raw) bs k)) i = Some a \<Longrightarrow> cc_responds k i = Some a"
proof (induction bs arbitrary: k)
  case (Cons b bs)
  then show ?case using claude_result_responds[of raw b k i a] by (simp add: split_beta Let_def)
qed simp

lemma claude_decode_responds:
  assumes "cc_responds (snd (claude_decode line k)) i = Some a"
  shows "cc_responds k i = Some a \<and> \<not> claude_ends line \<or> claude_calls_respond line i a"
proof (cases "unmarshal_struct line \<bind> claude_head_of")
  case None
  then show ?thesis using assms by (simp add: claude_decode_def claude_ends_def)
next
  case (Some p)
  obtain t s where p: "p = (t, s)" by (cases p)
  note head = Some[unfolded p]
  consider (reply) "t = ''control_response''" | (ask) "t = ''control_request''"
    | (init) "t = ''system''" | (stream) "t = ''stream_event''" | (calls) "t = ''assistant''"
    | (results) "t = ''user''" | (limit) "t = ''rate_limit_event''" | (ends) "t = ''result''"
    | (other) "\<not> (t = ''control_response'' \<or> t = ''control_request'' \<or> t = ''system'' \<or> t = ''stream_event''
         \<or> t = ''assistant'' \<or> t = ''user'' \<or> t = ''rate_limit_event'' \<or> t = ''result'')"
    by argo
  then show ?thesis
  proof cases
    case calls
    show ?thesis
    proof (cases "claude_blocks line")
      case None
      then show ?thesis using assms head calls
        by (simp add: claude_decode_def claude_normalize_def claude_message_alt claude_ends_def)
    next
      case (Some bs)
      have "cc_responds (snd (each_block (claude_tool_call line) bs k)) i = Some a"
        using assms head calls Some by (simp add: claude_decode_def claude_normalize_def claude_message_alt)
      from claude_calls_responds[OF this] show ?thesis
        using head calls Some by (simp add: claude_ends_def claude_calls_respond_def)
    qed
  next
    case results
    then show ?thesis using assms head claude_results_responds[of line _ k i a]
      by (simp add: claude_decode_def claude_normalize_def claude_message_alt claude_ends_def split: option.splits)
  next
    case ends
    then show ?thesis using assms head
      by (auto simp: claude_decode_def claude_normalize_def claude_end_def claude_ends_def Let_def split: option.splits)
  qed (use assms head in \<open>auto simp: claude_decode_def claude_normalize_def claude_ends_def Let_def
         split: option.splits if_splits\<close>)
qed

lemma claude_calls_not_ends: "claude_calls_respond line i a \<Longrightarrow> \<not> claude_ends line"
  by (auto simp: claude_calls_respond_def claude_ends_def)

lemma claude_run_responds:
  "cc_responds (claude_run ls) i = Some a \<Longrightarrow>
     \<exists>pre l post. ls = pre @ l # post \<and> claude_calls_respond l i a \<and> list_all (\<lambda>x. \<not> claude_ends x) post"
proof (induction ls rule: rev_induct)
  case Nil
  then show ?case by (simp add: claude_run_def new_claude_codec_def)
next
  case (snoc x ls)
  have "cc_responds (snd (claude_decode x (claude_run ls))) i = Some a"
    using snoc.prems by (simp add: claude_run_def)
  from claude_decode_responds[OF this] show ?case
  proof
    assume o: "cc_responds (claude_run ls) i = Some a \<and> \<not> claude_ends x"
    then obtain pre l post where "ls = pre @ l # post" "claude_calls_respond l i a" "list_all (\<lambda>x. \<not> claude_ends x) post"
      using snoc.IH by blast
    then have "ls @ [x] = pre @ l # (post @ [x])" "list_all (\<lambda>x. \<not> claude_ends x) (post @ [x])" using o by simp_all
    then show ?thesis using \<open>claude_calls_respond l i a\<close> by blast
  next
    assume "claude_calls_respond x i a"
    then show ?thesis by (intro exI[of _ ls] exI[of _ x] exI[of _ "[]"]) simp
  qed
qed

lemma claude_results_structured:
  "ev \<in> set (fst (each_block (claude_tool_result raw) bs k)) \<Longrightarrow> ev_kind ev = EventStructured \<Longrightarrow>
     \<exists>b \<in> set bs. cb_type b = ''tool_result'' \<and> \<not> cb_is_error b \<and> claude_result_text (cb_content b) = mcp_accepted
       \<and> cc_responds k (cb_tool_use_id b) = Some (ev_structured ev)"
proof (induction bs arbitrary: k)
  case (Cons b bs)
  let ?k = "snd (claude_tool_result raw b k)"
  have "ev \<in> set (fst (claude_tool_result raw b k)) \<or> ev \<in> set (fst (each_block (claude_tool_result raw) bs ?k))"
    using Cons.prems by (auto simp: split_beta Let_def)
  then show ?case
  proof
    assume "ev \<in> set (fst (claude_tool_result raw b k))"
    then have "cb_type b = ''tool_result'' \<and> \<not> cb_is_error b \<and> claude_result_text (cb_content b) = mcp_accepted
       \<and> cc_responds k (cb_tool_use_id b) = Some (ev_structured ev)"
      using Cons.prems(2) by (auto simp: claude_tool_result_def Let_def split: if_splits option.splits)
    then show ?thesis by auto
  next
    assume "ev \<in> set (fst (each_block (claude_tool_result raw) bs ?k))"
    from Cons.IH[OF this Cons.prems(2)] obtain c where
      "c \<in> set bs" "cb_type c = ''tool_result''" "\<not> cb_is_error c" "claude_result_text (cb_content c) = mcp_accepted"
      "cc_responds ?k (cb_tool_use_id c) = Some (ev_structured ev)" by blast
    then show ?thesis using claude_result_responds[of raw b k] by (intro bexI[of _ c]) simp_all
  qed
qed simp

lemma claude_calls_structured:
  "ev \<in> set (fst (each_block (claude_tool_call raw) bs k)) \<Longrightarrow> ev_kind ev = EventToolCall"
proof (induction bs arbitrary: k)
  case (Cons b bs)
  then show ?case by (auto simp: split_beta Let_def claude_tool_call_def split: if_splits)
qed simp

text \<open>
  C31: A structured response is one the bridge accepted. When a line's events hold an
  EventStructured, the line has a tool_result block that isn't an error and whose text is the
  bridge's acceptance, and its arguments are those of the respond call with the block's id, made
  earlier, with no turn ended in between (claude/codec.go: toolCalls, toolResults, end).
\<close>

theorem claude_structured_accepted:
  assumes "claude_decode line (claude_run ls) = (Inr f, k')" "ev \<in> set (fr_events f)" "ev_kind ev = EventStructured"
  shows "\<exists>bs b pre l post. claude_blocks line = Some bs \<and> b \<in> set bs \<and> cb_type b = ''tool_result'' \<and> \<not> cb_is_error b
    \<and> claude_result_text (cb_content b) = ''Accepted.''
    \<and> ls = pre @ l # post \<and> claude_calls_respond l (cb_tool_use_id b) (ev_structured ev)
    \<and> list_all (\<lambda>x. \<not> claude_ends x) post"
proof -
  obtain t s where head: "unmarshal_struct line \<bind> claude_head_of = Some (t, s)"
    using assms(1) by (auto simp: claude_decode_def split: option.splits)
  obtain es where es: "claude_normalize t s line (claude_run ls) = (Inr es, k')" "ev \<in> set es"
    using assms head by (auto simp: claude_decode_def empty_frame_def split: if_splits option.splits sum.splits prod.splits)
  have calls: "t \<noteq> ''assistant''"
  proof
    assume "t = ''assistant''"
    then obtain bs where "es = or_harness line (fst (each_block (claude_tool_call line) bs (claude_run ls)))"
      using es(1) by (auto simp: claude_normalize_def claude_message_alt Let_def split: option.splits)
    then show False using es(2) assms(3) claude_calls_structured[of ev line bs "claude_run ls"]
      by (auto simp: or_harness_def split: if_splits)
  qed
  have "t = ''user''"
    using es assms(3) calls
    by (auto simp: claude_normalize_def claude_delta_def claude_end_def Let_def split: if_splits option.splits)
  then obtain bs where bs: "claude_blocks line = Some bs"
      "es = or_harness line (fst (each_block (claude_tool_result line) bs (claude_run ls)))"
    using es(1) by (auto simp: claude_normalize_def claude_message_alt Let_def split: option.splits)
  have "ev \<in> set (fst (each_block (claude_tool_result line) bs (claude_run ls)))"
    using bs(2) es(2) assms(3) by (auto simp: or_harness_def split: if_splits)
  from claude_results_structured[OF this assms(3)] obtain b where
    b: "b \<in> set bs" "cb_type b = ''tool_result''" "\<not> cb_is_error b" "claude_result_text (cb_content b) = mcp_accepted"
       "cc_responds (claude_run ls) (cb_tool_use_id b) = Some (ev_structured ev)" by blast
  from claude_run_responds[OF b(5)] show ?thesis using bs(1) b by (auto simp: mcp_accepted_def)
qed


section \<open>Turns\<close>

text \<open>
  A turn ends once. A result line becomes EventMessageEnd, then EventCancelled for an aborted
  turn or EventError for a failed one, then EventEnded; no call of the turn is remembered past it;
  and the failed turn's error is a usage limit exactly when the turn's last rate-limit notice was a
  rejection, the API answered 429, or the message names a limit's reset (claude/codec.go: end, turnError).
\<close>

theorem claude_turn_end:
  assumes "unmarshal_struct line \<bind> claude_head_of = Some (''result'', s)"
    and "unmarshal_struct line \<bind> claude_result_of = Some r"
  shows "\<exists>f k'. claude_decode line k = (Inr f, k') \<and> fr_response f = None \<and> fr_request f = None
    \<and> map ev_kind (fr_events f) = [EventMessageEnd]
        @ (if claude_aborted r then [EventCancelled] else if cr_is_error r then [EventError] else []) @ [EventEnded]
    \<and> (if cr_is_error r \<and> \<not> claude_aborted r
       then \<exists>e. ev_err (fr_events f ! 1) = Some e \<and> err_is e ErrUsageLimit =
              ((\<exists>l. cc_limit k = Some l \<and> ls_status l = ''rejected'') \<or> cr_api_status r = Some 429
               \<or> limit_reset (claude_error_text r) \<noteq> None)
       else True)
    \<and> k' = k\<lparr>cc_responds := Map.empty, cc_calls := Map.empty\<rparr>"
  using assms
  by (simp add: claude_decode_def claude_normalize_def claude_end_def claude_turn_error_def claude_limited_def
      empty_frame_def ErrUsageLimit_def usage_limit_text_def Let_def split: option.split)

definition claude_example_end :: string where
  \<open>claude_example_end = ''{"type":"result","is_error":true,"terminal_reason":"api","api_error_status":429}''\<close>

theorem claude_turn_end_witness:
  "\<exists>f k'. claude_decode claude_example_end new_claude_codec = (Inr f, k')
     \<and> map ev_kind (fr_events f) = [EventMessageEnd, EventError, EventEnded]
     \<and> (\<exists>e. ev_err (fr_events f ! 1) = Some e \<and> err_is e ErrUsageLimit)"
proof -
  have h: "unmarshal_struct claude_example_end \<bind> claude_head_of = Some (''result'', [])" by code_simp
  have r: "unmarshal_struct claude_example_end \<bind> claude_result_of
      = Some \<lparr>cr_subtype = [], cr_is_error = True, cr_result = [], cr_stop_reason = None,
              cr_terminal_reason = ''api'', cr_errors = [], cr_api_status = Some 429, cr_usage = None\<rparr>"
    by code_simp
  show ?thesis using claude_turn_end[OF h r, of new_claude_codec] by (auto simp: claude_aborted_def has_prefix_def)
qed

definition claude_example_call :: string where
  \<open>claude_example_call = ''{"type":"assistant","message":{"content":[{"type":"tool_use","id":"a","name":"mcp__driver__respond_0","input":{}}]}}''\<close>

definition claude_example_answer :: string where
  \<open>claude_example_answer = ''{"type":"user","message":{"content":[{"type":"tool_result","tool_use_id":"a","content":"Accepted."}]}}''\<close>

theorem claude_structured_accepted_witness:
  "\<exists>f k' ev. claude_decode claude_example_answer (claude_run [claude_example_call]) = (Inr f, k')
     \<and> ev \<in> set (fr_events f)
     \<and> (\<exists>i. claude_calls_respond claude_example_call i (ev_structured ev))"
proof -
  have "(case claude_decode claude_example_answer (claude_run [claude_example_call]) of
           (Inr f, k') \<Rightarrow> list_ex (\<lambda>ev. ev_kind ev = EventStructured) (fr_events f) | (Inl e, k') \<Rightarrow> False)"
    by code_simp
  then obtain f k' ev where d: "claude_decode claude_example_answer (claude_run [claude_example_call]) = (Inr f, k')"
      "ev \<in> set (fr_events f)" "ev_kind ev = EventStructured"
    by (auto simp: list_ex_iff split: prod.splits sum.splits)
  from claude_structured_accepted[OF d] show ?thesis using d by (auto simp: append_eq_Cons_conv Cons_eq_append_conv)
qed

end
