(* ===== verification/Opencode_Codec.thy ===== *)
theory Opencode_Codec
  imports Adapters
begin

text \<open>
  The OpenCode adapter's protocol, ACP over JSON-RPC (opencode/wire.go, opencode/codec.go). The
  codec holds the ids of the prompts and loads in flight and the state of the turn: Encode opens
  a turn, the session's updates are its events, and the answer to its prompt ends it. The lock
  around the state makes each call one step.
\<close>

section \<open>Wire types\<close>

record rpc_error =
  re_code :: int
  re_message :: string
  re_data :: string

definition rpc_error_of :: "members \<Rightarrow> rpc_error option" where
  "rpc_error_of ms = do {
     c \<leftarrow> int_field ''code'' ms;
     m \<leftarrow> str_field ''message'' ms;
     Some \<lparr>re_code = c, re_message = m, re_data = raw_field ''data'' ms\<rparr> }"

definition rpc_error_val :: "rpc_error \<Rightarrow> goval" where
  "rpc_error_val e =
     GStruct ([(''code'', GInt (re_code e)), (''message'', GStr (re_message e))] @ omit_raw ''data'' (re_data e))"

record rpc_message =
  rm_id :: string
  rm_method :: string
  rm_params :: string
  rm_result :: string
  rm_error :: "rpc_error option"

definition rpc_message_of :: "members \<Rightarrow> rpc_message option" where
  "rpc_message_of ms = do {
     m \<leftarrow> str_field ''method'' ms;
     e \<leftarrow> opt_struct rpc_error_of ''error'' ms;
     Some \<lparr>rm_id = raw_field ''id'' ms, rm_method = m, rm_params = raw_field ''params'' ms,
           rm_result = raw_field ''result'' ms, rm_error = e\<rparr> }"

record oc_request =
  oq_method :: string
  oq_params :: string

record oc_update =
  ou_kind :: string
  ou_content :: string
  ou_message_id :: string
  ou_tool_call_id :: string
  ou_title :: string
  ou_status :: string
  ou_raw_input :: string
  ou_raw_output :: string

definition oc_update_of :: "members \<Rightarrow> oc_update option" where
  "oc_update_of ms = do {
     k \<leftarrow> str_field ''sessionUpdate'' ms;
     m \<leftarrow> str_field ''messageId'' ms;
     i \<leftarrow> str_field ''toolCallId'' ms;
     t \<leftarrow> str_field ''title'' ms;
     _ \<leftarrow> str_field ''kind'' ms;
     s \<leftarrow> str_field ''status'' ms;
     Some \<lparr>ou_kind = k, ou_content = raw_field ''content'' ms, ou_message_id = m, ou_tool_call_id = i,
           ou_title = t, ou_status = s, ou_raw_input = raw_field ''rawInput'' ms,
           ou_raw_output = raw_field ''rawOutput'' ms\<rparr> }"

definition oc_params_of :: "members \<Rightarrow> oc_update option" where
  "oc_params_of ms = inner_field ''update'' ms \<bind> oc_update_of"

definition oc_usage_of :: "members \<Rightarrow> usage option" where
  "oc_usage_of ms = do {
     i \<leftarrow> int_field ''inputTokens'' ms;
     out \<leftarrow> int_field ''outputTokens'' ms;
     cr \<leftarrow> int_field ''cachedReadTokens'' ms;
     cw \<leftarrow> int_field ''cachedWriteTokens'' ms;
     Some \<lparr>us_input = i, us_output = out, us_cache_read = cr, us_cache_write = cw\<rparr> }"

record oc_prompt_result =
  op_stop_reason :: string
  op_usage :: "usage option"

definition oc_prompt_result_of :: "members \<Rightarrow> oc_prompt_result option" where
  "oc_prompt_result_of ms = do {
     s \<leftarrow> str_field ''stopReason'' ms;
     u \<leftarrow> opt_struct oc_usage_of ''usage'' ms;
     Some \<lparr>op_stop_reason = s, op_usage = u\<rparr> }"

definition oc_block_of :: "members \<Rightarrow> (string \<times> string) option" where
  "oc_block_of ms = do {
     t \<leftarrow> str_field ''type'' ms;
     x \<leftarrow> str_field ''text'' ms;
     _ \<leftarrow> str_field ''data'' ms;
     _ \<leftarrow> str_field ''mimeType'' ms;
     Some (t, x) }"

section \<open>State, encoding and replies\<close>

definition oc_server_name :: string where
  "oc_server_name = ''driver''"

definition oc_tool_prefix :: string where
  "oc_tool_prefix = oc_server_name @ ''_''"

record oc_codec =
  oc_prompts :: "string set"
  oc_loads :: "string set"
  oc_started :: bool
  oc_message :: string
  oc_text :: string
  oc_calls :: "string \<rightharpoonup> string"
  oc_args :: "string \<rightharpoonup> string"
  oc_called :: "string set"

definition new_oc_codec :: oc_codec where
  "new_oc_codec =
     \<lparr>oc_prompts = {}, oc_loads = {}, oc_started = False, oc_message = [], oc_text = [],
      oc_calls = Map.empty, oc_args = Map.empty, oc_called = {}\<rparr>"

datatype oc_any = OcCall string goval | OcOther string

definition oc_track :: "string \<Rightarrow> string \<Rightarrow> oc_codec \<Rightarrow> oc_codec" where
  "oc_track i mname k =
     (if mname = ''session/prompt''
      then k\<lparr>oc_prompts := insert i (oc_prompts k), oc_started := False, oc_message := [], oc_text := []\<rparr>
      else if mname = ''session/load'' then k\<lparr>oc_loads := insert i (oc_loads k)\<rparr>
      else k)"

definition oc_encode :: "string \<Rightarrow> oc_any \<Rightarrow> oc_codec \<Rightarrow> (err + string) \<times> oc_codec" where
  "oc_encode i cmd k =
     (case cmd of
        OcOther t \<Rightarrow> (Inl (Msg (''opencode: encode '' @ t @ '': not a call'')), k)
      | OcCall mname params \<Rightarrow>
          (json_line (GMap ([(''jsonrpc'', GStr ''2.0''), (''method'', GStr mname), (''params'', params)]
              @ (if i = [] then [] else [(''id'', GRaw i)]))),
           if i = [] then k else oc_track i mname k))"

datatype oc_answer = OcError err | OcValue goval

definition oc_reply :: "'b hrequest \<Rightarrow> oc_answer \<Rightarrow> err + string" where
  "oc_reply req answer =
     json_line (GMap [(''jsonrpc'', GStr ''2.0''), (''id'', GRaw (hq_id req)),
       (case answer of
          OcError e \<Rightarrow> (''error'', rpc_error_val \<lparr>re_code = -32603, re_message = err_text e, re_data = []\<rparr>)
        | OcValue v \<Rightarrow> (''result'', v))])"

section \<open>Updates\<close>

definition oc_decode_error :: "string \<Rightarrow> err" where
  "oc_decode_error line = wrap (''opencode: decode '' @ quote line) json_err"

definition oc_error_data :: "string \<Rightarrow> string" where
  "oc_error_data data = (if data = [] \<or> data = ''null'' then [] else '': '' @ data)"

definition oc_rpc_err :: "rpc_error \<Rightarrow> err" where
  "oc_rpc_err e =
     Msg (''opencode: '' @ re_message e @ '' ('' @ int_text (re_code e) @ '')'' @ oc_error_data (re_data e))"

definition oc_chunk_text :: "string \<Rightarrow> string option" where
  "oc_chunk_text content =
     (case unmarshal_struct content \<bind> oc_block_of of
        Some (t, x) \<Rightarrow> if t = ''text'' then Some x else None
      | None \<Rightarrow> None)"

definition oc_tool_name :: "string \<Rightarrow> string" where
  "oc_tool_name title = trim_prefix title oc_tool_prefix"

definition oc_output_text :: "string \<Rightarrow> string" where
  "oc_output_text out =
     (case unmarshal_str out of
        Some s \<Rightarrow> s
      | None \<Rightarrow>
          (case do { ms \<leftarrow> unmarshal_struct out; p \<leftarrow> str_field ''output'' ms; e \<leftarrow> str_field ''error'' ms; Some (p, e) } of
             Some (p, e) \<Rightarrow> if p \<noteq> [] \<or> e \<noteq> [] then e @ p else out
           | None \<Rightarrow> out))"

text \<open>tool, in its three parts: the call is known, it surfaces once it runs, and it ends.\<close>

definition oc_tool_known :: "oc_update \<Rightarrow> oc_codec \<Rightarrow> string \<times> oc_codec" where
  "oc_tool_known u k =
     (let i = ou_tool_call_id u;
          name = (case oc_calls k i of Some n \<Rightarrow> n | None \<Rightarrow> oc_tool_name (ou_title u));
          k = k\<lparr>oc_calls := (oc_calls k)(i \<mapsto> name)\<rparr> in
      (name, if ou_raw_input u \<noteq> [] \<and> (ou_raw_input u \<noteq> ''{}'' \<or> ou_status u \<noteq> ''pending'')
             then k\<lparr>oc_args := (oc_args k)(i \<mapsto> ou_raw_input u)\<rparr> else k))"

definition oc_args_of :: "oc_codec \<Rightarrow> string \<Rightarrow> string" where
  "oc_args_of k i = (case oc_args k i of None \<Rightarrow> [] | Some a \<Rightarrow> a)"

definition oc_tool_call :: "string \<Rightarrow> oc_update \<Rightarrow> string \<Rightarrow> oc_codec \<Rightarrow> event list \<times> oc_codec" where
  "oc_tool_call name u line k =
     (let i = ou_tool_call_id u in
      if i \<notin> oc_called k \<and> ou_status u \<noteq> ''pending'' \<and> ou_status u \<noteq> []
      then (if is_respond name then []
            else [(event_of EventToolCall)\<lparr>ev_raw := line,
                    ev_tool := Some \<lparr>te_call_id = i, te_name = name, te_args = oc_args_of k i,
                                     te_result = [], te_is_error = False\<rparr>\<rparr>],
            k\<lparr>oc_called := insert i (oc_called k)\<rparr>)
      else ([], k))"

definition oc_tool_result :: "string \<Rightarrow> oc_update \<Rightarrow> string \<Rightarrow> string \<Rightarrow> event" where
  "oc_tool_result name u args line =
     (let failed = (ou_status u = ''failed''); output = oc_output_text (ou_raw_output u) in
      if is_respond name \<and> (failed \<or> output \<noteq> mcp_accepted) then
        (event_of EventStructuredRejected)\<lparr>ev_raw := line, ev_err := Some (Msg (''opencode: respond: '' @ output))\<rparr>
      else if is_respond name then (event_of EventStructured)\<lparr>ev_structured := args, ev_raw := line\<rparr>
      else (event_of EventToolResult)\<lparr>ev_raw := line,
             ev_tool := Some \<lparr>te_call_id = ou_tool_call_id u, te_name = name, te_args = [],
                              te_result = ou_raw_output u, te_is_error = failed\<rparr>\<rparr>)"

definition oc_tool_end :: "string \<Rightarrow> oc_update \<Rightarrow> string \<Rightarrow> oc_codec \<Rightarrow> event list \<times> oc_codec" where
  "oc_tool_end name u line k =
     (let i = ou_tool_call_id u in
      if ou_status u = ''completed'' \<or> ou_status u = ''failed''
      then ([oc_tool_result name u (oc_args_of k i) line],
            k\<lparr>oc_calls := (oc_calls k)(i := None), oc_args := (oc_args k)(i := None),
               oc_called := oc_called k - {i}\<rparr>)
      else ([], k))"

definition oc_tool :: "oc_update \<Rightarrow> string \<Rightarrow> oc_codec \<Rightarrow> event list \<times> oc_codec" where
  "oc_tool u line k =
     (let (name, k) = oc_tool_known u k;
          (calls, k) = oc_tool_call name u line k;
          (results, k) = oc_tool_end name u line k in
      (or_harness line (calls @ results), k))"

definition oc_chunk :: "oc_update \<Rightarrow> string \<Rightarrow> oc_codec \<Rightarrow> oc_codec" where
  "oc_chunk u x k =
     (let k = (if ou_message_id u \<noteq> oc_message k then k\<lparr>oc_message := ou_message_id u, oc_text := []\<rparr> else k)
      in k\<lparr>oc_text := oc_text k @ x\<rparr>)"

definition oc_apply :: "oc_update \<Rightarrow> string \<Rightarrow> oc_codec \<Rightarrow> event list \<times> oc_codec" where
  "oc_apply u line k =
     (let ev = harness_event line; t = ou_kind u in
      if t = ''agent_message_chunk'' then
        (case oc_chunk_text (ou_content u) of
           None \<Rightarrow> ([ev], k)
         | Some x \<Rightarrow> ([ev\<lparr>ev_kind := EventTextDelta, ev_text := x\<rparr>], oc_chunk u x k))
      else if t = ''agent_thought_chunk'' then
        (case oc_chunk_text (ou_content u) of
           None \<Rightarrow> ([ev], k)
         | Some x \<Rightarrow> ([ev\<lparr>ev_kind := EventThinkingDelta, ev_text := x\<rparr>], k))
      else if t = ''tool_call'' \<or> t = ''tool_call_update'' then oc_tool u line k
      else ([ev], k))"

definition oc_notification :: "rpc_message \<Rightarrow> string \<Rightarrow> oc_codec \<Rightarrow> event list \<times> oc_codec" where
  "oc_notification m line k =
     (if rm_method m \<noteq> ''session/update'' then ([harness_event line], k)
      else case unmarshal_struct (rm_params m) \<bind> oc_params_of of
        None \<Rightarrow> ([(client_error (oc_decode_error line))\<lparr>ev_raw := line\<rparr>], k)
      | Some u \<Rightarrow>
          if oc_loads k \<noteq> {} \<or> oc_prompts k = {} then ([harness_event line], k)
          else let (es, k) = oc_apply u line k in
            if oc_started k then (es, k) else (event_of EventStarted # es, k\<lparr>oc_started := True\<rparr>))"

section \<open>Responses and the end of a turn\<close>

definition oc_end_stop :: "rpc_message \<Rightarrow> string \<times> usage option" where
  "oc_end_stop m =
     (if rm_error m \<noteq> None then (''error'', None)
      else case unmarshal_struct (rm_result m) \<bind> oc_prompt_result_of of
        None \<Rightarrow> (''error'', None)
      | Some r \<Rightarrow> (if op_stop_reason r = ''cancelled'' then ''aborted'' else op_stop_reason r, op_usage r))"

definition oc_end_cause :: "rpc_message \<Rightarrow> string \<Rightarrow> event list" where
  "oc_end_cause m stop =
     (if stop = ''aborted'' then [(event_of EventCancelled)\<lparr>ev_stop_reason := stop\<rparr>]
      else case rm_error m of
        Some e \<Rightarrow> [client_error (oc_rpc_err e)]
      | None \<Rightarrow>
          if stop = ''error''
          then [client_error (Msg (''opencode: unreadable prompt result '' @ rm_result m))]
          else [])"

definition oc_end :: "rpc_message \<Rightarrow> string \<Rightarrow> oc_codec \<Rightarrow> event list \<times> oc_codec" where
  "oc_end m line k =
     (let (stop, u) = oc_end_stop m in
      ((if oc_started k then [] else [event_of EventStarted])
       @ [(event_of EventMessageEnd)\<lparr>ev_text := oc_text k, ev_raw := line, ev_stop_reason := stop, ev_usage := u\<rparr>]
       @ oc_end_cause m stop @ [event_of EventEnded],
       k\<lparr>oc_calls := Map.empty, oc_args := Map.empty, oc_called := {}, oc_started := False\<rparr>))"

definition oc_response :: "rpc_message \<Rightarrow> string \<Rightarrow> oc_codec \<Rightarrow> oc_request line_frame \<times> oc_codec" where
  "oc_response m line k =
     (let i = rm_id m;
          f = empty_frame\<lparr>fr_response := Some \<lparr>rp_id = i, rp_err = map_option oc_rpc_err (rm_error m),
                                               rp_data = rm_result m\<rparr>\<rparr>;
          k = k\<lparr>oc_loads := oc_loads k - {i}\<rparr> in
      if i \<notin> oc_prompts k then (f, k)
      else let (es, k) = oc_end m line (k\<lparr>oc_prompts := oc_prompts k - {i}\<rparr>) in (f\<lparr>fr_events := es\<rparr>, k))"

definition oc_decode :: "string \<Rightarrow> oc_codec \<Rightarrow> (err + oc_request line_frame) \<times> oc_codec" where
  "oc_decode line k =
     (case unmarshal_struct line \<bind> rpc_message_of of
        None \<Rightarrow> (Inl (oc_decode_error line), k)
      | Some m \<Rightarrow>
          if rm_method m \<noteq> [] \<and> rm_id m \<noteq> [] then
            (Inr (empty_frame\<lparr>fr_request := Some \<lparr>hq_id = rm_id m,
                    hq_body = \<lparr>oq_method = rm_method m, oq_params = rm_params m\<rparr>\<rparr>\<rparr>), k)
          else if rm_method m \<noteq> [] then
            (let (es, k) = oc_notification m line k in (Inr (empty_frame\<lparr>fr_events := es\<rparr>), k))
          else apfst Inr (oc_response m line k))"

section \<open>One line each\<close>

lemma json_line_map_plain: "json_line (GMap ms) = Inr l \<Longrightarrow> LF \<notin> set l \<and> l \<noteq> [] \<and> last l \<noteq> CHR 0x0D"
  using marshal_object_line(2)[of ms] by (auto simp: json_line_def split: option.splits)

interpretation oc_lines: codec oc_encode "oc_reply :: 'b hrequest \<Rightarrow> oc_answer \<Rightarrow> err + string"
proof
  fix i cmd k l k'
  assume "oc_encode i cmd k = (Inr l, k')"
  then show "LF \<notin> set l \<and> l \<noteq> [] \<and> last l \<noteq> CHR 0x0D"
    unfolding oc_encode_def using json_line_map_plain by (auto split: oc_any.splits if_splits)
next
  fix req :: "'b hrequest" and answer l
  assume "oc_reply req answer = Inr l"
  then show "LF \<notin> set l \<and> l \<noteq> [] \<and> last l \<noteq> CHR 0x0D" unfolding oc_reply_def by (rule json_line_map_plain)
qed

section \<open>Turns\<close>

text \<open>
  The events of turns that follow one another: whether one is open after a list of events, and
  nothing when an event is out of place. EventHarness and EventError may come at any time.
\<close>

fun turn_track :: "bool \<Rightarrow> event list \<Rightarrow> bool option" where
  "turn_track b [] = Some b"
| "turn_track b (e # es) =
     (if ev_kind e = EventStarted then (if b then None else turn_track True es)
      else if ev_kind e = EventEnded then (if b then turn_track False es else None)
      else if ev_kind e = EventHarness \<or> ev_kind e = EventError then turn_track b es
      else if b then turn_track b es else None)"

lemma turn_track_append: "turn_track b (xs @ ys) = turn_track b xs \<bind> (\<lambda>c. turn_track c ys)"
  by (induction xs arbitrary: b) simp_all

definition in_turn :: "event \<Rightarrow> bool" where
  "in_turn e \<longleftrightarrow> ev_kind e \<noteq> EventStarted \<and> ev_kind e \<noteq> EventEnded"

lemma in_turn_track: "list_all in_turn es \<Longrightarrow> turn_track True es = Some True"
  by (induction es) (simp_all add: in_turn_def)

lemma oc_apply_in_turn: "list_all in_turn (fst (oc_apply u line k))"
  by (simp add: oc_apply_def oc_tool_def oc_tool_known_def oc_tool_call_def oc_tool_end_def oc_tool_result_def
      or_harness_def in_turn_def Let_def split_beta split: option.split)

lemma oc_apply_frame [simp]:
  "oc_prompts (snd (oc_apply u line k)) = oc_prompts k" "oc_loads (snd (oc_apply u line k)) = oc_loads k"
  "oc_started (snd (oc_apply u line k)) = oc_started k"
  by (simp_all add: oc_apply_def oc_chunk_def oc_tool_def oc_tool_known_def oc_tool_call_def oc_tool_end_def
      Let_def split_beta split: option.split)

lemma oc_end_track: "turn_track (oc_started k) (fst (oc_end m line k)) = Some False"
  by (simp add: oc_end_def oc_end_cause_def client_error_def Let_def split_beta split: option.split)

text \<open>A run of the codec, with the events it has decoded; one prompt is in flight at a time.\<close>

inductive oc_run :: "oc_codec \<Rightarrow> event list \<Rightarrow> bool" where
  oc_new: "oc_run new_oc_codec []"
| oc_enc: "oc_run k es \<Longrightarrow> mname = ''session/prompt'' \<longrightarrow> oc_prompts k = {} \<Longrightarrow>
    oc_run (snd (oc_encode i (OcCall mname params) k)) es"
| oc_dec: "oc_run k es \<Longrightarrow> oc_decode line k = (r, k') \<Longrightarrow>
    oc_run k' (es @ (case r of Inl e \<Rightarrow> [] | Inr f \<Rightarrow> fr_events f))"

definition oc_inv :: "oc_codec \<Rightarrow> bool" where
  "oc_inv k \<longleftrightarrow> (oc_prompts k = {} \<or> (\<exists>i. oc_prompts k = {i})) \<and> (oc_started k \<longrightarrow> oc_prompts k \<noteq> {})"

lemma oc_inv_cong:
  "oc_inv k \<Longrightarrow> oc_prompts k' = oc_prompts k \<Longrightarrow> oc_started k' = oc_started k \<or> oc_prompts k \<noteq> {} \<Longrightarrow> oc_inv k'"
  by (auto simp: oc_inv_def)

lemma oc_notification_track:
  assumes i: "oc_inv k" and n: "oc_notification m line k = (es, k')"
  shows "oc_inv k' \<and> turn_track (oc_started k) es = Some (oc_started k')"
proof (cases "rm_method m = ''session/update'' \<and> oc_loads k = {} \<and> oc_prompts k \<noteq> {}")
  case True
  show ?thesis
  proof (cases "unmarshal_struct (rm_params m) \<bind> oc_params_of")
    case None
    then show ?thesis using True i n by (auto simp: oc_notification_def client_error_def)
  next
    case (Some u)
    let ?a = "oc_apply u line k"
    have t: "turn_track True (fst ?a) = Some True" by (rule in_turn_track[OF oc_apply_in_turn])
    have e: "(es, k') = (if oc_started k then (fst ?a, snd ?a) else (event_of EventStarted # fst ?a, (snd ?a)\<lparr>oc_started := True\<rparr>))"
      using n True Some by (simp add: oc_notification_def split_beta Let_def split: if_splits)
    show ?thesis
    proof (cases "oc_started k")
      case True
      then have "?a = (es, k')" using e by simp
      then have "es = fst ?a" "k' = snd ?a" by simp_all
      then show ?thesis using True t oc_inv_cong[OF i, of "snd ?a"] by simp
    next
      case False
      then have "es = event_of EventStarted # fst ?a" "k' = (snd ?a)\<lparr>oc_started := True\<rparr>" using e by simp_all
      then show ?thesis using False True t oc_inv_cong[OF i, of "(snd ?a)\<lparr>oc_started := True\<rparr>"]
        \<open>rm_method m = ''session/update'' \<and> oc_loads k = {} \<and> oc_prompts k \<noteq> {}\<close> by simp
    qed
  qed
next
  case False
  then have "es = [harness_event line] \<and> k' = k \<or> es = [(client_error (oc_decode_error line))\<lparr>ev_raw := line\<rparr>] \<and> k' = k"
    using n by (auto simp: oc_notification_def split: if_splits option.splits)
  then show ?thesis using i by (auto simp: client_error_def)
qed

lemma oc_response_track:
  assumes "oc_inv k" "oc_response m line k = (f, k')"
  shows "oc_inv k' \<and> turn_track (oc_started k) (fr_events f) = Some (oc_started k')"
proof (cases "rm_id m \<in> oc_prompts k")
  case True
  then have "oc_prompts k = {rm_id m}" using assms(1) unfolding oc_inv_def by fastforce
  then have p: "oc_prompts k - {rm_id m} = {}" by simp
  let ?k = "k\<lparr>oc_loads := oc_loads k - {rm_id m}, oc_prompts := {}\<rparr>"
  have r: "fr_events f = fst (oc_end m line ?k)" "k' = snd (oc_end m line ?k)"
    using assms(2) True p by (auto simp: oc_response_def Let_def split_beta)
  have "oc_prompts k' = {}" "\<not> oc_started k'" by (simp_all add: r(2) oc_end_def split_beta)
  then show ?thesis using oc_end_track[of ?k m line] r(1) by (simp add: oc_inv_def)
next
  case False
  then have "fr_events f = []" "oc_prompts k' = oc_prompts k" "oc_started k' = oc_started k"
    using assms(2) by (auto simp: oc_response_def empty_frame_def Let_def)
  then show ?thesis using oc_inv_cong[OF assms(1)] by simp
qed

lemma oc_decode_track:
  assumes "oc_inv k" "oc_decode line k = (r, k')"
  shows "oc_inv k' \<and> turn_track (oc_started k) (case r of Inl e \<Rightarrow> [] | Inr f \<Rightarrow> fr_events f) = Some (oc_started k')"
proof (cases "unmarshal_struct line \<bind> rpc_message_of")
  case None
  then show ?thesis using assms by (auto simp: oc_decode_def)
next
  case (Some m)
  consider (request) "rm_method m \<noteq> []" "rm_id m \<noteq> []" | (notify) "rm_method m \<noteq> []" "rm_id m = []" | (response) "rm_method m = []"
    by blast
  then show ?thesis
  proof cases
    case request
    then show ?thesis using assms Some by (auto simp: oc_decode_def empty_frame_def)
  next
    case notify
    then obtain es where "oc_notification m line k = (es, k')" "r = Inr (empty_frame\<lparr>fr_events := es\<rparr>)"
      using assms(2) Some by (auto simp: oc_decode_def split: prod.splits)
    then show ?thesis using oc_notification_track[OF assms(1)] by (simp add: empty_frame_def)
  next
    case response
    then obtain f where "oc_response m line k = (f, k')" "r = Inr f"
      using assms(2) Some by (cases "oc_response m line k") (auto simp: oc_decode_def)
    then show ?thesis using oc_response_track[OF assms(1)] by simp
  qed
qed

lemma oc_encode_inv:
  "oc_inv k \<Longrightarrow> mname = ''session/prompt'' \<longrightarrow> oc_prompts k = {} \<Longrightarrow>
     oc_inv (snd (oc_encode i (OcCall mname params) k))
     \<and> oc_started (snd (oc_encode i (OcCall mname params) k)) = oc_started k"
proof -
  assume i: "oc_inv k" and p: "mname = ''session/prompt'' \<longrightarrow> oc_prompts k = {}"
  have t: "oc_inv (oc_track i mname k) \<and> oc_started (oc_track i mname k) = oc_started k"
  proof (cases "mname = ''session/prompt''")
    case True
    then have "oc_prompts k = {}" "\<not> oc_started k" using p i by (simp_all add: oc_inv_def)
    then show ?thesis using True by (simp add: oc_track_def oc_inv_def)
  next
    case False
    have "oc_prompts (oc_track i mname k) = oc_prompts k" "oc_started (oc_track i mname k) = oc_started k"
      using False by (simp_all add: oc_track_def)
    then show ?thesis using oc_inv_cong[OF i] by simp
  qed
  then show ?thesis using i by (simp add: oc_encode_def)
qed

lemma oc_run_inv: "oc_run k es \<Longrightarrow> oc_inv k \<and> turn_track False es = Some (oc_started k)"
proof (induction rule: oc_run.induct)
  case oc_new
  show ?case by (simp add: oc_inv_def new_oc_codec_def)
next
  case (oc_enc k es mname i params)
  show ?case using oc_encode_inv[OF conjunct1[OF oc_enc.IH] oc_enc.hyps(2), of i params] oc_enc.IH by metis
next
  case (oc_dec k es line r k')
  then show ?case using oc_decode_track[OF conjunct1[OF oc_dec.IH] oc_dec.hyps(2)] by (simp add: turn_track_append)
qed

text \<open>
  C30: A turn's events come in order, whatever OpenCode sends. While one prompt is in flight at a
  time, as the session keeps it, the codec's events are turns that follow one another: each opens
  with EventStarted, ends with EventEnded and holds every other event but EventHarness and
  EventError, none starts inside another, and a turn is open only while its prompt is in flight
  (opencode/codec.go: Encode, Decode, notification, end).
\<close>

theorem oc_turns:
  assumes "oc_run k es"
  shows "turn_track False es = Some (oc_started k) \<and> (oc_started k \<longrightarrow> oc_prompts k \<noteq> {})"
  using oc_run_inv[OF assms] by (simp add: oc_inv_def)

definition oc_example_update :: string where
  \<open>oc_example_update = ''{"jsonrpc":"2.0","method":"session/update","params":{"update":{"sessionUpdate":"agent_message_chunk","content":{"type":"text","text":"hi"}}}}''\<close>

definition oc_example_end :: string where
  \<open>oc_example_end = ''{"jsonrpc":"2.0","id":1,"result":{"stopReason":"end_turn"}}''\<close>

theorem oc_turns_witness:
  "\<exists>k es. oc_run k es \<and> map ev_kind es = [EventStarted, EventTextDelta, EventMessageEnd, EventEnded]
     \<and> turn_track False es = Some (oc_started k)"
proof -
  let ?k1 = "snd (oc_encode ''1'' (OcCall ''session/prompt'' GNull) new_oc_codec)"
  obtain r2 k2 where d2: "oc_decode oc_example_update ?k1 = (r2, k2)" by (cases "oc_decode oc_example_update ?k1")
  obtain r3 k3 where d3: "oc_decode oc_example_end k2 = (r3, k3)" by (cases "oc_decode oc_example_end k2")
  have r: "oc_run k3 (([] @ (case r2 of Inl e \<Rightarrow> [] | Inr f \<Rightarrow> fr_events f)) @ (case r3 of Inl e \<Rightarrow> [] | Inr f \<Rightarrow> fr_events f))"
    by (rule oc_run.oc_dec[OF oc_run.oc_dec[OF oc_run.oc_enc[OF oc_run.oc_new] d2] d3]) (simp add: new_oc_codec_def)
  have "(case oc_decode oc_example_update ?k1 of (r2, k2) \<Rightarrow>
      case oc_decode oc_example_end k2 of (r3, k3) \<Rightarrow>
      map ev_kind ((case r2 of Inl e \<Rightarrow> [] | Inr f \<Rightarrow> fr_events f) @ (case r3 of Inl e \<Rightarrow> [] | Inr f \<Rightarrow> fr_events f))
        = [EventStarted, EventTextDelta, EventMessageEnd, EventEnded])"
    by code_simp
  then have "map ev_kind ((case r2 of Inl e \<Rightarrow> [] | Inr f \<Rightarrow> fr_events f) @ (case r3 of Inl e \<Rightarrow> [] | Inr f \<Rightarrow> fr_events f))
        = [EventStarted, EventTextDelta, EventMessageEnd, EventEnded]" by (simp add: d2 d3)
  then show ?thesis using r oc_turns[OF r] by (intro exI[of _ k3] exI) (auto simp del: turn_track.simps)
qed


section \<open>Structured responses\<close>

lemma oc_apply_structured:
  assumes "ev \<in> set (fst (oc_apply u line k))" "ev_kind ev = EventStructured"
  shows "ou_kind u \<in> {''tool_call'', ''tool_call_update''} \<and> ou_status u = ''completed''
    \<and> oc_output_text (ou_raw_output u) = mcp_accepted
    \<and> is_respond (fst (oc_tool_known u k))
    \<and> ev_structured ev = oc_args_of (snd (oc_tool_known u k)) (ou_tool_call_id u)"
proof -
  have t: "ou_kind u \<in> {''tool_call'', ''tool_call_update''}" "ev \<in> set (fst (oc_tool u line k))"
    using assms by (auto simp: oc_apply_def Let_def split: if_splits option.splits)
  let ?n = "fst (oc_tool_known u k)" and ?k = "snd (oc_tool_known u k)"
  have "ev \<in> set (fst (oc_tool_end ?n u line (snd (oc_tool_call ?n u line ?k))))"
    using t(2) assms(2) by (auto simp: oc_tool_def or_harness_def oc_tool_call_def Let_def split_beta split: if_splits)
  then have e: "ev = oc_tool_result ?n u (oc_args_of (snd (oc_tool_call ?n u line ?k)) (ou_tool_call_id u)) line"
      "ou_status u = ''completed'' \<or> ou_status u = ''failed''"
    by (auto simp: oc_tool_end_def Let_def split: if_splits)
  moreover have "oc_args (snd (oc_tool_call ?n u line ?k)) = oc_args ?k" by (simp add: oc_tool_call_def Let_def)
  ultimately show ?thesis using assms(2) t(1)
    by (simp add: oc_tool_result_def oc_args_of_def Let_def split: if_splits)
qed

text \<open>
  A structured response is one the bridge accepted. When a line's events hold an
  EventStructured, a turn is open with no load in flight, and the line is an update of a call whose
  tool is a respond tool, by the name it was first seen with or else its title; the call has
  completed with the bridge's acceptance as its output, and the response is the arguments it was
  last updated with (opencode/codec.go: notification, tool).
\<close>

theorem oc_structured_accepted:
  assumes "oc_decode line k = (Inr f, k')" "ev \<in> set (fr_events f)" "ev_kind ev = EventStructured"
  shows "oc_prompts k \<noteq> {} \<and> oc_loads k = {} \<and>
    (\<exists>m u. unmarshal_struct line \<bind> rpc_message_of = Some m \<and> rm_method m = ''session/update''
      \<and> unmarshal_struct (rm_params m) \<bind> oc_params_of = Some u
      \<and> ou_kind u \<in> {''tool_call'', ''tool_call_update''} \<and> ou_status u = ''completed''
      \<and> oc_output_text (ou_raw_output u) = ''Accepted.''
      \<and> is_respond (case oc_calls k (ou_tool_call_id u) of Some n \<Rightarrow> n | None \<Rightarrow> oc_tool_name (ou_title u))
      \<and> ev_structured ev = (if ou_raw_input u \<noteq> [] then ou_raw_input u else oc_args_of k (ou_tool_call_id u)))"
proof -
  obtain m where m: "unmarshal_struct line \<bind> rpc_message_of = Some m"
    using assms(1) by (auto simp: oc_decode_def split: option.splits)
  have "rm_method m \<noteq> [] \<and> rm_id m = []"
    using assms m by (auto simp: oc_decode_def oc_response_def oc_end_def oc_end_cause_def client_error_def empty_frame_def
        Let_def split_beta apfst_def map_prod_def split: if_splits option.splits)
  then have n: "fr_events f = fst (oc_notification m line k)"
    using assms(1) m by (auto simp: oc_decode_def empty_frame_def split_beta)
  then obtain u where u: "rm_method m = ''session/update''" "unmarshal_struct (rm_params m) \<bind> oc_params_of = Some u"
      "oc_loads k = {}" "oc_prompts k \<noteq> {}" "ev \<in> set (fst (oc_apply u line k))"
    using assms(2,3) by (auto simp: oc_notification_def client_error_def Let_def split_beta split: if_splits option.splits)
  from oc_apply_structured[OF u(5) assms(3)] show ?thesis using m u
    by (auto simp: oc_tool_known_def oc_args_of_def mcp_accepted_def Let_def)
qed

definition oc_example_prompted :: oc_codec where
  "oc_example_prompted = snd (oc_encode ''1'' (OcCall ''session/prompt'' GNull) new_oc_codec)"

definition oc_example_respond :: string where
  \<open>oc_example_respond = ''{"method":"session/update","params":{"update":{"sessionUpdate":"tool_call","toolCallId":"c","title":"driver_respond_0","status":"completed","rawInput":{"a":1},"rawOutput":"Accepted."}}}''\<close>

theorem oc_structured_accepted_witness:
  "\<exists>f k' ev. oc_decode oc_example_respond oc_example_prompted = (Inr f, k') \<and> ev \<in> set (fr_events f)
     \<and> ev_kind ev = EventStructured \<and> oc_prompts oc_example_prompted \<noteq> {}"
proof -
  have "(case oc_decode oc_example_respond oc_example_prompted of
           (Inr f, k') \<Rightarrow> list_ex (\<lambda>ev. ev_kind ev = EventStructured) (fr_events f) | (Inl e, k') \<Rightarrow> False)"
    by code_simp
  then obtain f k' ev where d: "oc_decode oc_example_respond oc_example_prompted = (Inr f, k')"
      "ev \<in> set (fr_events f)" "ev_kind ev = EventStructured"
    by (auto simp: list_ex_iff split: prod.splits sum.splits)
  from oc_structured_accepted[OF d] show ?thesis using d by blast
qed

end
