(* ===== verification/Filestores.thy ===== *)
theory Filestores
  imports Workflow_State Stdio Json_Encode "HOL-Library.Monad_Syntax" "HOL-Library.Sublist"
begin

text \<open>
  The two stores kept in files: a run's events (workflow/filestore) and a session's records
  (harness/filestore). A store is the contents of its files by name. What the operating system
  answers is an argument, also a write that fails part of the way. An event is marshalled by its
  caller, whose answer is an argument, and decoded by a function that is one: what
  encoding/json makes of the fields of an event is theirs. The Seq a store reads for itself is
  read with the JSON of this library. The store's lock makes each operation one step.
\<close>

section \<open>Files\<close>

definition file_ext :: string where
  "file_ext = ''.jsonl''"

text \<open>filepath.IsLocal of a name without a separator, on Unix.\<close>

definition is_local :: "string \<Rightarrow> bool" where
  "is_local name \<longleftrightarrow> name \<noteq> [] \<and> name \<noteq> ''..''"

definition file_name :: "string \<Rightarrow> string \<Rightarrow> err + string" where
  "file_name what i =
     (if i = [] \<or> CHR ''/'' \<in> set i \<or> CHR 0x5C \<in> set i \<or> \<not> is_local (i @ file_ext)
      then Inl (Msg (''filestore: invalid '' @ what @ '' ID '' @ quote i))
      else Inr (i @ file_ext))"

definition run_path :: "string \<Rightarrow> err + string" where
  "run_path rid = file_name ''run'' rid"

definition session_path :: "string \<Rightarrow> err + string" where
  "session_path sid = file_name ''session'' sid"

text \<open>
  A bufio.Scanner with a bound, over a whole file: its lines, each with whether it is the last and
  has no newline, and whether it stopped at a line that doesn't fit the bound.
\<close>

definition drop_cr :: "string \<Rightarrow> string" where
  "drop_cr l = (if l \<noteq> [] \<and> last l = CHR 0x0D then butlast l else l)"

lemma rest_shorter: "s \<noteq> [] \<Longrightarrow> length (dropWhile P s) - Suc 0 < length s"
  using length_dropWhile_le[of P s] length_greater_0_conv[of s] by linarith

function scan_tokens :: "nat \<Rightarrow> string \<Rightarrow> (string \<times> bool) list \<times> bool" where
  "scan_tokens bound s =
     (if s = [] then ([], False)
      else let l = takeWhile (\<lambda>c. c \<noteq> LF) s; rest = dropWhile (\<lambda>c. c \<noteq> LF) s in
        if bound \<le> length l then ([], True)
        else let (ts, long) = scan_tokens bound (drop 1 rest) in ((drop_cr l, rest = []) # ts, long))"
  by pat_completeness auto
termination
  by (relation "measure (\<lambda>(bound, s). length s)") (auto simp: rest_shorter)

definition ErrTooLong :: err where
  "ErrTooLong = Sentinel ''bufio.Scanner: token too long''"

definition fs_fail :: "err \<Rightarrow> err" where
  "fs_fail e = wrap ''filestore'' e"

definition line_error :: "string \<Rightarrow> nat \<Rightarrow> err" where
  "line_error path n = wrap (''filestore: '' @ path @ '' line '' @ nat_text n) json_err"

section \<open>Runs\<close>

text \<open>\<open>opened\<close> is the error that opening or reading the file ends in.\<close>

definition max_event :: nat where
  "max_event = 16 * 2 ^ 20"

definition ErrSequence :: err where
  "ErrSequence = Sentinel ''filestore: event out of sequence''"

text \<open>Events' loop: an undecodable line is an error, and the end of the log when it is torn.\<close>

fun read_events ::
  "(string \<Rightarrow> wevent option) \<Rightarrow> nat \<Rightarrow> string \<Rightarrow> nat \<Rightarrow> (string \<times> bool) list \<Rightarrow> err + wevent list" where
  "read_events dec past path n [] = Inr []"
| "read_events dec past path n ((tok, unended) # ts) =
     (case dec tok of
        None \<Rightarrow> if unended then Inr [] else Inl (line_error path n)
      | Some e \<Rightarrow>
          map_sum id (\<lambda>es. if we_seq e > past then e # es else es) (read_events dec past path (n + 1) ts))"

definition fs_events ::
  "(string \<Rightarrow> wevent option) \<Rightarrow> err option \<Rightarrow> string \<Rightarrow> nat \<Rightarrow> (string \<rightharpoonup> string) \<Rightarrow> err + wevent list" where
  "fs_events dec opened rid past files =
     (case run_path rid of
        Inl e \<Rightarrow> Inr []
      | Inr path \<Rightarrow>
          (case files path of
             None \<Rightarrow> Inr []
           | Some s \<Rightarrow>
               (case opened of
                  Some e \<Rightarrow> Inl (fs_fail e)
                | None \<Rightarrow>
                    let (ts, long) = scan_tokens max_event s in
                    (case read_events dec past path 1 ts of
                       Inl e \<Rightarrow> Inl e
                     | Inr es \<Rightarrow> if long then Inl (fs_fail ErrTooLong) else Inr es))))"

text \<open>Runs, over the entries of the directory: names, and whether each is a directory.\<close>

definition fs_runs :: "(string \<times> bool) list \<Rightarrow> string list" where
  "fs_runs entries =
     map (\<lambda>ent. trim_suffix (fst ent) file_ext)
       (filter (\<lambda>ent. \<not> snd ent \<and> has_suffix (fst ent) file_ext) entries)"

section \<open>The last line\<close>

definition last_newline :: "string \<Rightarrow> nat option" where
  "last_newline s =
     (if LF \<in> set s then Some (length s - 1 - length (takeWhile (\<lambda>c. c \<noteq> LF) (rev s))) else None)"

definition chunk_size :: nat where
  "chunk_size = 4096"

text \<open>lastLine's loop, backwards in chunks from \<open>pos\<close>: where the line starts.\<close>

function last_start :: "string \<Rightarrow> nat \<Rightarrow> nat" where
  "last_start s pos =
     (if pos = 0 then 0
      else let start = pos - chunk_size; chunk = take (pos - start) (drop start s) in
        (case last_newline chunk of
           Some i \<Rightarrow> start + i + 1
         | None \<Rightarrow> last_start s start))"
  by pat_completeness auto
termination by (relation "measure snd") (auto simp: chunk_size_def)

declare last_start.simps [simp del]
declare scan_tokens.simps [simp del]

definition last_line :: "string \<Rightarrow> nat \<Rightarrow> nat \<times> string" where
  "last_line s pos = (let start = last_start s pos in (start, take (pos - start) (drop start s)))"

definition line_seq :: "string \<Rightarrow> int option" where
  "line_seq line = unmarshal_struct line \<bind> int_field ''seq''"

definition read_seq :: "string \<Rightarrow> nat \<times> string \<Rightarrow> err + int" where
  "read_seq path = (\<lambda>(start, line).
     case line_seq line of
       None \<Rightarrow> Inl (wrap (path @ '': last event at byte '' @ nat_text start) json_err)
     | Some n \<Rightarrow> Inr n)"

text \<open>
  tail: the last event's Seq, after the repair of a last line without its newline. \<open>reads\<close>,
  \<open>repairs\<close> and \<open>rereads\<close> are the errors that reading, repairing and reading again after a cut
  end in.
\<close>

definition fs_tail :: "err option \<Rightarrow> err option \<Rightarrow> err option \<Rightarrow> string \<Rightarrow> string \<Rightarrow> (err + int) \<times> string" where
  "fs_tail reads repairs rereads path s =
     (case reads of
        Some e \<Rightarrow> (Inl e, s)
      | None \<Rightarrow>
          if s = [] then (Inr 0, s)
          else if last s = LF then (read_seq path (last_line s (length s - 1)), s)
          else let (start, line) = last_line s (length s) in
            (case repairs of
               Some e \<Rightarrow> (Inl e, s)
             | None \<Rightarrow>
                 if json_valid line then (read_seq path (start, line), s @ [LF])
                 else if start = 0 then (Inr 0, [])
                 else (case rereads of
                         Some e \<Rightarrow> Inl e
                       | None \<Rightarrow> read_seq path (last_line (take start s) (start - 1)), take start s)))"

section \<open>Append\<close>

text \<open>What the operating system answers: \<open>io_write\<close> is how many bytes a failed write wrote.\<close>

record fs_io =
  io_mkdir :: "err option"
  io_open :: "err option"
  io_read :: "err option"
  io_repair :: "err option"
  io_reread :: "err option"
  io_write :: "(nat \<times> err) option"
  io_sync :: "err option"
  io_close :: "err option"
  io_dir :: "err option"

definition io_fine :: fs_io where
  "io_fine =
     \<lparr>io_mkdir = None, io_open = None, io_read = None, io_repair = None, io_reread = None, io_write = None, io_sync = None,
      io_close = None, io_dir = None\<rparr>"

definition sequence_error :: "wevent \<Rightarrow> int \<Rightarrow> err" where
  "sequence_error e seq =
     Errorf (err_text ErrSequence @ '': run '' @ we_run_id e @ '': event '' @ nat_text (we_seq e)
       @ '' after event '' @ int_text seq) [ErrSequence]"

text \<open>The open file, from tail to Close: its error and contents.\<close>

definition fs_write :: "fs_io \<Rightarrow> wevent \<Rightarrow> string \<Rightarrow> string \<Rightarrow> string \<Rightarrow> err option \<times> string" where
  "fs_write io e line path s =
     (case fs_tail (io_read io) (io_repair io) (io_reread io) path s of
        (Inl er, s) \<Rightarrow> (Some er, s)
      | (Inr seq, s) \<Rightarrow>
          if int (we_seq e) \<noteq> seq + 1 then (Some (sequence_error e seq), s)
          else case io_write io of
            Some (n, er) \<Rightarrow> (Some er, s @ take n (line @ [LF]))
          | None \<Rightarrow>
              (case io_sync io of
                 Some er \<Rightarrow> Some er
               | None \<Rightarrow>
                   (case io_close io of
                      Some er \<Rightarrow> Some er
                    | None \<Rightarrow> if seq = 0 then io_dir io else None), s @ line @ [LF]))"

definition fs_append ::
  "fs_io \<Rightarrow> err + string \<Rightarrow> wevent \<Rightarrow> (string \<rightharpoonup> string) \<Rightarrow> (string \<rightharpoonup> string) \<times> err option" where
  "fs_append io marshalled e files =
     (case run_path (we_run_id e) of
        Inl er \<Rightarrow> (files, Some er)
      | Inr path \<Rightarrow>
          (case marshalled of
             Inl er \<Rightarrow> (files, Some (fs_fail er))
           | Inr line \<Rightarrow>
               (case (io_mkdir io, io_open io) of
                  (Some er, _) \<Rightarrow> (files, Some (fs_fail er))
                | (None, Some er) \<Rightarrow> (files, Some (fs_fail er))
                | (None, None) \<Rightarrow>
                    let (failed, s) = fs_write io e line path (case files path of None \<Rightarrow> [] | Some s \<Rightarrow> s) in
                    (files(path \<mapsto> s), map_option fs_fail failed))))"

section \<open>Records\<close>

definition max_record :: nat where
  "max_record = 16 * 2 ^ 20"

definition rec_put ::
  "fs_io \<Rightarrow> err + string \<Rightarrow> string \<Rightarrow> (string \<rightharpoonup> string) \<Rightarrow> (string \<rightharpoonup> string) \<times> err option" where
  "rec_put io marshalled sid files =
     (case session_path sid of
        Inl er \<Rightarrow> (files, Some er)
      | Inr path \<Rightarrow>
          (case marshalled of
             Inl er \<Rightarrow> (files, Some (fs_fail er))
           | Inr line \<Rightarrow>
               (case (io_mkdir io, io_open io) of
                  (Some er, _) \<Rightarrow> (files, Some (fs_fail er))
                | (None, Some er) \<Rightarrow> (files, Some (fs_fail er))
                | (None, None) \<Rightarrow>
                    let s = (case files path of None \<Rightarrow> [] | Some s \<Rightarrow> s) in
                    (case io_write io of
                       Some (n, er) \<Rightarrow> (files(path \<mapsto> s @ take n (line @ [LF])), Some (fs_fail er))
                     | None \<Rightarrow> (files(path \<mapsto> s @ line @ [LF]), map_option fs_fail (io_close io))))))"

fun read_records :: "(string \<Rightarrow> 'r option) \<Rightarrow> string \<Rightarrow> nat \<Rightarrow> (string \<times> bool) list \<Rightarrow> err + 'r list" where
  "read_records dec path n [] = Inr []"
| "read_records dec path n ((tok, unended) # ts) =
     (case dec tok of
        None \<Rightarrow> Inl (line_error path n)
      | Some r \<Rightarrow> map_sum id ((#) r) (read_records dec path (n + 1) ts))"

definition rec_records :: "(string \<Rightarrow> 'r option) \<Rightarrow> err option \<Rightarrow> string \<Rightarrow> (string \<rightharpoonup> string) \<Rightarrow> err + 'r list" where
  "rec_records dec opened sid files =
     (case session_path sid of
        Inl e \<Rightarrow> Inl e
      | Inr path \<Rightarrow>
          (case files path of
             None \<Rightarrow> Inr []
           | Some s \<Rightarrow>
               (case opened of
                  Some e \<Rightarrow> Inl (fs_fail e)
                | None \<Rightarrow>
                    let (ts, long) = scan_tokens max_record s in
                    (case read_records dec path 1 ts of
                       Inl e \<Rightarrow> Inl e
                     | Inr rs \<Rightarrow> if long then Inl (fs_fail ErrTooLong) else Inr rs))))"

section \<open>Scanning lines\<close>

abbreviation CR :: char where
  "CR \<equiv> CHR 0x0D"

abbreviation lines :: "string list \<Rightarrow> string" where
  "lines ls \<equiv> concat (map write_line ls)"

definition fits :: "nat \<Rightarrow> string \<Rightarrow> bool" where
  "fits bound l \<longleftrightarrow> l \<noteq> [] \<and> LF \<notin> set l \<and> CR \<notin> set l \<and> length l < bound"

lemma fits_split:
  assumes "LF \<notin> set l"
  shows "takeWhile (\<lambda>c. c \<noteq> LF) (l @ LF # s) = l" "dropWhile (\<lambda>c. c \<noteq> LF) (l @ LF # s) = LF # s"
    "takeWhile (\<lambda>c. c \<noteq> LF) l = l" "dropWhile (\<lambda>c. c \<noteq> LF) l = []"
  using assms by (auto simp: takeWhile_append dropWhile_append takeWhile_eq_all_conv dropWhile_eq_Nil_conv)

lemma fits_cr: "fits bound l \<Longrightarrow> drop_cr l = l"
  by (auto simp: fits_def drop_cr_def dest: last_in_set)

lemma scan_tokens_line:
  "fits bound l \<Longrightarrow> scan_tokens bound (write_line l @ s) = apfst ((#) (l, False)) (scan_tokens bound s)"
  using fits_cr[of bound l]
  by (subst scan_tokens.simps) (simp add: fits_def write_line_def fits_split Let_def split_beta apfst_def map_prod_def)

lemma scan_tokens_end: "fits bound t \<Longrightarrow> scan_tokens bound t = ([(t, True)], False)"
  using fits_cr[of bound t]
  by (subst scan_tokens.simps) (simp add: fits_def fits_split Let_def scan_tokens.simps[of bound "[]"])

lemma scan_tokens_lines:
  "list_all (fits bound) ls \<Longrightarrow>
     scan_tokens bound (lines ls @ s) = apfst ((@) (map (\<lambda>l. (l, False)) ls)) (scan_tokens bound s)"
  by (induction ls) (simp_all add: scan_tokens_line apfst_def map_prod_def split_beta)

section \<open>The last line\<close>

text \<open>Where the last line of a text starts.\<close>

definition line_start :: "string \<Rightarrow> nat" where
  "line_start s = length (dropWhile (\<lambda>c. c \<noteq> LF) (rev s))"

lemma line_start_append: "LF \<notin> set t \<Longrightarrow> line_start (s @ t) = line_start s"
  by (simp add: line_start_def dropWhile_append)

lemma line_start_newline [simp]: "line_start (s @ [LF]) = Suc (length s)" "line_start [] = 0"
  by (simp_all add: line_start_def)

lemma line_start_in: "LF \<in> set t \<Longrightarrow> line_start (s @ t) = length s + line_start t"
  by (auto simp: line_start_def dropWhile_append)

lemma last_newline_start: "last_newline s = (if LF \<in> set s then Some (line_start s - 1) else None)"
proof -
  have "length (takeWhile (\<lambda>c. c \<noteq> LF) (rev s)) + line_start s = length s"
    unfolding line_start_def by (metis length_append length_rev takeWhile_dropWhile_id)
  then have "length s - 1 - length (takeWhile (\<lambda>c. c \<noteq> LF) (rev s)) = line_start s - 1" by linarith
  then show ?thesis by (simp only: last_newline_def)
qed

lemma line_start_pos: "LF \<in> set s \<Longrightarrow> 0 < line_start s"
  by (auto simp: line_start_def dropWhile_eq_Nil_conv)

lemma last_start_correct: "pos \<le> length s \<Longrightarrow> last_start s pos = line_start (take pos s)"
proof (induction s pos rule: last_start.induct)
  case (1 s pos)
  show ?case
  proof (cases "pos = 0")
    case True
    then show ?thesis by (simp add: last_start.simps)
  next
    case False
    let ?start = "pos - chunk_size" let ?chunk = "take (pos - ?start) (drop ?start s)"
    have split: "take pos s = take ?start s @ ?chunk"
      by (metis diff_le_self le_add_diff_inverse take_add)
    have len: "length (take ?start s) = ?start" using "1.prems" by simp
    show ?thesis
    proof (cases "LF \<in> set ?chunk")
      case True
      then have "last_start s pos = ?start + (line_start ?chunk - 1) + 1"
        using False by (subst last_start.simps) (simp add: last_newline_start Let_def)
      then show ?thesis unfolding split line_start_in[OF True] len using line_start_pos[OF True] by simp
    next
      case no: False
      have "last_start s pos = last_start s ?start"
        using False no by (subst last_start.simps) (simp add: last_newline_start Let_def)
      also have "\<dots> = line_start (take ?start s)"
        using "1.IH"[OF False refl refl] no "1.prems" by (simp add: last_newline_start)
      finally show ?thesis unfolding split line_start_append[OF no] .
    qed
  qed
qed

lemma lines_snoc: "lines (ls @ [l]) = (lines ls @ l) @ [LF]"
  by (simp add: write_line_def)

lemma line_start_lines: "line_start (lines ls) = length (lines ls)"
proof (cases ls rule: rev_cases)
  case (snoc ls l)
  show ?thesis unfolding snoc lines_snoc line_start_newline by simp
qed simp

lemma last_line_lines:
  assumes "LF \<notin> set l"
  shows "last_line (lines ls @ l @ r) (length (lines ls @ l)) = (length (lines ls), l)"
proof -
  have "last_start (lines ls @ l @ r) (length (lines ls @ l)) = line_start (lines ls @ l)"
    by (subst last_start_correct) simp_all
  also have "\<dots> = length (lines ls)" using assms by (simp add: line_start_append line_start_lines)
  finally show ?thesis by (simp add: last_line_def)
qed


section \<open>A log in a file\<close>

text \<open>
  A line an event is written as, with what the store relies on: it decodes to the event, also for
  the Seq read alone, it is one JSON text on one line that fits the bound, and no part of it cut
  short is JSON or decodes.
\<close>

definition event_line :: "(string \<Rightarrow> wevent option) \<Rightarrow> wevent \<Rightarrow> string \<Rightarrow> bool" where
  "event_line dec e l \<longleftrightarrow>
     dec l = Some e \<and> line_seq l = Some (int (we_seq e)) \<and> json_valid l \<and> fits max_event l
     \<and> list_all (\<lambda>n. \<not> json_valid (take n l) \<and> dec (take n l) = None) [0..<length l]"

definition torn :: "(string \<Rightarrow> wevent option) \<Rightarrow> string \<Rightarrow> bool" where
  "torn dec t \<longleftrightarrow>
     fits max_event t \<and> list_all (\<lambda>n. \<not> json_valid (take n t) \<and> dec (take n t) = None) [0..<Suc (length t)]"

lemma torn_end: "torn dec t \<Longrightarrow> \<not> json_valid t \<and> dec t = None"
  unfolding torn_def list_all_iff by (auto dest: bspec[of _ _ "length t"])

lemma torn_take: "torn dec t \<Longrightarrow> 0 < k \<Longrightarrow> torn dec (take k t)"
  using in_set_takeD[of _ k t] by (auto simp: torn_def fits_def list_all_iff min_def)

text \<open>A file that holds a log: whole lines, perhaps the last without its newline, or a torn line after them.\<close>

definition fs_ok :: "(string \<Rightarrow> wevent option) \<Rightarrow> wevent list \<Rightarrow> string \<Rightarrow> bool" where
  "fs_ok dec es s \<longleftrightarrow>
     (\<exists>ls. list_all2 (event_line dec) es ls
        \<and> (s = lines ls \<or> s @ [LF] = lines ls \<or> (\<exists>t. torn dec t \<and> s = lines ls @ t)))"

lemma event_line_fits: "event_line dec e l \<Longrightarrow> fits max_event l"
  by (simp add: event_line_def)

lemma event_lines_fit: "list_all2 (event_line dec) es ls \<Longrightarrow> list_all (fits max_event) ls"
  by (induction rule: list_all2_induct) (simp_all add: event_line_fits)

lemma read_events_lines:
  "list_all2 (event_line dec) es ls \<Longrightarrow>
     read_events dec past path n (map (\<lambda>l. (l, False)) ls @ ts)
       = map_sum id ((@) (filter (\<lambda>e. we_seq e > past) es)) (read_events dec past path (n + length ls) ts)"
proof (induction arbitrary: n rule: list_all2_induct)
  case Nil
  show ?case by (cases "read_events dec past path n ts") simp_all
next
  case (Cons e es l ls)
  have "dec l = Some e" using Cons.hyps by (simp add: event_line_def)
  then show ?case using Cons.IH[of "n + 1"]
    by (cases "read_events dec past path (n + Suc (length ls)) ts") simp_all
qed

lemma list_all2_snoc:
  "list_all2 P xs (ys @ [y]) \<longleftrightarrow> (\<exists>xs' x. xs = xs' @ [x] \<and> list_all2 P xs' ys \<and> P x y)"
proof
  assume "list_all2 P xs (ys @ [y])"
  then show "\<exists>xs' x. xs = xs' @ [x] \<and> list_all2 P xs' ys \<and> P x y"
    by (auto simp: list_all2_append2 list_all2_Cons2)
qed (auto intro: list_all2_appendI)

lemma unended_lines: "s @ [LF] = lines ls \<Longrightarrow> \<exists>ls' l. ls = ls' @ [l] \<and> s = lines ls' @ l"
  by (cases ls rule: rev_cases) (auto simp: write_line_def)

lemma fs_events_ok:
  assumes ok: "fs_ok dec es s" and p: "run_path rid = Inr path" and f: "files path = Some s"
  shows "fs_events dec None rid past files = Inr (filter (\<lambda>e. we_seq e > past) es)"
proof -
  obtain ls where ls: "list_all2 (event_line dec) es ls"
      "s = lines ls \<or> s @ [LF] = lines ls \<or> (\<exists>t. torn dec t \<and> s = lines ls @ t)"
    using ok by (auto simp: fs_ok_def)
  note fit = event_lines_fit[OF ls(1)]
  have r0: "read_events dec past path 1 (map (\<lambda>l. (l, False)) ls) = Inr (filter (\<lambda>e. we_seq e > past) es)"
    using read_events_lines[OF ls(1), of past path 1 "[]"] by simp
  consider (whole) "s = lines ls" | (unended) "s @ [LF] = lines ls" | (torn) t where "torn dec t" "s = lines ls @ t"
    using ls(2) by blast
  then show ?thesis
  proof cases
    case whole
    then have "scan_tokens max_event s = (map (\<lambda>l. (l, False)) ls, False)"
      using scan_tokens_lines[OF fit, of "[]"] by (simp add: scan_tokens.simps[of max_event "[]"])
    then show ?thesis using p f r0 by (simp add: fs_events_def)
  next
    case unended
    then obtain ls' l where l: "ls = ls' @ [l]" "s = lines ls' @ l" using unended_lines by blast
    then obtain es' e where e: "es = es' @ [e]" "list_all2 (event_line dec) es' ls'" "event_line dec e l"
      using ls(1) by (auto simp: list_all2_snoc)
    have "scan_tokens max_event s = (map (\<lambda>l. (l, False)) ls' @ [(l, True)], False)"
      unfolding l(2) scan_tokens_lines[OF event_lines_fit[OF e(2)]] scan_tokens_end[OF event_line_fits[OF e(3)]] by simp
    moreover have "dec l = Some e" using e(3) by (simp add: event_line_def)
    ultimately show ?thesis using p f e(1) read_events_lines[OF e(2), of past path 1 "[(l, True)]"]
      by (simp add: fs_events_def)
  next
    case torn
    have "scan_tokens max_event s = (map (\<lambda>l. (l, False)) ls @ [(t, True)], False)"
      unfolding torn(2) scan_tokens_lines[OF fit] using torn(1) by (simp add: scan_tokens_end torn_def)
    moreover have "dec t = None" using torn_end[OF torn(1)] by simp
    ultimately show ?thesis using p f read_events_lines[OF ls(1), of past path 1 "[(t, True)]"]
      by (simp add: fs_events_def)
  qed
qed

lemma fs_ok_lines: "list_all2 (event_line dec) es ls \<Longrightarrow> fs_ok dec es (lines ls)"
  by (auto simp: fs_ok_def)

lemma read_seq_last:
  assumes n: "map we_seq es = [1..<Suc (length es)]" and ls: "list_all2 (event_line dec) es ls" and e: "ls = ls' @ [l]"
  shows "read_seq path (k, l) = Inr (int (length es))"
proof -
  obtain es' ev where ev: "es = es' @ [ev]" "event_line dec ev l" using ls e by (auto simp: list_all2_snoc)
  have "we_seq ev = length es" using n ev(1) by simp
  then show ?thesis using ev(2) by (simp add: read_seq_def event_line_def)
qed

lemma fs_tail_torn:
  assumes "reads' = None" "s = L @ t" "last s \<noteq> LF" "s \<noteq> []" "last_line s (length s) = (length L, t)" "\<not> json_valid t"
  shows "fs_tail reads' repairs rereads path s =
    (case repairs of
       Some e \<Rightarrow> (Inl e, s)
     | None \<Rightarrow>
         if L = [] then (Inr 0, [])
         else (case rereads of
             Some e \<Rightarrow> Inl e
           | None \<Rightarrow> read_seq path (last_line L (length L - 1)), L))"
proof -
  have "take (length L) s = L" using assms(2) by simp
  then show ?thesis using assms(1,3-6) by (simp add: fs_tail_def split: option.split)
qed

lemma fs_tail_ok:
  assumes ok: "fs_ok dec es s" and n: "map we_seq es = [1..<Suc (length es)]"
  shows "\<exists>ls. list_all2 (event_line dec) es ls
    \<and> (case fs_tail reads' repairs rereads path s of
         (Inl er, s') \<Rightarrow> (s' = s \<or> s' = lines ls) \<and> (reads' \<noteq> None \<or> repairs \<noteq> None \<or> rereads \<noteq> None)
       | (Inr k, s') \<Rightarrow> k = int (length es) \<and> s' = lines ls)"
proof (cases reads')
  case (Some e)
  then show ?thesis using ok by (auto simp: fs_ok_def fs_tail_def)
next
  case None
  obtain ls where ls: "list_all2 (event_line dec) es ls"
      "s = lines ls \<or> s @ [LF] = lines ls \<or> (\<exists>t. torn dec t \<and> s = lines ls @ t)"
    using ok by (auto simp: fs_ok_def)
  have len: "length es = length ls" using ls(1) by (rule list_all2_lengthD)
  consider (empty) "s = []" "ls = []"
    | (whole) ls' l where "ls = ls' @ [l]" "s = lines ls' @ l @ [LF]"
    | (unended) ls' l where "ls = ls' @ [l]" "s = lines ls' @ l"
    | (torn) t where "torn dec t" "s = lines ls @ t"
  proof (cases ls rule: rev_cases)
    case Nil
    then show ?thesis using ls(2) that by auto
  next
    case (snoc ls' l)
    then show ?thesis using ls(2) that(2)[OF snoc] that(3)[OF snoc] that(4) unended_lines by (auto simp: write_line_def)
  qed
  then show ?thesis
  proof cases
    case empty
    then show ?thesis using ls(1) None len by (intro exI[of _ "[]"]) (simp add: fs_tail_def)
  next
    case whole
    then have "LF \<notin> set l" using event_lines_fit[OF ls(1)] by (simp add: fits_def)
    then have "last_line s (length s - 1) = (length (lines ls'), l)"
      using last_line_lines[of l ls' "[LF]"] whole(2) by simp
    then have "fs_tail reads' repairs rereads path s = (Inr (int (length es)), lines ls)"
      using None whole read_seq_last[OF n ls(1) whole(1)] by (simp add: fs_tail_def write_line_def)
    then show ?thesis using ls(1) by (intro exI[of _ ls]) simp
  next
    case unended
    then have fl: "fits max_event l" and v: "json_valid l"
      using ls(1) by (auto simp: list_all2_snoc event_line_def)
    then have l: "l \<noteq> []" "LF \<notin> set l" by (simp_all add: fits_def)
    have "last l \<noteq> LF" using l last_in_set by metis
    then have "last s \<noteq> LF" "s \<noteq> []" using unended(2) l(1) by simp_all
    moreover have "last_line s (length s) = (length (lines ls'), l)"
      using last_line_lines[OF l(2), of ls' "[]"] unended(2) by simp
    moreover have "lines ls = s @ [LF]" using unended by (simp add: write_line_def)
    ultimately have "fs_tail reads' repairs rereads path s =
        (case repairs of Some e \<Rightarrow> (Inl e, s) | None \<Rightarrow> (Inr (int (length es)), lines ls))"
      using None v read_seq_last[OF n ls(1) unended(1)] by (simp add: fs_tail_def split: option.split)
    then show ?thesis using ls(1) by (intro exI[of _ ls]) (simp split: option.split)
  next
    case torn
    then have t: "t \<noteq> []" "LF \<notin> set t" "\<not> json_valid t" using torn(1) torn_end[OF torn(1)] by (simp_all add: torn_def fits_def)
    have "last t \<noteq> LF" using t last_in_set by metis
    then have ends: "last s \<noteq> LF" "s \<noteq> []" using torn(2) t(1) by simp_all
    have last: "last_line s (length s) = (length (lines ls), t)"
      using last_line_lines[OF t(2), of ls "[]"] torn(2) by simp
    note f = fs_tail_torn[OF None torn(2) ends last t(3)]
    show ?thesis
    proof (cases ls rule: rev_cases)
      case Nil
      then show ?thesis using f ls(1) len by (intro exI[of _ "[]"]) (simp split: option.split)
    next
      case (snoc ls' l)
      then have "LF \<notin> set l" using event_lines_fit[OF ls(1)] by (simp add: fits_def)
      then have last: "last_line (lines ls) (length (lines ls) - 1) = (length (lines ls'), l)"
        using last_line_lines[of l ls' "[LF]"] unfolding snoc lines_snoc by simp
      have ne: "lines ls \<noteq> []" unfolding snoc lines_snoc by simp
      show ?thesis unfolding f if_not_P[OF ne] last read_seq_last[OF n ls(1) snoc]
        using ls(1) by (intro exI[of _ ls]) (simp split: option.split)
    qed
  qed
qed


section \<open>Crashes and appends\<close>

lemma fs_ok_write:
  assumes ls: "list_all2 (event_line dec) es ls" and l: "event_line dec e l"
  shows "fs_ok dec (if k < length l then es else es @ [e]) (lines ls @ take k (l @ [LF]))"
proof -
  have all: "list_all2 (event_line dec) (es @ [e]) (ls @ [l])" using ls l by (simp add: list_all2_appendI)
  have f: "fits max_event l" using l by (simp add: event_line_def)
  consider "k = 0" | "0 < k" "k < length l" | "k = length l" | "length l < k" by linarith
  then show ?thesis
  proof cases
    case 1
    then show ?thesis using fs_ok_lines[OF ls] f by (simp add: fits_def)
  next
    case 2
    have "torn dec (take k l)"
      using 2 l in_set_takeD[of _ k l] by (auto simp: torn_def event_line_def fits_def list_all_iff min_def)
    then show ?thesis using 2 ls by (auto simp: fs_ok_def)
  next
    case 3
    then have "lines ls @ take k (l @ [LF]) = lines ls @ l" "(lines ls @ l) @ [LF] = lines (ls @ [l])"
      by (simp_all add: write_line_def)
    then show ?thesis using 3 all unfolding fs_ok_def by (metis less_irrefl)
  next
    case 4
    then show ?thesis using fs_ok_lines[OF all] by (simp add: write_line_def)
  qed
qed

text \<open>A prefix of a file that holds a log holds the log's first events.\<close>

lemma fs_ok_lines_prefix:
  "list_all2 (event_line dec) es ls \<Longrightarrow> \<exists>m \<le> length es. fs_ok dec (take m es) (take k (lines ls))"
proof (induction ls arbitrary: es rule: rev_induct)
  case Nil
  then show ?case using fs_ok_lines[of dec "[]" "[]"] by auto
next
  case (snoc l ls)
  then obtain es' e where e: "es = es' @ [e]" "list_all2 (event_line dec) es' ls" "event_line dec e l"
    by (auto simp: list_all2_snoc)
  show ?case
  proof (cases "k \<le> length (lines ls)")
    case True
    obtain m where "m \<le> length es'" "fs_ok dec (take m es') (take k (lines ls))" using snoc.IH[OF e(2)] by blast
    then show ?thesis using True e(1) unfolding lines_snoc by (intro exI[of _ m]) simp
  next
    case False
    let ?j = "k - length (lines ls)"
    have t: "take k (lines (ls @ [l])) = lines ls @ take ?j (l @ [LF])"
      using False unfolding lines_snoc by (simp add: write_line_def)
    show ?thesis
    proof (cases "?j < length l")
      case True
      then show ?thesis using fs_ok_write[OF e(2,3), of ?j] e(1) unfolding t
        by (intro exI[of _ "length es'"]) simp
    next
      case False
      then show ?thesis using fs_ok_write[OF e(2,3), of ?j] e(1) unfolding t
        by (intro exI[of _ "length es"]) simp
    qed
  qed
qed

lemma fs_ok_prefix: "fs_ok dec es s \<Longrightarrow> \<exists>m \<le> length es. fs_ok dec (take m es) (take k s)"
proof -
  assume ok: "fs_ok dec es s"
  then obtain ls where ls: "list_all2 (event_line dec) es ls"
      "s = lines ls \<or> s @ [LF] = lines ls \<or> (\<exists>t. torn dec t \<and> s = lines ls @ t)"
    by (auto simp: fs_ok_def)
  show ?thesis
  proof (cases "k \<ge> length s")
    case True
    then show ?thesis using ok by (intro exI[of _ "length es"]) simp
  next
    case False
    consider "take k s = take k (lines ls)" | t where "torn dec t" "s = lines ls @ t" "length (lines ls) < k"
    proof -
      have "take k s = take k (lines ls)" if "s @ [LF] = lines ls" using False unfolding that[symmetric] by simp
      moreover have "take k s = take k (lines ls)" if "s = lines ls @ t" "k \<le> length (lines ls)" for t
        using that by simp
      ultimately show ?thesis using ls(2) that not_le by metis
    qed
    then show ?thesis
    proof cases
      case 1
      then show ?thesis using fs_ok_lines_prefix[OF ls(1), of k] by simp
    next
      case 2
      then have "take k s = lines ls @ take (k - length (lines ls)) t" "torn dec (take (k - length (lines ls)) t)"
        by (simp_all add: torn_take)
      then show ?thesis using ls(1) unfolding fs_ok_def by (intro exI[of _ "length es"]) auto
    qed
  qed
qed


definition fs_file :: "(string \<rightharpoonup> string) \<Rightarrow> string \<Rightarrow> string" where
  "fs_file files path = (case files path of None \<Rightarrow> [] | Some s \<Rightarrow> s)"

text \<open>A run's log: events numbered from one, that a file holds.\<close>

definition fs_log :: "(string \<Rightarrow> wevent option) \<Rightarrow> wevent list \<Rightarrow> string \<Rightarrow> bool" where
  "fs_log dec es s \<longleftrightarrow> fs_ok dec es s \<and> map we_seq es = [1..<Suc (length es)]"

lemma fs_log_empty [simp]: "fs_log dec [] []"
  using fs_ok_lines[of dec "[]" "[]"] by (simp add: fs_log_def)

lemma fs_log_all: "fs_log dec es s \<Longrightarrow> filter (\<lambda>e. we_seq e > 0) es = es"
proof -
  assume "fs_log dec es s"
  then have "set (map we_seq es) = {1..<Suc (length es)}" by (simp only: fs_log_def set_upt)
  then have "\<forall>n \<in> we_seq ` set es. 0 < n" by auto
  then show ?thesis by (simp add: filter_id_conv)
qed

text \<open>The log keeps its events whatever fails, and takes the new one or not.\<close>

lemma fs_write_log:
  assumes log: "fs_log dec es s" and l: "event_line dec e line" and w: "fs_write io e line path s = (failed, s')"
  shows "\<exists>es'. fs_log dec es' s' \<and> (es' = es \<and> failed \<noteq> None \<or> es' = es @ [e] \<and> we_seq e = Suc (length es))"
proof -
  have ok: "fs_ok dec es s" and n: "map we_seq es = [1..<Suc (length es)]" using log by (simp_all add: fs_log_def)
  obtain ls where ls: "list_all2 (event_line dec) es ls" and
    t: "case fs_tail (io_read io) (io_repair io) (io_reread io) path s of
         (Inl er, s') \<Rightarrow> (s' = s \<or> s' = lines ls) \<and> (io_read io \<noteq> None \<or> io_repair io \<noteq> None \<or> io_reread io \<noteq> None)
       | (Inr k, s') \<Rightarrow> k = int (length es) \<and> s' = lines ls"
    using fs_tail_ok[OF ok n, where reads' = "io_read io" and repairs = "io_repair io" and rereads = "io_reread io" and path = path]
    by (elim exE conjE) (rule that)
  have whole: "fs_log dec es (lines ls)" using fs_ok_lines[OF ls] n by (simp add: fs_log_def)
  have more: "fs_log dec (es @ [e]) s2" if "fs_ok dec (es @ [e]) s2" "we_seq e = Suc (length es)" for s2
    using that n by (simp add: fs_log_def)
  obtain r s1 where r: "fs_tail (io_read io) (io_repair io) (io_reread io) path s = (r, s1)" by fastforce
  show ?thesis
  proof (cases r)
    case (Inl er)
    then have "failed = Some er" "s' = s \<or> s' = lines ls" using t r w by (auto simp: fs_write_def)
    then show ?thesis using log whole by (intro exI[of _ es]) auto
  next
    case (Inr k)
    then have k: "k = int (length es)" "s1 = lines ls" using t r by auto
    show ?thesis
    proof (cases "we_seq e = Suc (length es)")
      case False
      then have "failed \<noteq> None" "s' = lines ls" using w r Inr k by (auto simp: fs_write_def)
      then show ?thesis using whole by (intro exI[of _ es]) simp
    next
      case seq: True
      show ?thesis
      proof (cases "io_write io")
        case None
        then have "s' = lines ls @ take (Suc (length line)) (line @ [LF])"
          using w r Inr k seq by (simp add: fs_write_def)
        then have "fs_ok dec (es @ [e]) s'" using fs_ok_write[OF ls l, of "Suc (length line)"] by simp
        then show ?thesis using more seq by blast
      next
        case (Some bad)
        obtain m er where bad: "bad = (m, er)" by fastforce
        then have "s' = lines ls @ take m (line @ [LF])" "failed \<noteq> None"
          using Some w r Inr k seq by (auto simp: fs_write_def)
        then show ?thesis using fs_ok_write[OF ls l, of m] more seq n
          by (cases "m < length line") (auto simp: fs_log_def)
      qed
    qed
  qed
qed

lemma fs_append_log:
  assumes p: "run_path (we_run_id e) = Inr path" and log: "fs_log dec es (fs_file files path)" and l: "event_line dec e line"
    and a: "fs_append io (Inr line) e files = (files', failed)"
  shows "\<exists>es'. fs_log dec es' (fs_file files' path)
    \<and> (es' = es \<and> failed \<noteq> None \<or> es' = es @ [e] \<and> we_seq e = Suc (length es))"
proof (cases "io_mkdir io = None \<and> io_open io = None")
  case True
  obtain w s' where w: "fs_write io e line path (fs_file files path) = (w, s')" by fastforce
  then have "files' = files(path \<mapsto> s')" "failed = map_option fs_fail w"
    using a p True by (auto simp: fs_append_def fs_file_def)
  then show ?thesis using fs_write_log[OF log l w] by (simp add: fs_file_def[of "files(path \<mapsto> s')"])
next
  case False
  then have "files' = files" "failed \<noteq> None" using a p by (auto simp: fs_append_def split: option.splits)
  then show ?thesis using log by (intro exI[of _ es]) simp
qed

lemma fs_ok_empty: "fs_ok dec es [] \<Longrightarrow> es = []"
proof -
  assume "fs_ok dec es []"
  then obtain ls where ls: "list_all2 (event_line dec) es ls" "lines ls = [] \<or> lines ls = [LF]"
    by (auto simp: fs_ok_def)
  show ?thesis
  proof (cases ls rule: rev_cases)
    case (snoc ls' l)
    then have "l \<noteq> []" using event_lines_fit[OF ls(1)] by (simp add: fits_def)
    then have "1 < length (lines ls)" unfolding snoc lines_snoc by (cases l) (simp_all del: length_concat concat_eq_Nil_conv)
    then show ?thesis using ls(2) by (elim disjE) simp_all
  qed (use ls(1) in simp)
qed

lemma fs_events_log:
  assumes p: "run_path rid = Inr path" and log: "fs_log dec es (fs_file files path)"
  shows "fs_events dec None rid 0 files = Inr es"
proof (cases "files path")
  case None
  have "fs_ok dec es []" using log None by (simp add: fs_log_def fs_file_def)
  then have "es = []" by (rule fs_ok_empty)
  then show ?thesis using p None by (simp add: fs_events_def)
next
  case (Some s)
  then have ok: "fs_ok dec es s" using log by (simp add: fs_log_def fs_file_def)
  show ?thesis using fs_events_ok[where files = files, OF ok p Some, of 0] fs_log_all[OF log] by simp
qed

lemma fs_log_prefix: "fs_log dec es s \<Longrightarrow> \<exists>m \<le> length es. fs_log dec (take m es) (take k s)"
proof -
  assume log: "fs_log dec es s"
  then obtain m where m: "m \<le> length es" "fs_ok dec (take m es) (take k s)" using fs_ok_prefix[of dec es s k] unfolding fs_log_def by blast
  moreover have "map we_seq (take m es) = [1..<Suc (length (take m es))]"
    using log m(1) unfolding fs_log_def take_map[symmetric] by (simp add: min_absorb2 del: upt_Suc)
  ultimately show ?thesis unfolding fs_log_def by blast
qed

lemma fs_write_fine:
  assumes log: "fs_log dec es s" and seq: "we_seq e = Suc (length es)"
  shows "\<exists>s'. fs_write io_fine e line path s = (None, s')"
proof -
  have "fs_ok dec es s" "map we_seq es = [1..<Suc (length es)]" using log by (simp_all add: fs_log_def)
  from fs_tail_ok[OF this, where reads' = None and repairs = None and rereads = None and path = path] obtain s' where
    "fs_tail None None None path s = (Inr (int (length es)), s')"
    by (cases "fs_tail None None None path s"; cases "fst (fs_tail None None None path s)") auto
  then show ?thesis using seq by (simp add: fs_write_def io_fine_def)
qed

text \<open>Attempts at appending, and the events of those that reported no error.\<close>

fun fs_attempts ::
  "(fs_io \<times> wevent \<times> string) list \<Rightarrow> (string \<rightharpoonup> string) \<Rightarrow> (string \<rightharpoonup> string) \<times> wevent list" where
  "fs_attempts [] files = (files, [])"
| "fs_attempts ((io, e, line) # as) files =
     (let (files, failed) = fs_append io (Inr line) e files; (files, acked) = fs_attempts as files in
       (files, if failed = None then e # acked else acked))"

lemma fs_attempts_log:
  assumes "run_path rid = Inr path" "fs_log dec es (fs_file files path)"
    "list_all (\<lambda>(io, e, line). we_run_id e = rid \<and> event_line dec e line) as"
    "fs_attempts as files = (files', acked)"
  shows "\<exists>more. fs_log dec (es @ more) (fs_file files' path) \<and> subseq acked more \<and> set more \<subseteq> (fst \<circ> snd) ` set as"
  using assms(2-4)
proof (induction as arbitrary: es files acked)
  case Nil
  then show ?case by (intro exI[of _ "[]"]) simp
next
  case (Cons a as)
  obtain io e line where a: "a = (io, e, line)" by (cases a)
  obtain files1 failed where f1: "fs_append io (Inr line) e files = (files1, failed)" by fastforce
  obtain files2 acked2 where f2: "fs_attempts as files1 = (files2, acked2)" by fastforce
  have r: "files' = files2" "acked = (if failed = None then e # acked2 else acked2)"
    using Cons.prems(3) unfolding a by (simp_all add: f1 f2)
  have e: "run_path (we_run_id e) = Inr path" "event_line dec e line" "list_all (\<lambda>(io, e, line). we_run_id e = rid \<and> event_line dec e line) as"
    using Cons.prems(2) assms(1) unfolding a by simp_all
  obtain es' where es': "fs_log dec es' (fs_file files1 path)"
      "es' = es \<and> failed \<noteq> None \<or> es' = es @ [e] \<and> we_seq e = Suc (length es)"
    using fs_append_log[OF e(1) Cons.prems(1) e(2) f1] by blast
  obtain more where more: "fs_log dec (es' @ more) (fs_file files2 path)" "subseq acked2 more" "set more \<subseteq> (fst \<circ> snd) ` set as"
    using Cons.IH[OF es'(1) e(3) f2[folded r(1)]] unfolding r(1) by blast
  from es'(2) show ?case
  proof (elim disjE conjE)
    assume "es' = es" "failed \<noteq> None"
    then show ?thesis using more r unfolding a by (intro exI[of _ more]) auto
  next
    assume "es' = es @ [e]"
    then show ?thesis using more r unfolding a by (intro exI[of _ "e # more"]) auto
  qed
qed


section \<open>Records in a file\<close>

definition record_line :: "(string \<Rightarrow> 'r option) \<Rightarrow> 'r \<times> string \<Rightarrow> bool" where
  "record_line dec rl \<longleftrightarrow> dec (snd rl) = Some (fst rl) \<and> fits max_record (snd rl)"

lemma read_records_lines:
  "list_all (record_line dec) rls \<Longrightarrow>
     read_records dec path n (map (\<lambda>rl. (snd rl, False)) rls @ ts)
       = map_sum id ((@) (map fst rls)) (read_records dec path (n + length rls) ts)"
proof (induction rls arbitrary: n)
  case Nil
  show ?case by (cases "read_records dec path n ts") simp_all
next
  case (Cons rl rls)
  then show ?case using Cons.IH[of "n + 1"]
    by (cases "read_records dec path (n + Suc (length rls)) ts") (simp_all add: record_line_def)
qed

lemma record_lines_fit: "list_all (record_line dec) rls \<Longrightarrow> list_all (fits max_record) (map snd rls)"
  by (simp add: record_line_def list_all_iff)

lemma scan_records:
  "list_all (record_line dec) rls \<Longrightarrow>
     scan_tokens max_record (lines (map snd rls) @ s) = apfst ((@) (map (\<lambda>rl. (snd rl, False)) rls)) (scan_tokens max_record s)"
  using scan_tokens_lines[OF record_lines_fit, of dec rls s] by (simp add: comp_def)

text \<open>Puts of one session's records, each of which succeeds.\<close>

fun rec_puts :: "string \<Rightarrow> ('r \<times> string) list \<Rightarrow> (string \<rightharpoonup> string) \<Rightarrow> (string \<rightharpoonup> string)" where
  "rec_puts sid [] files = files"
| "rec_puts sid ((r, line) # rls) files = rec_puts sid rls (fst (rec_put io_fine (Inr line) sid files))"

lemma rec_put_fine:
  "session_path sid = Inr path \<Longrightarrow> rec_put io_fine (Inr line) sid files = (files(path \<mapsto> fs_file files path @ write_line line), None)"
  by (simp add: rec_put_def io_fine_def fs_file_def write_line_def)

lemma rec_puts_file:
  "session_path sid = Inr path \<Longrightarrow> fs_file (rec_puts sid rls files) path = fs_file files path @ lines (map snd rls)"
  by (induction sid rls files rule: rec_puts.induct) (simp_all add: rec_put_fine, simp add: fs_file_def)

lemma rec_records_lines:
  assumes "session_path sid = Inr path" "fs_file files path = lines (map snd rls)" "list_all (record_line dec) rls"
  shows "rec_records dec None sid files = Inr (map fst rls)"
proof (cases "files path")
  case None
  then have "lines (map snd rls) = []" using assms(2) by (simp add: fs_file_def)
  then have "rls = []" by (cases rls) (simp_all add: write_line_def)
  then show ?thesis using assms(1) None by (simp add: rec_records_def)
next
  case (Some s)
  then show ?thesis
    using assms(1,2) scan_records[OF assms(3), of "[]"] read_records_lines[OF assms(3), of path 1 "[]"]
    by (simp add: rec_records_def fs_file_def scan_tokens.simps[of max_record "[]"])
qed

text \<open>
  A Put that wrote a part of its line leaves the session's records unreadable, also after the
  next Put: nothing repairs a torn line, which the next record joins.
\<close>

lemma rec_torn_unreadable:
  assumes p: "session_path sid = Inr path" and f: "files path = Some (lines (map snd rls) @ t @ write_line l)"
    and r: "list_all (record_line dec) rls" and t: "fits max_record (t @ l)" "dec (t @ l) = None"
  shows "rec_records dec None sid files = Inl (line_error path (Suc (length rls)))"
proof -
  have "scan_tokens max_record (t @ write_line l) = ([(t @ l, False)], False)"
    using scan_tokens_line[OF t(1), of "[]"] by (simp add: write_line_def scan_tokens.simps[of max_record "[]"])
  then show ?thesis using p f t(2) scan_records[OF r, of "t @ write_line l"] read_records_lines[OF r, of path 1 "[(t @ l, False)]"]
    by (simp add: rec_records_def)
qed

text \<open>Append takes an event whose line Events can't scan: nothing bounds a line on its way in.\<close>

lemma fs_append_long:
  assumes p: "run_path (we_run_id e) = Inr path" "files path = None" and e: "we_seq e = 1"
    and l: "LF \<notin> set line" "max_event \<le> length line"
  shows "\<exists>files'. fs_append io_fine (Inr line) e files = (files', None)
    \<and> fs_events dec None (we_run_id e) past files' = Inl (fs_fail ErrTooLong)"
proof -
  have "line \<noteq> []" using l(2) by (auto simp: max_event_def)
  then have "scan_tokens max_event (line @ [LF]) = ([], True)"
    using l by (subst scan_tokens.simps) (simp add: fits_split)
  then show ?thesis using p e by (simp add: fs_append_def io_fine_def fs_write_def fs_tail_def fs_events_def)
qed

section \<open>Properties\<close>

text \<open>
  LastLine's loop, which reads backwards in chunks of 4096 bytes, ends for every position in
  the file, at the start of the line that ends there: after the last newline before it.
\<close>
theorem last_start_last_line:
  "pos \<le> length s \<Longrightarrow> last_start s pos = length (dropWhile (\<lambda>c. c \<noteq> LF) (rev (take pos s)))"
  by (simp add: last_start_correct line_start_def)

definition long_text :: string where
  "long_text = ''ab'' @ [LF] @ replicate 5000 CHR ''x''"

lemma long_tail: "x \<noteq> LF \<Longrightarrow> dropWhile (\<lambda>c. c \<noteq> LF) (replicate n x @ LF # s) = LF # s"
  by (subst dropWhile_append2) auto

theorem last_start_last_line_witness: "last_start long_text 5003 = 3"
  using last_start_last_line[of 5003 long_text] unfolding long_text_def by (simp add: long_tail)


text \<open>
  C32: a crash that leaves any prefix of a log's file loses only events at its end, and the run
  goes on: Events returns the first m events, and the next one, numbered m + 1, is appended and
  read back.
\<close>
theorem fs_crash_recovers:
  assumes "run_path rid = Inr path" "files path = None"
    "list_all (\<lambda>(io, e, line). we_run_id e = rid \<and> event_line dec e line) as"
    "fs_attempts as files = (files', acked)" "fs_events dec None rid 0 files' = Inr es"
    "kept = files'(path \<mapsto> take k (fs_file files' path))"
  shows "\<exists>m \<le> length es. fs_events dec None rid 0 kept = Inr (take m es)
    \<and> (\<forall>e line. we_run_id e = rid \<and> we_seq e = Suc m \<and> event_line dec e line \<longrightarrow>
         (\<exists>files'. fs_append io_fine (Inr line) e kept = (files', None)
            \<and> fs_events dec None rid 0 files' = Inr (take m es @ [e])))"
proof -
  have "fs_log dec [] (fs_file files path)" using assms(2) by (simp add: fs_file_def)
  from fs_attempts_log[OF assms(1) this assms(3,4)] obtain es' where "fs_log dec es' (fs_file files' path)"
    by auto
  moreover from this have "es' = es" using fs_events_log[OF assms(1)] assms(5) by fastforce
  ultimately obtain m where m: "m \<le> length es" "fs_log dec (take m es) (fs_file kept path)"
    using fs_log_prefix[of dec es "fs_file files' path" k] assms(6) by (auto simp: fs_file_def)
  show ?thesis
  proof (intro exI[of _ m] conjI allI impI)
    fix e line assume e: "we_run_id e = rid \<and> we_seq e = Suc m \<and> event_line dec e line"
    then have path: "run_path (we_run_id e) = Inr path" using assms(1) by simp
    obtain s' where w: "fs_write io_fine e line path (fs_file kept path) = (None, s')"
      using fs_write_fine[OF m(2), of e line path] m(1) e by fastforce
    have "fs_append io_fine (Inr line) e kept = (kept(path \<mapsto> s'), None)"
      using path w by (simp add: fs_append_def io_fine_def fs_file_def)
    moreover from fs_write_log[OF m(2) _ w] e m(1) have "fs_log dec (take m es @ [e]) (fs_file (kept(path \<mapsto> s')) path)"
      by (auto simp: fs_file_def)
    ultimately show "\<exists>files'. fs_append io_fine (Inr line) e kept = (files', None)
        \<and> fs_events dec None rid 0 files' = Inr (take m es @ [e])"
      using fs_events_log[OF assms(1)] by blast
  qed (use m fs_events_log[OF assms(1) m(2)] in simp_all)
qed

text \<open>An example: a write that stops after five bytes, then two events, the second's Sync failing.\<close>

definition one_event :: "nat \<Rightarrow> wevent" where
  "one_event n = (wevent_of KindRunResumed)\<lparr>we_run_id := ''r'', we_seq := n\<rparr>"

definition one_line :: "nat \<Rightarrow> string" where
  "one_line n = ''{'' @ quote ''seq'' @ '':'' @ nat_text n @ ''}''"

definition ex_dec :: "string \<Rightarrow> wevent option" where
  "ex_dec l = (if l = one_line 1 then Some (one_event 1) else if l = one_line 2 then Some (one_event 2) else None)"

definition ex_attempts :: "(fs_io \<times> wevent \<times> string) list" where
  "ex_attempts =
     [(io_fine\<lparr>io_write := Some (5, Msg ''no space left on device'')\<rparr>, one_event 1, one_line 1),
      (io_fine, one_event 1, one_line 1),
      (io_fine\<lparr>io_sync := Some (Msg ''input/output error'')\<rparr>, one_event 2, one_line 2)]"

lemma ex_lines: "event_line ex_dec (one_event 1) (one_line 1)" "event_line ex_dec (one_event 2) (one_line 2)"
proof -
  have c: "one_line 1 = ''{\"seq\":1}''" "one_line 2 = ''{\"seq\":2}''" by code_simp+
  have v: "json_valid (one_line 1)" "line_seq (one_line 1) = Some 1" "json_valid (one_line 2)" "line_seq (one_line 2) = Some 2"
    "list_all (\<lambda>n. \<not> json_valid (take n (one_line 1)) \<and> ex_dec (take n (one_line 1)) = None) [0..<length (one_line 1)]"
    "list_all (\<lambda>n. \<not> json_valid (take n (one_line 2)) \<and> ex_dec (take n (one_line 2)) = None) [0..<length (one_line 2)]"
    by code_simp+
  have f: "fits max_event (one_line 1)" "fits max_event (one_line 2)"
    unfolding c fits_def max_event_def by simp_all
  show "event_line ex_dec (one_event 1) (one_line 1)" "event_line ex_dec (one_event 2) (one_line 2)"
    using v f c by (simp_all add: event_line_def ex_dec_def one_event_def)
qed

lemma ex_path: "run_path ''r'' = Inr ''r.jsonl''"
  by code_simp

lemma ex_attempts_ok: "list_all (\<lambda>(io, e, line). we_run_id e = ''r'' \<and> event_line ex_dec e line) ex_attempts"
  using ex_lines by (simp add: ex_attempts_def one_event_def)

lemma ex_acked: "snd (fs_attempts ex_attempts Map.empty) = [one_event 1]"
  by code_simp


theorem fs_crash_recovers_witness:
  "\<exists>files' es m. snd (fs_attempts ex_attempts Map.empty) = [one_event 1] \<and> m \<le> length es
     \<and> fs_events ex_dec None ''r'' 0 (files'(''r.jsonl'' \<mapsto> take 12 (fs_file files' ''r.jsonl''))) = Inr (take m es)"
proof -
  obtain files' where a: "fs_attempts ex_attempts Map.empty = (files', [one_event 1])"
    using ex_acked by (cases "fs_attempts ex_attempts Map.empty") simp
  have log: "fs_log ex_dec [] (fs_file Map.empty ''r.jsonl'')" by (simp add: fs_file_def)
  obtain es where es: "fs_events ex_dec None ''r'' 0 files' = Inr es"
    using fs_attempts_log[OF ex_path log ex_attempts_ok a] fs_events_log[OF ex_path] by fastforce
  show ?thesis using fs_crash_recovers[OF ex_path _ ex_attempts_ok a es refl, of 12] ex_acked by auto
qed

text \<open>
  What Put wrote, Records reads: after any Puts of a session's records to a fresh file,
  Records returns them, each once and in order.
\<close>
theorem rec_roundtrip:
  assumes "session_path sid = Inr path" "files path = None" "list_all (record_line dec) rls"
  shows "rec_records dec None sid (rec_puts sid rls files) = Inr (map fst rls)"
  using assms rec_puts_file[OF assms(1), of rls files] by (intro rec_records_lines) (simp_all add: fs_file_def)

theorem rec_roundtrip_witness:
  "rec_records ex_dec None ''s'' (rec_puts ''s'' [(one_event 1, one_line 1), (one_event 2, one_line 2)] Map.empty)
     = Inr [one_event 1, one_event 2]"
proof -
  have p: "session_path ''s'' = Inr ''s.jsonl''" by code_simp
  have "list_all (record_line ex_dec) [(one_event 1, one_line 1), (one_event 2, one_line 2)]"
    using ex_lines by (simp add: record_line_def event_line_def max_record_def max_event_def)
  from rec_roundtrip[OF p _ this] show ?thesis by simp
qed

end
