(* ===== verification/Sha256.thy ===== *)
theory Sha256
  imports Prelude "HOL-Library.Word"
begin

text \<open>
  crypto/sha256.Sum256, on a list of bytes: FIPS 180-4. The names of the bridge's respond tools are
  drawn from it.
\<close>

unbundle bit_operations_syntax

type_synonym w32 = "32 word"

text \<open>
  The constants are the first 32 bits of the fractional parts of roots of the first primes: the
  square roots of 8 for the initial hash, the cube roots of 64 for the rounds.
\<close>

fun int_root :: "nat \<Rightarrow> int \<Rightarrow> nat \<Rightarrow> int \<Rightarrow> int" where
  "int_root k n 0 r = r"
| "int_root k n (Suc b) r = int_root k n b (if (r + 2 ^ b) ^ k \<le> n then r + 2 ^ b else r)"

definition primes_to :: "int \<Rightarrow> int list" where
  "primes_to n = filter (\<lambda>p. list_all (\<lambda>d. p mod d \<noteq> 0) [2..p - 1]) [2..n]"

definition root_bits :: "nat \<Rightarrow> int \<Rightarrow> w32" where
  "root_bits k p = of_int (int_root k (p * 2 ^ (32 * k)) 36 0)"

definition sha_k :: "w32 list" where
  "sha_k = map (root_bits 3) (primes_to 311)"

definition sha_init :: "w32 list" where
  "sha_init = map (root_bits 2) (primes_to 19)"

lemma int_root_bounds:
  "0 \<le> r \<Longrightarrow> r ^ k \<le> n \<Longrightarrow> n < (r + 2 ^ b) ^ k \<Longrightarrow> int_root k n b r ^ k \<le> n \<and> n < (int_root k n b r + 1) ^ k"
  by (induction b arbitrary: r) (auto simp: add.assoc)

definition rotr :: "nat \<Rightarrow> w32 \<Rightarrow> w32" where
  "rotr n x = drop_bit n x OR push_bit (32 - n) x"

text \<open>The message's bytes, padded to blocks of 64.\<close>

definition sha_pad :: "nat list \<Rightarrow> nat list" where
  "sha_pad bs =
     (let n = length bs in
      bs @ [0x80] @ replicate ((119 - n mod 64) mod 64) 0 @ map (\<lambda>i. 8 * n div 256 ^ i mod 256) (rev [0..<8]))"

fun sha_words :: "nat list \<Rightarrow> w32 list" where
  "sha_words (a # b # c # d # bs) = of_nat (a * 2 ^ 24 + b * 2 ^ 16 + c * 2 ^ 8 + d) # sha_words bs"
| "sha_words bs = []"

text \<open>The schedule keeps its last sixteen words, the newest first.\<close>

definition sha_next :: "w32 list \<Rightarrow> w32" where
  "sha_next ws =
     (let a = ws ! 1; b = ws ! 14 in
      (rotr 17 a XOR rotr 19 a XOR drop_bit 10 a) + ws ! 6
      + (rotr 7 b XOR rotr 18 b XOR drop_bit 3 b) + ws ! 15)"

fun sha_schedule :: "nat \<Rightarrow> w32 list \<Rightarrow> w32 list" where
  "sha_schedule 0 ws = rev ws"
| "sha_schedule (Suc n) ws = sha_schedule n (sha_next ws # ws)"

fun sha_round :: "w32 list \<Rightarrow> w32 \<times> w32 \<Rightarrow> w32 list" where
  "sha_round [a, b, c, d, e, f, g, h] (k, w) =
     (let t1 = h + (rotr 6 e XOR rotr 11 e XOR rotr 25 e) + ((e AND f) XOR (NOT e AND g)) + k + w;
          t2 = (rotr 2 a XOR rotr 13 a XOR rotr 22 a) + ((a AND b) XOR (a AND c) XOR (b AND c)) in
      [t1 + t2, a, b, c, d + t1, e, f, g])"
| "sha_round hs kw = hs"

fun sha_blocks :: "nat \<Rightarrow> w32 list \<Rightarrow> w32 list \<Rightarrow> w32 list" where
  "sha_blocks 0 hs ws = hs"
| "sha_blocks (Suc n) hs ws =
     sha_blocks n (map2 (+) hs (foldl sha_round hs (zip sha_k (sha_schedule 48 (rev (take 16 ws)))))) (drop 16 ws)"

definition sha_bytes :: "w32 \<Rightarrow> nat list" where
  "sha_bytes x = map (\<lambda>i. unat x div 256 ^ i mod 256) (rev [0..<4])"

definition sha256 :: "nat list \<Rightarrow> nat list" where
  "sha256 bs = (let p = sha_pad bs in concat (map sha_bytes (sha_blocks (length p div 64) sha_init (sha_words p))))"

text \<open>hex.EncodeToString.\<close>

definition hex_text :: "nat list \<Rightarrow> string" where
  "hex_text bs = concat (map (hex_of 2) bs)"

lemma sha_bytes_length [simp]: "length (sha_bytes x) = 4"
  by (simp add: sha_bytes_def)

end
