(* ===== verification/Mcp_Bridge.thy ===== *)
theory Mcp_Bridge
  imports Adapters Sha256
begin

text \<open>
  The MCP server of a session (mcpbridge/server.go): its tools, the respond tool that the schema of
  a structured response installs, and the wait for the harness to list the tools again. The go-sdk
  servers it registers tools with and the jsonschema-go compiler and validator are parameters. The
  mutex makes each critical section one step; a tools/list request is two, its arrival and its
  answer, and WaitListed is its loop.
\<close>

section \<open>Parameters\<close>

text \<open>
  A go-sdk server of type \<open>'v\<close>: NewServer, AddTool and RemoveTools, and what a listing answers by
  name, a tool's description and input schema.
\<close>

record 'v sdk =
  sdk_new :: "string \<Rightarrow> 'v"
  sdk_add :: "string \<Rightarrow> string \<Rightarrow> string \<Rightarrow> 'v \<Rightarrow> 'v"
  sdk_remove :: "string \<Rightarrow> 'v \<Rightarrow> 'v"
  sdk_offers :: "'v \<Rightarrow> string \<Rightarrow> (string \<times> string) option"

text \<open>What go-sdk documents: AddTool adds a tool or replaces the one of its name, RemoveTools removes by name.\<close>

definition sdk_ok :: "'v sdk \<Rightarrow> bool" where
  "sdk_ok sdk \<longleftrightarrow>
     (\<forall>name. sdk_offers sdk (sdk_new sdk name) = (\<lambda>_. None))
     \<and> (\<forall>n d s v. sdk_offers sdk (sdk_add sdk n d s v) = (sdk_offers sdk v)(n \<mapsto> (d, s)))
     \<and> (\<forall>n v. sdk_offers sdk (sdk_remove sdk n v) = (sdk_offers sdk v)(n := None))"

text \<open>
  jsonschema-go: \<open>js\<close> reads and resolves a schema, \<open>check\<close> validates a JSON text.
\<close>

definition compile :: "(string \<Rightarrow> err + 'r) \<Rightarrow> string \<Rightarrow> err + 'r" where
  "compile js schema =
     (case validate_schema schema of
        Some e \<Rightarrow> Inl e
      | None \<Rightarrow>
          (case js schema of
             Inl e \<Rightarrow> Inl (Errorf (err_text ErrInvalidSchema @ '': '' @ err_text e) [ErrInvalidSchema, e])
           | Inr r \<Rightarrow> Inr r))"

definition validate_args :: "('r \<Rightarrow> string \<Rightarrow> err option) \<Rightarrow> 'r \<Rightarrow> string \<Rightarrow> err option" where
  "validate_args check r args =
     (if json_valid args then check r args else Some (wrap ''the arguments aren't JSON'' json_err))"

section \<open>The server\<close>

definition reserved :: string where
  "reserved = ''respond''"

definition default_name :: string where
  "default_name = ''driver''"

definition empty_schema :: string where
  "empty_schema = ''{\"type\":\"object\",\"properties\":{}}''"

definition respond_description :: string where
  "respond_description =
     ''Give your final answer by calling this tool exactly once, with the answer as its ''
     @ ''arguments. The arguments must match this tool's input schema. If the call is rejected, ''
     @ ''correct the arguments as the error says and call it again.''"

definition respond_name :: "string \<Rightarrow> string" where
  "respond_name schema =
     (let b = (case json_compact schema of Some c \<Rightarrow> c | None \<Rightarrow> schema) in
      respond_prefix @ hex_text (take 4 (sha256 (map of_char b))))"

text \<open>
  \<open>mb_answered\<close> counts the times the channel \<open>listed\<close> was closed and replaced, so it names the
  channel in place.
\<close>

record ('r, 'v) mcp_bridge =
  mb_name :: string
  mb_tools :: "(tool \<times> 'r) list"
  mb_schema :: string
  mb_resolved :: "'r option"
  mb_respond :: string
  mb_servers :: "(nat \<times> 'v) list"
  mb_gen :: nat
  mb_listed_gen :: nat
  mb_started :: nat
  mb_answered :: nat

fun new_tools :: "(string \<Rightarrow> err + 'r) \<Rightarrow> string list \<Rightarrow> tool list \<Rightarrow> err + (tool \<times> 'r) list" where
  "new_tools js seen [] = Inr []"
| "new_tools js seen (t # ts) =
     (case tool_validate t of
        Some e \<Rightarrow> Inl (wrap ''mcpbridge'' e)
      | None \<Rightarrow>
          if has_prefix (tl_name t) reserved
          then Inl (Msg (''mcpbridge: tool '' @ quote (tl_name t) @ '': names beginning '' @ quote reserved @ '' are the bridge's own''))
          else if tl_name t \<in> set seen then Inl (Msg (''mcpbridge: two tools are named '' @ quote (tl_name t)))
          else let t = (if tl_schema t = [] then t\<lparr>tl_schema := empty_schema\<rparr> else t) in
            (case compile js (tl_schema t) of
               Inl e \<Rightarrow> Inl (wrap (''mcpbridge: tool '' @ quote (tl_name t)) e)
             | Inr r \<Rightarrow> map_sum id ((#) (t, r)) (new_tools js (tl_name t # seen) ts)))"

definition new_mcp :: "(string \<Rightarrow> err + 'r) \<Rightarrow> tool list \<Rightarrow> string \<Rightarrow> err + ('r, 'v) mcp_bridge" where
  "new_mcp js tools name =
     map_sum id
       (\<lambda>ts. \<lparr>mb_name = if name = [] then default_name else name, mb_tools = ts, mb_schema = [], mb_resolved = None,
              mb_respond = [], mb_servers = [], mb_gen = 0, mb_listed_gen = 0, mb_started = 0, mb_answered = 0\<rparr>)
       (new_tools js [] tools)"

definition install_respond :: "'v sdk \<Rightarrow> string \<Rightarrow> string \<Rightarrow> 'v \<Rightarrow> 'v" where
  "install_respond sdk respond schema v =
     (if respond = [] then v else sdk_add sdk respond respond_description schema v)"

definition set_schema ::
  "'v sdk \<Rightarrow> (string \<Rightarrow> err + 'r) \<Rightarrow> string \<Rightarrow> ('r, 'v) mcp_bridge \<Rightarrow> ('r, 'v) mcp_bridge \<times> err option" where
  "set_schema sdk js schema b =
     (case (if trim_space schema \<noteq> [] then map_sum id (\<lambda>r. (schema, Some r, respond_name schema)) (compile js schema)
            else Inr ([], None, [])) of
        Inl e \<Rightarrow> (b, Some (wrap ''mcpbridge: response schema'' e))
      | Inr (schema, resolved, name) \<Rightarrow>
          if name = mb_respond b then (b, None)
          else
            (b\<lparr>mb_schema := schema, mb_resolved := resolved, mb_respond := name, mb_gen := mb_gen b + 1,
               mb_servers := map (\<lambda>(i, v).
                 (i, install_respond sdk name schema (if mb_respond b \<noteq> [] then sdk_remove sdk (mb_respond b) v else v)))
                 (mb_servers b)\<rparr>, None))"

text \<open>newServer registers a server, here under a number of its own, and its \<open>remove\<close> forgets it.\<close>

definition new_server :: "'v sdk \<Rightarrow> nat \<Rightarrow> ('r, 'v) mcp_bridge \<Rightarrow> ('r, 'v) mcp_bridge" where
  "new_server sdk i b =
     (let v = foldl (\<lambda>v (t, r). sdk_add sdk (tl_name t) (tl_description t) (tl_schema t) v) (sdk_new sdk (mb_name b)) (mb_tools b) in
      b\<lparr>mb_servers := (i, install_respond sdk (mb_respond b) (mb_schema b) v) # mb_servers b\<rparr>)"

definition remove_server :: "nat \<Rightarrow> ('r, 'v) mcp_bridge \<Rightarrow> ('r, 'v) mcp_bridge" where
  "remove_server i b = b\<lparr>mb_servers := filter (\<lambda>iv. fst iv \<noteq> i) (mb_servers b)\<rparr>"

section \<open>Calls\<close>

text \<open>A tool call's parameters: its name and arguments.\<close>

definition call_arguments :: "(string \<times> string) option \<Rightarrow> string" where
  "call_arguments params =
     (case params of
        None \<Rightarrow> ''{}''
      | Some (name, args) \<Rightarrow> let a = trim_space args in if a = [] \<or> a = ''null'' then ''{}'' else args)"

record tool_reply =
  tr_error :: bool
  tr_text :: string

definition failure :: "err \<Rightarrow> tool_reply" where
  "failure e = \<lparr>tr_error = True, tr_text = err_text e\<rparr>"

text \<open>\<open>cause\<close> is what the call's context was cancelled with, if it was by the handler's end.\<close>

definition handle_tool ::
  "('r \<Rightarrow> string \<Rightarrow> err option) \<Rightarrow> tool \<times> 'r \<Rightarrow> err option \<Rightarrow> (string \<times> string) option \<Rightarrow> tool_reply" where
  "handle_tool check = (\<lambda>(t, r) cause params.
     let args = call_arguments params in
     case validate_args check r args of
       Some e \<Rightarrow> failure (wrap ''the arguments don't match the tool's schema'' e)
     | None \<Rightarrow>
         (case the (tl_handler t) args of
            Inl e \<Rightarrow> failure (case cause of None \<Rightarrow> e | Some c \<Rightarrow> Joined [e, c])
          | Inr s \<Rightarrow> \<lparr>tr_error = False, tr_text = s\<rparr>))"

text \<open>handleRespond's verdict: the error OnRejected receives, or the value OnStructured does.\<close>

definition respond_verdict ::
  "('r \<Rightarrow> string \<Rightarrow> err option) \<Rightarrow> ('r, 'v) mcp_bridge \<Rightarrow> string \<times> string \<Rightarrow> err + string" where
  "respond_verdict check b = (\<lambda>(name, args).
     let a = call_arguments (Some (name, args)) in
     if mb_respond b = [] then Inl (Msg (name @ '': no structured response is expected now''))
     else if name \<noteq> mb_respond b then Inl (Msg (name @ '': the response schema changed; call '' @ mb_respond b @ '' instead''))
     else (case validate_args check (the (mb_resolved b)) a of
             Some e \<Rightarrow> Inl (wrap ''the response doesn't match the schema'' e)
           | None \<Rightarrow> Inr a))"

definition handle_respond :: "('r \<Rightarrow> string \<Rightarrow> err option) \<Rightarrow> ('r, 'v) mcp_bridge \<Rightarrow> string \<times> string \<Rightarrow> tool_reply" where
  "handle_respond check b call =
     (case respond_verdict check b call of
        Inl e \<Rightarrow> failure e
      | Inr _ \<Rightarrow> \<lparr>tr_error = False, tr_text = mcp_accepted\<rparr>)"

text \<open>routeRespond, before the go-sdk server: what takes a request.\<close>

datatype mcp_route = ToRespond string string | ToListing | ToServer

definition route_respond :: "string \<Rightarrow> (string \<times> string) option \<Rightarrow> mcp_route" where
  "route_respond meth params =
     (case (if meth = ''tools/call'' then params else None) of
        Some (name, args) \<Rightarrow> if is_respond name then ToRespond name args else ToServer
      | None \<Rightarrow> if meth = ''tools/list'' then ToListing else ToServer)"

section \<open>Listings\<close>

definition list_arrives :: "('r, 'v) mcp_bridge \<Rightarrow> ('r, 'v) mcp_bridge \<times> nat" where
  "list_arrives b = (b\<lparr>mb_started := mb_started b + 1\<rparr>, mb_gen b)"

definition list_answered :: "nat \<Rightarrow> ('r, 'v) mcp_bridge \<Rightarrow> ('r, 'v) mcp_bridge" where
  "list_answered gen b = b\<lparr>mb_listed_gen := max (mb_listed_gen b) gen, mb_answered := mb_answered b + 1\<rparr>"

text \<open>WaitListed's test, and where a call of it is: at the test, or waiting on a channel.\<close>

definition wait_done :: "('r, 'v) mcp_bridge \<Rightarrow> bool" where
  "wait_done b \<longleftrightarrow> mb_started b = 0 \<or> mb_gen b \<le> mb_listed_gen b"

datatype wait_pc = WaitTest | WaitSelect nat | WaitOver "err option"

definition wait_test :: "('r, 'v) mcp_bridge \<Rightarrow> wait_pc" where
  "wait_test b = (if wait_done b then WaitOver None else WaitSelect (mb_answered b))"

section \<open>Steps\<close>

record ('r, 'v) mcp_state =
  ms_bridge :: "('r, 'v) mcp_bridge"
  ms_listings :: "nat \<Rightarrow> nat option"
  ms_waits :: "nat \<Rightarrow> wait_pc option"

text \<open>What happens to a server, by its requests and the calls made of it, each under a number of its own.\<close>

datatype mcp_event =
    SetSchema string
  | Serve nat
  | Drop nat
  | ListArrives nat
  | ListAnswered nat
  | ListFailed nat
  | WaitStarts nat
  | WaitTests nat
  | WaitWakes nat
  | WaitGivesUp nat "err option"

inductive mcp_step ::
  "'v sdk \<Rightarrow> (string \<Rightarrow> err + 'r) \<Rightarrow> ('r, 'v) mcp_state \<Rightarrow> mcp_event \<Rightarrow> ('r, 'v) mcp_state \<Rightarrow> bool"
  for sdk js where
  set_schema: "mcp_step sdk js s (SetSchema schema) (s\<lparr>ms_bridge := fst (set_schema sdk js schema (ms_bridge s))\<rparr>)"
| serve: "i \<notin> fst ` set (mb_servers (ms_bridge s)) \<Longrightarrow>
    mcp_step sdk js s (Serve i) (s\<lparr>ms_bridge := new_server sdk i (ms_bridge s)\<rparr>)"
| drop: "mcp_step sdk js s (Drop i) (s\<lparr>ms_bridge := remove_server i (ms_bridge s)\<rparr>)"
| arrives: "ms_listings s j = None \<Longrightarrow> list_arrives (ms_bridge s) = (b, g) \<Longrightarrow>
    mcp_step sdk js s (ListArrives j) (s\<lparr>ms_bridge := b, ms_listings := (ms_listings s)(j \<mapsto> g)\<rparr>)"
| answered: "ms_listings s j = Some g \<Longrightarrow>
    mcp_step sdk js s (ListAnswered j)
      (s\<lparr>ms_bridge := list_answered g (ms_bridge s), ms_listings := (ms_listings s)(j := None)\<rparr>)"
| failed: "ms_listings s j = Some g \<Longrightarrow>
    mcp_step sdk js s (ListFailed j) (s\<lparr>ms_listings := (ms_listings s)(j := None)\<rparr>)"
| wait: "ms_waits s w = None \<Longrightarrow> mcp_step sdk js s (WaitStarts w) (s\<lparr>ms_waits := (ms_waits s)(w \<mapsto> WaitTest)\<rparr>)"
| test: "ms_waits s w = Some WaitTest \<Longrightarrow>
    mcp_step sdk js s (WaitTests w) (s\<lparr>ms_waits := (ms_waits s)(w \<mapsto> wait_test (ms_bridge s))\<rparr>)"
| wake: "ms_waits s w = Some (WaitSelect n) \<Longrightarrow> n \<noteq> mb_answered (ms_bridge s) \<Longrightarrow>
    mcp_step sdk js s (WaitWakes w) (s\<lparr>ms_waits := (ms_waits s)(w \<mapsto> WaitTest)\<rparr>)"
| gives_up: "ms_waits s w = Some (WaitSelect n) \<Longrightarrow>
    mcp_step sdk js s (WaitGivesUp w e) (s\<lparr>ms_waits := (ms_waits s)(w \<mapsto> WaitOver e)\<rparr>)"

inductive_cases mcp_stepE: "mcp_step sdk js s ev s'"

definition mcp_start :: "('r, 'v) mcp_bridge \<Rightarrow> ('r, 'v) mcp_state" where
  "mcp_start b = \<lparr>ms_bridge = b, ms_listings = (\<lambda>_. None), ms_waits = (\<lambda>_. None)\<rparr>"

text \<open>The runs of a server that New returned.\<close>

inductive mcp_run ::
  "'v sdk \<Rightarrow> (string \<Rightarrow> err + 'r) \<Rightarrow> ('r, 'v) mcp_bridge \<Rightarrow> mcp_event list \<Rightarrow> ('r, 'v) mcp_state \<Rightarrow> bool"
  for sdk js b where
  start: "mcp_run sdk js b [] (mcp_start b)"
| step: "mcp_run sdk js b evs s \<Longrightarrow> mcp_step sdk js s ev s' \<Longrightarrow> mcp_run sdk js b (evs @ [ev]) s'"

section \<open>The session's tools\<close>

declare map_sum_Inr [simp] map_sum_Inl [simp]

text \<open>A tool as the server offers it: its schema, or the empty object's when it has none.\<close>

definition with_schema :: "tool \<Rightarrow> tool" where
  "with_schema t = (if tl_schema t = [] then t\<lparr>tl_schema := empty_schema\<rparr> else t)"

lemma with_schema_name [simp]: "tl_name (with_schema t) = tl_name t"
  by (simp add: with_schema_def)

definition tool_accepted :: "(string \<Rightarrow> err + 'r) \<Rightarrow> tool \<Rightarrow> bool" where
  "tool_accepted js t \<longleftrightarrow>
     tool_validate t = None \<and> \<not> has_prefix (tl_name t) reserved \<and> (\<exists>r. compile js (tl_schema (with_schema t)) = Inr r)"

lemma new_tools_step:
  "new_tools js seen (t # ts) =
     (if tool_validate t \<noteq> None then Inl (wrap ''mcpbridge'' (the (tool_validate t)))
      else if has_prefix (tl_name t) reserved
      then Inl (Msg (''mcpbridge: tool '' @ quote (tl_name t) @ '': names beginning '' @ quote reserved @ '' are the bridge's own''))
      else if tl_name t \<in> set seen then Inl (Msg (''mcpbridge: two tools are named '' @ quote (tl_name t)))
      else (case compile js (tl_schema (with_schema t)) of
              Inl e \<Rightarrow> Inl (wrap (''mcpbridge: tool '' @ quote (tl_name t)) e)
            | Inr r \<Rightarrow> map_sum id ((#) (with_schema t, r)) (new_tools js (tl_name t # seen) ts)))"
  by (auto simp: with_schema_def Let_def split: option.split sum.split)

lemma new_tools_Inr:
  "new_tools js seen ts = Inr trs \<longleftrightarrow>
     list_all (tool_accepted js) ts \<and> distinct (map tl_name ts) \<and> set (map tl_name ts) \<inter> set seen = {}
     \<and> trs = map (\<lambda>t. (with_schema t, projr (compile js (tl_schema (with_schema t))))) ts"
proof (induction ts arbitrary: seen trs)
  case Nil
  then show ?case by auto
next
  case (Cons t ts)
  show ?case unfolding new_tools_step using Cons.IH[of "tl_name t # seen"]
    by (cases "compile js (tl_schema (with_schema t))") (auto simp: tool_accepted_def)
qed

lemma new_mcp_Inr:
  "new_mcp js tools name = Inr b \<Longrightarrow>
     list_all (tool_accepted js) tools \<and> distinct (map tl_name tools)
     \<and> mb_tools b = map (\<lambda>t. (with_schema t, projr (compile js (tl_schema (with_schema t))))) tools
     \<and> mb_schema b = [] \<and> mb_resolved b = None \<and> mb_respond b = [] \<and> mb_servers b = []
     \<and> mb_gen b = 0 \<and> mb_listed_gen b = 0 \<and> mb_started b = 0 \<and> mb_answered b = 0"
  by (auto simp: new_mcp_def new_tools_Inr)

section \<open>Changes of the schema\<close>

lemma respond_name_facts [simp]: "respond_name schema \<noteq> []" "is_respond (respond_name schema)" "has_prefix (respond_name schema) reserved"
  by (simp_all add: respond_name_def Let_def respond_prefix_def is_respond_def has_prefix_def reserved_def)

text \<open>The respond tool a change of schema leaves, and the one a run's changes leave.\<close>

definition next_respond :: "(string \<Rightarrow> err + 'r) \<Rightarrow> string \<Rightarrow> string \<Rightarrow> string" where
  "next_respond js schema cur =
     (if trim_space schema = [] then [] else case compile js schema of Inl _ \<Rightarrow> cur | Inr _ \<Rightarrow> respond_name schema)"

fun wanted_from :: "(string \<Rightarrow> err + 'r) \<Rightarrow> string \<Rightarrow> mcp_event list \<Rightarrow> string" where
  "wanted_from js cur [] = cur"
| "wanted_from js cur (SetSchema schema # evs) = wanted_from js (next_respond js schema cur) evs"
| "wanted_from js cur (ev # evs) = wanted_from js cur evs"

abbreviation wanted :: "(string \<Rightarrow> err + 'r) \<Rightarrow> mcp_event list \<Rightarrow> string" where
  "wanted js \<equiv> wanted_from js []"

lemma wanted_snoc: "wanted_from js cur (evs @ [ev]) = wanted_from js (wanted_from js cur evs) [ev]"
  by (induction js cur evs rule: wanted_from.induct) simp_all

lemma set_schema_cases:
  obtains (same) "fst (set_schema sdk js schema b) = b" "next_respond js schema (mb_respond b) = mb_respond b"
  | (changed) sc res where
      "fst (set_schema sdk js schema b) =
         b\<lparr>mb_schema := sc, mb_resolved := res, mb_respond := next_respond js schema (mb_respond b), mb_gen := mb_gen b + 1,
           mb_servers := map (\<lambda>(i, v). (i, install_respond sdk (next_respond js schema (mb_respond b)) sc
             (if mb_respond b \<noteq> [] then sdk_remove sdk (mb_respond b) v else v))) (mb_servers b)\<rparr>"
      "next_respond js schema (mb_respond b) \<noteq> mb_respond b"
      "next_respond js schema (mb_respond b) = [] \<and> sc = [] \<and> res = None
       \<or> (\<exists>r. res = Some r \<and> sc = schema \<and> compile js schema = Inr r \<and> next_respond js schema (mb_respond b) = respond_name schema)"
proof (cases "trim_space schema = []")
  case True
  then show ?thesis using that by (cases "mb_respond b = []") (auto simp: set_schema_def next_respond_def)
next
  case False
  show ?thesis
  proof (cases "compile js schema")
    case (Inl e)
    then show ?thesis using False that(1) by (simp add: set_schema_def next_respond_def)
  next
    case (Inr r)
    then show ?thesis using False that by (cases "respond_name schema = mb_respond b") (auto simp: set_schema_def next_respond_def)
  qed
qed

text \<open>The schema in force: none, or one that was set, under its name.\<close>

definition schema_ok :: "(string \<Rightarrow> err + 'r) \<Rightarrow> mcp_event list \<Rightarrow> ('r, 'v) mcp_bridge \<Rightarrow> bool" where
  "schema_ok js evs b \<longleftrightarrow>
     mb_respond b = wanted js evs
     \<and> (mb_respond b = [] \<or>
        (\<exists>r. mb_resolved b = Some r \<and> compile js (mb_schema b) = Inr r \<and> mb_respond b = respond_name (mb_schema b)
           \<and> SetSchema (mb_schema b) \<in> set evs))"

lemma schema_ok_same:
  "schema_ok js evs b \<Longrightarrow> mb_respond b' = mb_respond b \<Longrightarrow> mb_resolved b' = mb_resolved b \<Longrightarrow> mb_schema b' = mb_schema b \<Longrightarrow>
     wanted_from js (mb_respond b) [ev] = mb_respond b \<Longrightarrow> schema_ok js (evs @ [ev]) b'"
  unfolding schema_ok_def wanted_snoc by (elim conjE disjE) auto

lemma schema_ok_step:
  assumes st: "mcp_step sdk js s ev s'" and ok: "schema_ok js evs (ms_bridge s)"
  shows "schema_ok js (evs @ [ev]) (ms_bridge s')"
  using st
proof (cases rule: mcp_step.cases)
  case (set_schema schema)
  show ?thesis
  proof (cases rule: set_schema_cases[of sdk js schema "ms_bridge s"])
    case same
    then show ?thesis using ok set_schema by (auto intro: schema_ok_same)
  next
    case (changed sc res)
    then show ?thesis using ok set_schema(1) unfolding schema_ok_def wanted_snoc set_schema(2) by auto
  qed
qed (use ok in \<open>auto intro!: schema_ok_same simp: new_server_def remove_server_def list_arrives_def list_answered_def Let_def\<close>)


lemma mcp_run_schema: "mcp_run sdk js b evs s \<Longrightarrow> mb_respond b = [] \<Longrightarrow> schema_ok js evs (ms_bridge s)"
proof (induction rule: mcp_run.induct)
  case start
  then show ?case by (simp add: mcp_start_def schema_ok_def)
next
  case step
  then show ?case by (blast intro: schema_ok_step)
qed

section \<open>What a server offers\<close>

definition tools_offered :: "('r, 'v) mcp_bridge \<Rightarrow> string \<Rightarrow> (string \<times> string) option" where
  "tools_offered b = map_of (map (\<lambda>(t, r). (tl_name t, (tl_description t, tl_schema t))) (mb_tools b))"

text \<open>A listing: the session's tools, and the respond tool while one is installed.\<close>

definition offered :: "('r, 'v) mcp_bridge \<Rightarrow> string \<Rightarrow> (string \<times> string) option" where
  "offered b =
     (if mb_respond b = [] then tools_offered b else (tools_offered b)(mb_respond b \<mapsto> (respond_description, mb_schema b)))"

definition tools_ok :: "('r, 'v) mcp_bridge \<Rightarrow> bool" where
  "tools_ok b \<longleftrightarrow> distinct (map (\<lambda>tr. tl_name (fst tr)) (mb_tools b))
     \<and> list_all (\<lambda>tr. \<not> has_prefix (tl_name (fst tr)) reserved) (mb_tools b)"

lemma new_mcp_tools: "new_mcp js tools name = Inr b \<Longrightarrow> tools_ok b"
  by (drule new_mcp_Inr) (auto simp: tools_ok_def tool_accepted_def list_all_iff comp_def)

lemma tools_not_reserved: "tools_ok b \<Longrightarrow> has_prefix name reserved \<Longrightarrow> tools_offered b name = None"
  by (auto simp: tools_ok_def tools_offered_def map_of_eq_None_iff list_all_iff)

lemma sdk_simps:
  assumes "sdk_ok sdk"
  shows "sdk_offers sdk (sdk_new sdk name) = (\<lambda>_. None)"
    "sdk_offers sdk (sdk_add sdk n d sc v) = (sdk_offers sdk v)(n \<mapsto> (d, sc))"
    "sdk_offers sdk (sdk_remove sdk n v) = (sdk_offers sdk v)(n := None)"
  using assms by (simp_all add: sdk_ok_def)

lemma sdk_tools:
  assumes "sdk_ok sdk"
  shows "distinct (map (\<lambda>tr. tl_name (fst tr)) trs) \<Longrightarrow>
    sdk_offers sdk (foldl (\<lambda>v (t, r). sdk_add sdk (tl_name t) (tl_description t) (tl_schema t) v) v trs)
      = sdk_offers sdk v ++ map_of (map (\<lambda>(t, r). (tl_name t, (tl_description t, tl_schema t))) trs)"
proof (induction trs arbitrary: v)
  case (Cons tr trs)
  obtain t r where tr: "tr = (t, r)" by (cases tr)
  let ?m = "map_of (map (\<lambda>(t, r). (tl_name t, (tl_description t, tl_schema t))) trs)"
  have "tl_name t \<notin> dom ?m" using Cons.prems tr by (auto simp: dom_map_of_conv_image_fst image_iff)
  then show ?case using Cons.IH Cons.prems tr
    by (auto simp: sdk_simps[OF assms] map_add_def fun_eq_iff dom_def split: option.split)
qed simp

lemma sdk_install:
  "sdk_ok sdk \<Longrightarrow> sdk_offers sdk (install_respond sdk n sc v) =
     (if n = [] then sdk_offers sdk v else (sdk_offers sdk v)(n \<mapsto> (respond_description, sc)))"
  by (simp add: install_respond_def sdk_simps)

definition servers_ok :: "'v sdk \<Rightarrow> ('r, 'v) mcp_bridge \<Rightarrow> bool" where
  "servers_ok sdk b \<longleftrightarrow> (\<forall>iv \<in> set (mb_servers b). sdk_offers sdk (snd iv) = offered b)"

lemma new_server_ok:
  assumes "sdk_ok sdk" "tools_ok b" "servers_ok sdk b"
  shows "servers_ok sdk (new_server sdk i b)"
proof -
  have "distinct (map (\<lambda>tr. tl_name (fst tr)) (mb_tools b))" using assms(2) by (simp add: tools_ok_def)
  then show ?thesis using assms(3)
    by (auto simp: servers_ok_def new_server_def Let_def sdk_install[OF assms(1)] sdk_tools[OF assms(1)] sdk_simps[OF assms(1)]
        offered_def tools_offered_def)
qed

lemma set_schema_servers:
  assumes sdk: "sdk_ok sdk" and b: "tools_ok b" "servers_ok sdk b" "schema_ok js evs b"
  shows "servers_ok sdk (fst (set_schema sdk js schema b))"
proof (cases rule: set_schema_cases[of sdk js schema b])
  case (changed sc res)
  let ?b = "fst (set_schema sdk js schema b)"
  have t: "tools_offered ?b = tools_offered b" unfolding changed(1) by (simp add: tools_offered_def)
  have old: "(offered b)(mb_respond b := None) = tools_offered b" if "mb_respond b \<noteq> []"
  proof -
    have "has_prefix (mb_respond b) reserved"
      using b(3) that respond_name_facts(3) unfolding schema_ok_def by metis
    then show ?thesis using tools_not_reserved[OF b(1)] that by (auto simp: offered_def)
  qed
  have "sdk_offers sdk (install_respond sdk (mb_respond ?b) (mb_schema ?b)
      (if mb_respond b \<noteq> [] then sdk_remove sdk (mb_respond b) v else v)) = offered ?b"
    if "(i, v) \<in> set (mb_servers b)" for i v
  proof -
    have v: "sdk_offers sdk v = offered b" using b(2) that by (auto simp: servers_ok_def)
    have "sdk_offers sdk (if mb_respond b \<noteq> [] then sdk_remove sdk (mb_respond b) v else v) = tools_offered b"
      using old v by (auto simp: sdk_simps[OF sdk] offered_def)
    then show ?thesis unfolding sdk_install[OF sdk] by (simp add: offered_def t)
  qed
  then show ?thesis unfolding servers_ok_def changed(1) by auto
qed (use b in simp)

lemma servers_ok_same:
  "servers_ok sdk b \<Longrightarrow> mb_servers b' = mb_servers b \<Longrightarrow> mb_tools b' = mb_tools b \<Longrightarrow> mb_respond b' = mb_respond b \<Longrightarrow>
     mb_schema b' = mb_schema b \<Longrightarrow> servers_ok sdk b'"
  by (simp add: servers_ok_def offered_def tools_offered_def)

lemma mcp_step_tools: "mcp_step sdk js s ev s' \<Longrightarrow> mb_tools (ms_bridge s') = mb_tools (ms_bridge s)"
proof (induction rule: mcp_step.induct)
  case (set_schema s schema)
  show ?case by (cases rule: set_schema_cases[of sdk js schema "ms_bridge s"]) simp_all
qed (auto simp: new_server_def remove_server_def list_arrives_def list_answered_def Let_def)

lemma servers_ok_step:
  assumes sdk: "sdk_ok sdk" and st: "mcp_step sdk js s ev s'"
    and b: "tools_ok (ms_bridge s)" "servers_ok sdk (ms_bridge s)" "schema_ok js evs (ms_bridge s)"
  shows "servers_ok sdk (ms_bridge s')"
  using st
proof (cases rule: mcp_step.cases)
  case (drop i)
  then show ?thesis using b(2) by (auto simp: servers_ok_def remove_server_def offered_def tools_offered_def)
qed (use b set_schema_servers[OF sdk] new_server_ok[OF sdk] in
      \<open>auto intro: servers_ok_same simp: list_arrives_def list_answered_def\<close>)

lemma mcp_run_servers:
  assumes sdk: "sdk_ok sdk" and new: "new_mcp js tools name = Inr b"
  shows "mcp_run sdk js b evs s \<Longrightarrow> mb_tools (ms_bridge s) = mb_tools b \<and> servers_ok sdk (ms_bridge s)"
proof (induction rule: mcp_run.induct)
  case start
  then show ?case using new_mcp_Inr[OF new] by (simp add: mcp_start_def servers_ok_def)
next
  case (step evs s ev s')
  have "tools_ok (ms_bridge s)" using step.IH new_mcp_tools[OF new] by (simp add: tools_ok_def)
  moreover have "schema_ok js evs (ms_bridge s)" using mcp_run_schema[OF step.hyps(1)] new_mcp_Inr[OF new] by simp
  ultimately show ?case using servers_ok_step[OF sdk step.hyps(2)] mcp_step_tools[OF step.hyps(2)] step.IH by simp
qed

section \<open>The wait for a listing\<close>

text \<open>The changes after \<open>before\<close> leave the respond tool that \<open>before\<close> left, all the time.\<close>

definition same_since :: "(string \<Rightarrow> err + 'r) \<Rightarrow> mcp_event list \<Rightarrow> mcp_event list \<Rightarrow> bool" where
  "same_since js before after \<longleftrightarrow>
     list_all (\<lambda>k. wanted js (before @ take k after) = wanted js (before @ after)) [0..<Suc (length after)]"

lemma same_since_Nil [simp]: "same_since js before []"
  by (simp add: same_since_def)

lemma same_since_snoc:
  assumes "same_since js before after" "wanted js (before @ after @ [ev]) = wanted js (before @ after)"
  shows "same_since js before (after @ [ev])"
  using assms by (auto simp: same_since_def list_all_iff less_Suc_eq_le le_Suc_eq)

text \<open>A listing under way, and one answered, of the respond tool there is.\<close>

definition list_open :: "(string \<Rightarrow> err + 'r) \<Rightarrow> mcp_event list \<Rightarrow> nat \<Rightarrow> nat \<Rightarrow> nat \<Rightarrow> bool" where
  "list_open js evs gen j g \<longleftrightarrow>
     (\<exists>before after. evs = before @ ListArrives j # after \<and> {ListAnswered j, ListFailed j} \<inter> set after = {}
        \<and> (g = gen \<longrightarrow> same_since js before (ListArrives j # after)))"

definition list_current :: "(string \<Rightarrow> err + 'r) \<Rightarrow> mcp_event list \<Rightarrow> bool" where
  "list_current js evs \<longleftrightarrow>
     (\<exists>j before during after. evs = before @ ListArrives j # during @ ListAnswered j # after
        \<and> {ListAnswered j, ListFailed j} \<inter> set during = {}
        \<and> same_since js before (ListArrives j # during @ ListAnswered j # after))"

definition lists_ok :: "(string \<Rightarrow> err + 'r) \<Rightarrow> mcp_event list \<Rightarrow> ('r, 'v) mcp_state \<Rightarrow> bool" where
  "lists_ok js evs s \<longleftrightarrow>
     (let b = ms_bridge s in
      (\<forall>j g. ms_listings s j = Some g \<longrightarrow> g \<le> mb_gen b \<and> list_open js evs (mb_gen b) j g)
      \<and> mb_listed_gen b \<le> mb_gen b
      \<and> (mb_gen b = 0 \<longrightarrow> same_since js [] evs)
      \<and> (mb_listed_gen b = mb_gen b \<longrightarrow> mb_gen b = 0 \<or> list_current js evs)
      \<and> (mb_started b = 0 \<longrightarrow> (\<forall>j. ListArrives j \<notin> set evs)))"

definition waits_ok :: "('r, 'v) mcp_state \<Rightarrow> bool" where
  "waits_ok s \<longleftrightarrow>
     (\<forall>w n. ms_waits s w = Some (WaitSelect n) \<longrightarrow>
        n \<le> mb_answered (ms_bridge s) \<and> (n = mb_answered (ms_bridge s) \<longrightarrow> \<not> wait_done (ms_bridge s)))"

lemma list_open_other:
  "list_open js evs gen j g \<Longrightarrow> ev \<noteq> ListAnswered j \<Longrightarrow> ev \<noteq> ListFailed j \<Longrightarrow>
     gen' = gen \<and> wanted js (evs @ [ev]) = wanted js evs \<or> g < gen' \<Longrightarrow> list_open js (evs @ [ev]) gen' j g"
  unfolding list_open_def
proof (elim exE conjE)
  fix before after
  assume e: "evs = before @ ListArrives j # after" "{ListAnswered j, ListFailed j} \<inter> set after = {}"
    "g = gen \<longrightarrow> same_since js before (ListArrives j # after)" "ev \<noteq> ListAnswered j" "ev \<noteq> ListFailed j"
    "gen' = gen \<and> wanted js (evs @ [ev]) = wanted js evs \<or> g < gen'"
  have "same_since js before (ListArrives j # after @ [ev])" if "g = gen'"
    using same_since_snoc[of js before "ListArrives j # after" ev] e that by auto
  then show "\<exists>before after. evs @ [ev] = before @ ListArrives j # after \<and> {ListAnswered j, ListFailed j} \<inter> set after = {}
      \<and> (g = gen' \<longrightarrow> same_since js before (ListArrives j # after))"
    using e by (intro exI[of _ before] exI[of _ "after @ [ev]"]) auto
qed

lemma list_current_other: "list_current js evs \<Longrightarrow> wanted js (evs @ [ev]) = wanted js evs \<Longrightarrow> list_current js (evs @ [ev])"
  unfolding list_current_def
proof (elim exE conjE)
  fix j before during after
  assume e: "evs = before @ ListArrives j # during @ ListAnswered j # after" "{ListAnswered j, ListFailed j} \<inter> set during = {}"
    "same_since js before (ListArrives j # during @ ListAnswered j # after)" "wanted js (evs @ [ev]) = wanted js evs"
  have "same_since js before (ListArrives j # during @ ListAnswered j # after @ [ev])"
    using same_since_snoc[of js before "ListArrives j # during @ ListAnswered j # after" ev] e by auto
  then show "\<exists>j before during after. evs @ [ev] = before @ ListArrives j # during @ ListAnswered j # after
      \<and> {ListAnswered j, ListFailed j} \<inter> set during = {} \<and> same_since js before (ListArrives j # during @ ListAnswered j # after)"
    using e by (intro exI[of _ j] exI[of _ before] exI[of _ during] exI[of _ "after @ [ev]"]) auto
qed

lemma list_open_answered:
  assumes "list_open js evs gen j gen" "wanted js (evs @ [ListAnswered j]) = wanted js evs"
  shows "list_current js (evs @ [ListAnswered j])"
proof -
  obtain before after where e: "evs = before @ ListArrives j # after" "{ListAnswered j, ListFailed j} \<inter> set after = {}"
      "same_since js before (ListArrives j # after)"
    using assms(1) by (auto simp: list_open_def)
  have "same_since js before (ListArrives j # after @ [ListAnswered j])"
    using same_since_snoc[OF e(3), of "ListAnswered j"] assms(2) e(1) by simp
  then show ?thesis using e(1,2) unfolding list_current_def
    by (intro exI[of _ j] exI[of _ before] exI[of _ after] exI[of _ "[]"]) simp
qed

lemma list_open_arrives:
  "wanted js (evs @ [ListArrives j]) = wanted js evs \<Longrightarrow> list_open js (evs @ [ListArrives j]) gen j gen"
  using same_since_snoc[of js evs "[]" "ListArrives j"] unfolding list_open_def
  by (intro exI[of _ evs] exI[of _ "[]"]) simp

lemma wanted_other: "(\<forall>schema. ev \<noteq> SetSchema schema) \<Longrightarrow> wanted js (evs @ [ev]) = wanted js evs"
  unfolding wanted_snoc[of js "[]" evs] by (cases ev) simp_all

lemma lists_ok_quiet:
  assumes ok: "lists_ok js evs s" and w: "wanted js (evs @ [ev]) = wanted js evs"
    and ev: "\<forall>j. ev \<noteq> ListAnswered j \<and> ev \<noteq> ListFailed j \<and> ev \<noteq> ListArrives j"
    and s': "ms_listings s' = ms_listings s" "mb_gen (ms_bridge s') = mb_gen (ms_bridge s)"
      "mb_listed_gen (ms_bridge s') = mb_listed_gen (ms_bridge s)" "mb_started (ms_bridge s') = mb_started (ms_bridge s)"
  shows "lists_ok js (evs @ [ev]) s'"
proof -
  have "list_open js (evs @ [ev]) gen j g" if "list_open js evs gen j g" for gen j g
    using list_open_other[OF that] ev w by blast
  moreover have "list_current js (evs @ [ev])" if "list_current js evs" using list_current_other[OF that w] .
  moreover have "same_since js [] (evs @ [ev])" if "same_since js [] evs" using same_since_snoc[OF that, of ev] w by simp
  ultimately show ?thesis using ok ev unfolding lists_ok_def Let_def s' by fastforce
qed

lemma lists_ok_step:
  assumes st: "mcp_step sdk js s ev s'" and ok: "lists_ok js evs s" "schema_ok js evs (ms_bridge s)"
  shows "lists_ok js (evs @ [ev]) s'"
  using st
proof (cases rule: mcp_step.cases)
  case (set_schema schema)
  have w: "wanted js (evs @ [ev]) = next_respond js schema (mb_respond (ms_bridge s))"
    using ok(2) unfolding set_schema wanted_snoc[of js "[]" evs] by (simp add: schema_ok_def)
  show ?thesis
  proof (cases rule: set_schema_cases[of sdk js schema "ms_bridge s"])
    case same
    then have "wanted js (evs @ [ev]) = wanted js evs" using w ok(2) by (simp add: schema_ok_def)
    then show ?thesis using set_schema same by (intro lists_ok_quiet[OF ok(1)]) simp_all
  next
    case (changed sc res)
    have "list_open js (evs @ [ev]) (Suc (mb_gen (ms_bridge s))) j g \<and> g \<le> Suc (mb_gen (ms_bridge s))"
      if "ms_listings s j = Some g" for j g
      using ok(1) that list_open_other[of js evs "mb_gen (ms_bridge s)" j g ev] set_schema
      unfolding lists_ok_def Let_def by (simp add: le_SucI less_Suc_eq_le)
    then show ?thesis using ok(1) set_schema changed(1) unfolding lists_ok_def Let_def by auto
  qed
next
  case (arrives j b g)
  have w: "wanted js (evs @ [ev]) = wanted js evs" using wanted_other[of ev js evs] arrives(1) by simp
  have o: "list_open js (evs @ [ev]) gen j' g'" if "list_open js evs gen j' g'" for gen j' g'
    using list_open_other[OF that] arrives(1) w by blast
  have c: "list_current js (evs @ [ev])" if "list_current js evs" using list_current_other[OF that w] .
  have e: "same_since js [] (evs @ [ev])" if "same_since js [] evs" using same_since_snoc[OF that, of ev] w by simp
  have n: "list_open js (evs @ [ev]) gen j gen" for gen using list_open_arrives w arrives(1) by simp
  let ?g = "mb_gen (ms_bridge s)"
  have l: "g' \<le> ?g \<and> list_open js (evs @ [ev]) ?g j' g'" if "ms_listings s' j' = Some g'" for j' g'
    using that ok(1) arrives(2-4) o[of ?g j' g'] n[of ?g] unfolding lists_ok_def Let_def list_arrives_def
    by (auto split: if_splits)
  have b: "mb_gen (ms_bridge s') = ?g" "mb_listed_gen (ms_bridge s') = mb_listed_gen (ms_bridge s)" "mb_started (ms_bridge s') \<noteq> 0"
    using arrives(2-4) by (auto simp: list_arrives_def)
  show ?thesis using ok(1) l c e b unfolding lists_ok_def Let_def by auto
next
  case (answered j g)
  have w: "wanted js (evs @ [ev]) = wanted js evs" using wanted_other[of ev js evs] answered(1) by simp
  have o: "list_open js (evs @ [ev]) gen j' g'" if "list_open js evs gen j' g'" "j' \<noteq> j" for gen j' g'
    by (intro list_open_other[OF that(1)]) (use answered(1) that(2) w in auto)
  have c: "list_current js (evs @ [ev])" if "list_current js evs" using list_current_other[OF that w] .
  have e: "same_since js [] (evs @ [ev])" if "same_since js [] evs" using same_since_snoc[OF that, of ev] w by simp
  have n: "list_current js (evs @ [ev])" if "list_open js evs gen j gen" for gen
    using list_open_answered[OF that] w answered(1) by simp
  have g: "g \<le> mb_gen (ms_bridge s)" "list_open js evs (mb_gen (ms_bridge s)) j g"
    using ok(1) answered(3) by (auto simp: lists_ok_def Let_def)
  let ?g = "mb_gen (ms_bridge s)"
  have l: "g' \<le> ?g \<and> list_open js (evs @ [ev]) ?g j' g'" if "ms_listings s' j' = Some g'" for j' g'
    using that ok(1) answered(2,3) o[of ?g j' g'] unfolding lists_ok_def Let_def by (auto split: if_splits)
  have b: "mb_gen (ms_bridge s') = ?g" "mb_listed_gen (ms_bridge s') = max (mb_listed_gen (ms_bridge s)) g"
    "mb_started (ms_bridge s') = mb_started (ms_bridge s)"
    using answered(2,3) by (auto simp: list_answered_def)
  have m: "?g = 0 \<or> list_current js (evs @ [ev])" if "max (mb_listed_gen (ms_bridge s)) g = ?g"
    using that ok(1) g c n[of ?g] unfolding lists_ok_def Let_def by (auto simp: max_def split: if_splits)
  show ?thesis using ok(1) l e b m g answered(1) unfolding lists_ok_def Let_def by auto
next
  case (failed j g)
  have w: "wanted js (evs @ [ev]) = wanted js evs" using wanted_other[of ev js evs] failed(1) by simp
  have o: "list_open js (evs @ [ev]) gen j' g'" if "list_open js evs gen j' g'" "j' \<noteq> j" for gen j' g'
    by (intro list_open_other[OF that(1)]) (use failed(1) that(2) w in auto)
  have c: "list_current js (evs @ [ev])" if "list_current js evs" using list_current_other[OF that w] .
  have e: "same_since js [] (evs @ [ev])" if "same_since js [] evs" using same_since_snoc[OF that, of ev] w by simp
  show ?thesis using ok(1) failed(1-3) o c e unfolding lists_ok_def Let_def by auto
qed (use wanted_other[of ev js evs] in
      \<open>auto intro!: lists_ok_quiet[OF ok(1)] simp: new_server_def remove_server_def Let_def\<close>)

lemma waits_ok_step:
  assumes st: "mcp_step sdk js s ev s'" and ok: "waits_ok s" and l: "mb_listed_gen (ms_bridge s) \<le> mb_gen (ms_bridge s)"
  shows "waits_ok s'"
  using st
proof (cases rule: mcp_step.cases)
  case (set_schema schema)
  show ?thesis
  proof (cases rule: set_schema_cases[of sdk js schema "ms_bridge s"])
    case same
    then show ?thesis using ok set_schema by simp
  next
    case (changed sc res)
    then show ?thesis using ok set_schema l by (auto simp: waits_ok_def wait_done_def)
  qed
next
  case (answered j g)
  then show ?thesis using ok by (fastforce simp: waits_ok_def list_answered_def)
next
  case (arrives j b g)
  then show ?thesis using ok by (auto simp: waits_ok_def list_arrives_def wait_done_def)
next
  case (test w)
  then show ?thesis using ok unfolding waits_ok_def wait_test_def by (auto split: if_splits)
qed (use ok in \<open>auto simp: waits_ok_def wait_done_def wait_test_def new_server_def remove_server_def Let_def split: if_splits\<close>)

lemma mcp_run_lists:
  assumes new: "new_mcp js tools name = Inr b"
  shows "mcp_run sdk js b evs s \<Longrightarrow> lists_ok js evs s \<and> waits_ok s"
proof (induction rule: mcp_run.induct)
  case start
  then show ?case using new_mcp_Inr[OF new] by (simp add: mcp_start_def lists_ok_def waits_ok_def Let_def)
next
  case (step evs s ev s')
  have "schema_ok js evs (ms_bridge s)" using mcp_run_schema[OF step.hyps(1)] new_mcp_Inr[OF new] by simp
  moreover have "mb_listed_gen (ms_bridge s) \<le> mb_gen (ms_bridge s)" using step.IH by (simp add: lists_ok_def Let_def)
  ultimately show ?case using lists_ok_step[OF step.hyps(2)] waits_ok_step[OF step.hyps(2)] step.IH by blast
qed


section \<open>Properties\<close>

text \<open>
  New takes the tools it documents: each valid, of a name of its own that doesn't begin with
  "respond", with a schema that compiles.
\<close>

lemma new_mcp_accepts:
  "(\<exists>b. new_mcp js tools name = Inr b) \<longleftrightarrow> list_all (tool_accepted js) tools \<and> distinct (map tl_name tools)"
  by (auto simp: new_mcp_def new_tools_Inr)

text \<open>
  C14: the respond tool in force. After any run of the server the last SetSchema that didn't fail
  decides: with no schema set every respond call is rejected, and otherwise there is a schema that
  was set, of the name in force, such that a call is accepted exactly when it names the current
  respond tool and its arguments, an empty object for none, match that schema.
\<close>
theorem mcp_respond_current:
  assumes "new_mcp js tools name = Inr b" "mcp_run sdk js b evs s"
  shows "wanted js evs = [] \<and> (\<forall>call. \<exists>e. respond_verdict check (ms_bridge s) call = Inl e)
    \<or> (\<exists>schema r. SetSchema schema \<in> set evs \<and> compile js schema = Inr r \<and> respond_name schema = wanted js evs
        \<and> (\<forall>nm args v. respond_verdict check (ms_bridge s) (nm, args) = Inr v
             \<longleftrightarrow> nm = wanted js evs \<and> v = call_arguments (Some (nm, args)) \<and> validate_args check r v = None))"
proof -
  have ok: "schema_ok js evs (ms_bridge s)" using mcp_run_schema[OF assms(2)] new_mcp_Inr[OF assms(1)] by simp
  show ?thesis
  proof (cases "mb_respond (ms_bridge s) = []")
    case True
    then show ?thesis using ok by (simp add: schema_ok_def respond_verdict_def split_beta)
  next
    case False
    then obtain r where r: "mb_resolved (ms_bridge s) = Some r" "compile js (mb_schema (ms_bridge s)) = Inr r"
        "respond_name (mb_schema (ms_bridge s)) = wanted js evs" "SetSchema (mb_schema (ms_bridge s)) \<in> set evs"
        "mb_respond (ms_bridge s) = wanted js evs"
      using ok unfolding schema_ok_def by metis
    have "respond_verdict check (ms_bridge s) (nm, args) = Inr v
        \<longleftrightarrow> nm = wanted js evs \<and> v = call_arguments (Some (nm, args)) \<and> validate_args check r v = None" for nm args v
      using False r(1,5) by (auto simp: respond_verdict_def Let_def split: option.splits)
    then show ?thesis using r(2-4) by blast
  qed
qed

text \<open>
  C15: what a harness is offered. Every go-sdk server that is registered, whenever it was, lists the
  session's tools with their schemas, the respond tool in force with the schema it was installed
  with, and nothing else: no respond tool that a later SetSchema replaced or removed.
\<close>
theorem mcp_servers_offer:
  assumes "sdk_ok sdk" "new_mcp js tools name = Inr b" "mcp_run sdk js b evs s" "(i, v) \<in> set (mb_servers (ms_bridge s))"
  shows "sdk_offers sdk v nm =
    (if wanted js evs \<noteq> [] \<and> nm = wanted js evs then Some (respond_description, mb_schema (ms_bridge s))
     else map_of (map (\<lambda>t. (tl_name t, tl_description t, if tl_schema t = [] then empty_schema else tl_schema t)) tools) nm)"
proof -
  have run: "mb_tools (ms_bridge s) = mb_tools b" "servers_ok sdk (ms_bridge s)"
    using mcp_run_servers[OF assms(1,2,3)] by simp_all
  have "mb_respond (ms_bridge s) = wanted js evs"
    using mcp_run_schema[OF assms(3)] new_mcp_Inr[OF assms(2)] by (simp add: schema_ok_def)
  moreover have "tools_offered (ms_bridge s) =
      map_of (map (\<lambda>t. (tl_name t, tl_description t, if tl_schema t = [] then empty_schema else tl_schema t)) tools)"
    using run(1) new_mcp_Inr[OF assms(2)] by (simp add: tools_offered_def comp_def with_schema_def if_distrib cong: if_cong)
  moreover have "sdk_offers sdk v = offered (ms_bridge s)" using run(2) assms(4) by (auto simp: servers_ok_def)
  ultimately show ?thesis by (auto simp: offered_def)
qed


text \<open>
  WaitListed misses no answer. Once its test would pass, a call of it that is under way can go
  on: at the test it returns nil, and one that waits on a channel finds that channel closed.
\<close>
theorem mcp_wait_no_lost_wake:
  assumes "new_mcp js tools name = Inr b" "mcp_run sdk js b evs s" "wait_done (ms_bridge s)"
    "ms_waits s w = Some pc" "\<forall>e. pc \<noteq> WaitOver e"
  shows "mcp_step sdk js s (WaitTests w) (s\<lparr>ms_waits := (ms_waits s)(w \<mapsto> WaitOver None)\<rparr>)
    \<or> mcp_step sdk js s (WaitWakes w) (s\<lparr>ms_waits := (ms_waits s)(w \<mapsto> WaitTest)\<rparr>)"
proof (cases pc)
  case WaitTest
  then show ?thesis using mcp_step.test[of s w sdk js] assms(3,4) by (simp add: wait_test_def)
next
  case (WaitSelect n)
  then have "n \<noteq> mb_answered (ms_bridge s)"
    using mcp_run_lists[OF assms(1,2)] assms(3,4) by (auto simp: waits_ok_def)
  then show ?thesis using mcp_step.wake[of s w n sdk js] assms(4) WaitSelect by simp
qed (use assms(5) in simp)

text \<open>A schema whose name is that of the schema in force leaves that one: the name holds 32 bits of its hash.\<close>

lemma set_schema_same_name:
  "respond_name schema = mb_respond b \<Longrightarrow> compile js schema = Inr r \<Longrightarrow> trim_space schema \<noteq> [] \<Longrightarrow>
     set_schema sdk js schema b = (b, None)"
  by (simp add: set_schema_def)

section \<open>An example\<close>

definition mcp_ex_sdk :: "(string \<Rightarrow> (string \<times> string) option) sdk" where
  "mcp_ex_sdk = \<lparr>sdk_new = (\<lambda>_ _. None), sdk_add = (\<lambda>n d s v. v(n \<mapsto> (d, s))), sdk_remove = (\<lambda>n v. v(n := None)), sdk_offers = id\<rparr>"

definition mcp_ex_schema :: string where
  "mcp_ex_schema = ''{\"type\":\"object\"}''"

definition mcp_ex_tool :: tool where
  "mcp_ex_tool = \<lparr>tl_name = ''add'', tl_description = ''adds'', tl_schema = [], tl_handler = Some (\<lambda>args. Inr args)\<rparr>"

definition mcp_ex_events :: "mcp_event list" where
  "mcp_ex_events = [Serve 0, ListArrives 0, WaitStarts 0, SetSchema mcp_ex_schema, ListAnswered 0, WaitTests 0, ListArrives 1, ListAnswered 1]"

lemma mcp_ex_sdk_ok: "sdk_ok mcp_ex_sdk"
  by (simp add: sdk_ok_def mcp_ex_sdk_def)

lemma mcp_ex_compile: "compile (\<lambda>s. Inr ()) mcp_ex_schema = Inr ()"
proof -
  have "validate_schema mcp_ex_schema = None" by code_simp
  then show ?thesis by (simp add: compile_def)
qed

lemma mcp_ex_new: "\<exists>b :: (unit, string \<Rightarrow> (string \<times> string) option) mcp_bridge. new_mcp (\<lambda>s. Inr ()) [mcp_ex_tool] [] = Inr b"
proof -
  have "tool_validate mcp_ex_tool = None" "validate_schema empty_schema = None" by code_simp+
  then show ?thesis unfolding new_mcp_accepts
    by (simp add: tool_accepted_def mcp_ex_tool_def has_prefix_def reserved_def with_schema_def compile_def)
qed

lemma mcp_ex_run:
  assumes "new_mcp (\<lambda>s. Inr ()) [mcp_ex_tool] [] = Inr b"
  shows "\<exists>s v. mcp_run mcp_ex_sdk (\<lambda>s. Inr ()) b mcp_ex_events s \<and> wait_done (ms_bridge s) \<and> ms_waits s 0 = Some (WaitSelect 1)
    \<and> (0, v) \<in> set (mb_servers (ms_bridge s))"
proof -
  note b = new_mcp_Inr[OF assms]
  have sc: "trim_space mcp_ex_schema \<noteq> []" by code_simp
  let ?js = "\<lambda>s. Inr () :: err + unit" let ?run = "mcp_run mcp_ex_sdk ?js b" let ?none = "\<lambda>_. None"
  define v0 where "v0 = snd (hd (mb_servers (new_server mcp_ex_sdk 0 b)))"
  define v1 where "v1 = install_respond mcp_ex_sdk (respond_name mcp_ex_schema) mcp_ex_schema v0"
  define st where "st srv sch res rsp gen lgen n ans ls ws = \<lparr>ms_bridge =
      \<lparr>mb_name = mb_name b, mb_tools = mb_tools b, mb_schema = sch, mb_resolved = res, mb_respond = rsp, mb_servers = srv,
        mb_gen = gen, mb_listed_gen = lgen, mb_started = n, mb_answered = ans\<rparr>, ms_listings = ls, ms_waits = ws\<rparr>"
    for srv :: "(nat \<times> (string \<Rightarrow> (string \<times> string) option)) list" and sch and res :: "unit option" and rsp gen lgen n ans ls ws
  note step = mcp_run.step[of mcp_ex_sdk ?js b]
  have b0: "mcp_start b = st [] [] None [] 0 0 0 0 ?none ?none" using b by (simp add: st_def mcp_start_def)
  have n0: "new_server mcp_ex_sdk 0 (ms_bridge (st [] [] None [] 0 0 0 0 ?none ?none)) = ms_bridge (st [(0, v0)] [] None [] 0 0 0 0 ?none ?none)"
    using b by (simp add: st_def v0_def new_server_def Let_def)
  have c0: "fst (set_schema mcp_ex_sdk ?js mcp_ex_schema (ms_bridge (st [(0, v0)] [] None [] 0 0 1 0 ls ws)))
      = ms_bridge (st [(0, v1)] mcp_ex_schema (Some ()) (respond_name mcp_ex_schema) 1 0 1 0 ls ws)" for ls ws
    using sc mcp_ex_compile by (simp add: set_schema_def st_def v1_def)
  have "?run [] (st [] [] None [] 0 0 0 0 ?none ?none)" using mcp_run.start[of mcp_ex_sdk ?js b] unfolding b0 .
  from step[OF this mcp_step.serve[of 0]] have "?run [Serve 0] (st [(0, v0)] [] None [] 0 0 0 0 ?none ?none)"
    unfolding n0 by (simp add: st_def)
  from step[OF this mcp_step.arrives[of _ 0, OF _ refl[THEN trans, OF list_arrives_def]]]
  have "?run [Serve 0, ListArrives 0] (st [(0, v0)] [] None [] 0 0 1 0 (?none(0 \<mapsto> 0)) ?none)"
    by (simp add: st_def)
  from step[OF this mcp_step.wait[of _ 0]]
  have "?run [Serve 0, ListArrives 0, WaitStarts 0] (st [(0, v0)] [] None [] 0 0 1 0 (?none(0 \<mapsto> 0)) (?none(0 \<mapsto> WaitTest)))"
    by (simp add: st_def)
  from step[OF this mcp_step.set_schema[of mcp_ex_sdk ?js _ mcp_ex_schema]]
  have "?run [Serve 0, ListArrives 0, WaitStarts 0, SetSchema mcp_ex_schema]
      (st [(0, v1)] mcp_ex_schema (Some ()) (respond_name mcp_ex_schema) 1 0 1 0 (?none(0 \<mapsto> 0)) (?none(0 \<mapsto> WaitTest)))"
    unfolding c0 by (simp add: st_def)
  from step[OF this mcp_step.answered[of _ 0 0]]
  have "?run [Serve 0, ListArrives 0, WaitStarts 0, SetSchema mcp_ex_schema, ListAnswered 0]
      (st [(0, v1)] mcp_ex_schema (Some ()) (respond_name mcp_ex_schema) 1 0 1 1 ?none (?none(0 \<mapsto> WaitTest)))"
    by (simp add: st_def list_answered_def)
  from step[OF this mcp_step.test[of _ 0]]
  have "?run [Serve 0, ListArrives 0, WaitStarts 0, SetSchema mcp_ex_schema, ListAnswered 0, WaitTests 0]
      (st [(0, v1)] mcp_ex_schema (Some ()) (respond_name mcp_ex_schema) 1 0 1 1 ?none (?none(0 \<mapsto> WaitSelect 1)))"
    by (simp add: st_def wait_test_def wait_done_def)
  from step[OF this mcp_step.arrives[of _ 1, OF _ refl[THEN trans, OF list_arrives_def]]]
  have "?run [Serve 0, ListArrives 0, WaitStarts 0, SetSchema mcp_ex_schema, ListAnswered 0, WaitTests 0, ListArrives 1]
      (st [(0, v1)] mcp_ex_schema (Some ()) (respond_name mcp_ex_schema) 1 0 2 1 (?none(1 \<mapsto> 1)) (?none(0 \<mapsto> WaitSelect 1)))"
    by (simp add: st_def numeral_2_eq_2)
  from step[OF this mcp_step.answered[of _ 1 1]]
  have "?run mcp_ex_events (st [(0, v1)] mcp_ex_schema (Some ()) (respond_name mcp_ex_schema) 1 1 2 2 ?none (?none(0 \<mapsto> WaitSelect 1)))"
    by (simp add: st_def list_answered_def mcp_ex_events_def numeral_2_eq_2)
  then show ?thesis by (intro exI conjI) (auto simp: st_def wait_done_def)
qed

lemma mcp_ex_wanted: "wanted (\<lambda>s. Inr ()) mcp_ex_events = respond_name mcp_ex_schema"
proof -
  have "trim_space mcp_ex_schema \<noteq> []" by code_simp
  then show ?thesis by (simp add: mcp_ex_events_def next_respond_def mcp_ex_compile)
qed

theorem mcp_respond_current_witness:
  "\<exists>(b :: (unit, string \<Rightarrow> (string \<times> string) option) mcp_bridge) s. mcp_run mcp_ex_sdk (\<lambda>s. Inr ()) b mcp_ex_events s
     \<and> respond_verdict (\<lambda>r v. None) (ms_bridge s) (respond_name mcp_ex_schema, ''null'') = Inr ''{}''
     \<and> (\<exists>e. respond_verdict (\<lambda>r v. None) (ms_bridge s) (''respond'', ''{}'') = Inl e)"
proof -
  obtain b :: "(unit, string \<Rightarrow> (string \<times> string) option) mcp_bridge" where b: "new_mcp (\<lambda>s. Inr ()) [mcp_ex_tool] [] = Inr b"
    using mcp_ex_new by blast
  obtain s where s: "mcp_run mcp_ex_sdk (\<lambda>s. Inr ()) b mcp_ex_events s" using mcp_ex_run[OF b] by blast
  have j: "json_valid ''{}''" by code_simp
  have a: "call_arguments (Some (n, ''null'')) = ''{}''" for n unfolding call_arguments_def by code_simp
  have l: "''respond'' \<noteq> respond_name mcp_ex_schema"
    by (simp add: respond_name_def Let_def respond_prefix_def)
  have v: "respond_verdict (\<lambda>r v. None) (ms_bridge s) (nm, args) = Inr v
      \<longleftrightarrow> nm = respond_name mcp_ex_schema \<and> v = call_arguments (Some (nm, args)) \<and> json_valid v" for nm args v
    using mcp_respond_current[OF b s, of "\<lambda>r v. None"] unfolding mcp_ex_wanted
    by (auto simp: validate_args_def split: if_splits)
  have "\<exists>e. respond_verdict (\<lambda>r v. None) (ms_bridge s) (''respond'', ''{}'') = Inl e"
    using v[of "''respond''" "''{}''"] l by (cases "respond_verdict (\<lambda>r v. None) (ms_bridge s) (''respond'', ''{}'')") auto
  moreover have "respond_verdict (\<lambda>r v. None) (ms_bridge s) (respond_name mcp_ex_schema, ''null'') = Inr ''{}''"
    using v[of "respond_name mcp_ex_schema" "''null''" "''{}''"] a[of "respond_name mcp_ex_schema"] j by metis
  ultimately show ?thesis using s by (intro exI[of _ b] exI[of _ s] conjI)
qed

theorem mcp_servers_offer_witness:
  "\<exists>(b :: (unit, string \<Rightarrow> (string \<times> string) option) mcp_bridge) s v. mcp_run mcp_ex_sdk (\<lambda>s. Inr ()) b mcp_ex_events s
     \<and> sdk_offers mcp_ex_sdk v (respond_name mcp_ex_schema) = Some (respond_description, mb_schema (ms_bridge s))"
proof -
  obtain b :: "(unit, string \<Rightarrow> (string \<times> string) option) mcp_bridge" where b: "new_mcp (\<lambda>s. Inr ()) [mcp_ex_tool] [] = Inr b"
    using mcp_ex_new by blast
  obtain s v where s: "mcp_run mcp_ex_sdk (\<lambda>s. Inr ()) b mcp_ex_events s" "(0, v) \<in> set (mb_servers (ms_bridge s))" using mcp_ex_run[OF b] by blast
  from mcp_servers_offer[OF mcp_ex_sdk_ok b s(1,2), of "respond_name mcp_ex_schema"] show ?thesis
    using s(1) unfolding mcp_ex_wanted by (intro exI conjI) auto
qed


theorem mcp_wait_no_lost_wake_witness:
  "\<exists>(b :: (unit, string \<Rightarrow> (string \<times> string) option) mcp_bridge) s s'. mcp_run mcp_ex_sdk (\<lambda>s. Inr ()) b mcp_ex_events s
     \<and> (\<exists>ev. mcp_step mcp_ex_sdk (\<lambda>s. Inr ()) s ev s' \<and> ev \<in> {WaitTests 0, WaitWakes 0})"
proof -
  obtain b :: "(unit, string \<Rightarrow> (string \<times> string) option) mcp_bridge" where b: "new_mcp (\<lambda>s. Inr ()) [mcp_ex_tool] [] = Inr b"
    using mcp_ex_new by blast
  obtain s where s: "mcp_run mcp_ex_sdk (\<lambda>s. Inr ()) b mcp_ex_events s" "wait_done (ms_bridge s)" "ms_waits s 0 = Some (WaitSelect 1)"
    using mcp_ex_run[OF b] by blast
  show ?thesis using mcp_wait_no_lost_wake[OF b s] s(1) by blast
qed

end
