(* ===== verification/Sse.thy ===== *)
theory Sse
  imports Runner_Ops Filestores
begin

text \<open>
  A run's events as Server-Sent Events (workflow/sse/sse.go): the request's cursor, the answer
  before a stream starts, and the stream. What the response's writer and its flush answer, and the
  JSON of an event, are arguments. The last section has the client of the HTML standard, which
  sends the last id it has seen when it connects again.
\<close>

section \<open>The cursor\<close>

definition sse_cursor :: "string \<Rightarrow> string \<Rightarrow> err + nat" where
  "sse_cursor header query =
     (let v = (if header = [] then query else header) in
      if v = [] then Inr 0
      else case parse_int v of
        None \<Rightarrow> Inl (Msg (''sse: cursor '' @ quote v @ '' is not a non-negative integer''))
      | Some n \<Rightarrow> if n < 0 then Inl (Msg (''sse: cursor '' @ quote v @ '' is not a non-negative integer'')) else Inr (nat n))"

section \<open>The answer\<close>

definition default_keepalive :: int where
  "default_keepalive = 15 * 10 ^ 9"

definition keepalive :: "int \<Rightarrow> int" where
  "keepalive opt = (if opt \<le> 0 then default_keepalive else opt)"

datatype sse_answer = HttpError nat string | NoContent | EventStream "wevent equeue"

definition sse_status :: "err \<Rightarrow> nat" where
  "sse_status e = (if err_is e ErrUnknownRun then 404 else 500)"

text \<open>\<open>reads\<close> and the two after it are what the store answers State and Subscribe.\<close>

definition sse_open ::
  "string \<Rightarrow> string \<Rightarrow> string \<Rightarrow> err option \<Rightarrow> err option \<Rightarrow> err option \<Rightarrow> runner \<Rightarrow> runner \<times> sse_answer" where
  "sse_open header query rid reads reads1 reads2 r =
     (case sse_cursor header query of
        Inl e \<Rightarrow> (r, HttpError 400 (err_text e))
      | Inr past \<Rightarrow>
          (case runner_state rid reads r of
             (_, Some e) \<Rightarrow> (r, HttpError (sse_status e) (err_text e))
           | (s, None) \<Rightarrow>
               if status_ended (ws_status s) \<and> ws_seq s \<le> past then (r, NoContent)
               else (case runner_subscribe rid past reads1 reads2 r of
                       (r, Inl e) \<Rightarrow> (r, HttpError (sse_status e) (err_text e))
                     | (r, Inr q) \<Rightarrow> (r, EventStream q))))"

section \<open>The stream\<close>

definition sse_frame :: "wevent \<Rightarrow> string \<Rightarrow> string" where
  "sse_frame e data =
     (if logged e
      then ''id: '' @ nat_text (we_seq e) @ [LF] @ ''event: '' @ kind_text (we_kind e) @ [LF] @ ''data: '' @ data @ [LF, LF]
      else ''event: '' @ kind_text KindExchange @ [LF] @ ''data: '' @ data @ [LF, LF])"

definition sse_comment :: string where
  "sse_comment = '': keepalive'' @ [LF, LF]"

text \<open>
  What the loop's select takes, with the marshalling of an event, and how many bytes a write
  that failed wrote. A flush that fails ends the stream.
\<close>

datatype sse_take =
    TakeDone
  | TakeClosed
  | TakeEvent wevent "err + string"
  | TakeTick

fun sse_loop :: "(sse_take \<times> nat option \<times> bool) list \<Rightarrow> string" where
  "sse_loop [] = []"
| "sse_loop ((t, fails, flushed) # ts) =
     (let go = (\<lambda>s. case fails of Some n \<Rightarrow> take n s | None \<Rightarrow> s @ (if flushed then sse_loop ts else [])) in
      case t of
        TakeDone \<Rightarrow> []
      | TakeClosed \<Rightarrow> []
      | TakeEvent e (Inl er) \<Rightarrow> []
      | TakeEvent e (Inr data) \<Rightarrow> go (sse_frame e data)
      | TakeTick \<Rightarrow> go sse_comment)"

text \<open>The headers are flushed before the loop.\<close>

definition sse_stream :: "bool \<Rightarrow> (sse_take \<times> nat option \<times> bool) list \<Rightarrow> string" where
  "sse_stream flushed ts = (if flushed then sse_loop ts else [])"

section \<open>The client\<close>

text \<open>
  An EventSource: its last event id, the fields of the event it is reading and the events it has
  dispatched, each with the id, type and data. The stream has no carriage return, so its lines end
  in line feeds alone.
\<close>

record es_client =
  es_last :: string
  es_id :: string
  es_type :: string
  es_data :: string
  es_got :: "(string \<times> string \<times> string) list"

definition es_connect :: "string \<Rightarrow> es_client" where
  "es_connect i = \<lparr>es_last = i, es_id = i, es_type = [], es_data = [], es_got = []\<rparr>"

definition es_field :: "string \<Rightarrow> string \<Rightarrow> es_client \<Rightarrow> es_client" where
  "es_field name v c =
     (if name = ''id'' then c\<lparr>es_id := v\<rparr>
      else if name = ''event'' then c\<lparr>es_type := v\<rparr>
      else if name = ''data'' then c\<lparr>es_data := es_data c @ v @ [LF]\<rparr>
      else c)"

definition es_line :: "string \<Rightarrow> es_client \<Rightarrow> es_client" where
  "es_line l c =
     (if l = [] then
        c\<lparr>es_last := es_id c, es_type := [], es_data := [],
          es_got := es_got c @ (if es_data c = [] then [] else [(es_id c, es_type c, butlast (es_data c))])\<rparr>
      else if hd l = CHR '':'' then c
      else let name = takeWhile (\<lambda>c. c \<noteq> CHR '':'') l; v = drop (length name + 1) l in
        es_field name (if v \<noteq> [] \<and> hd v = CHR '' '' then tl v else v) c)"

text \<open>The lines of a stream that have ended.\<close>

function es_lines :: "string \<Rightarrow> string list" where
  "es_lines s =
     (if LF \<in> set s then takeWhile (\<lambda>c. c \<noteq> LF) s # es_lines (drop 1 (dropWhile (\<lambda>c. c \<noteq> LF) s)) else [])"
  by pat_completeness auto
termination
  by (relation "measure length") (auto intro!: rest_shorter)

declare es_lines.simps [simp del]

definition es_read :: "string \<Rightarrow> es_client \<Rightarrow> es_client" where
  "es_read s c = fold es_line (es_lines s) c"

section \<open>Lines of the stream\<close>

text \<open>What the loop writes: for an event its frame, and a comment for a tick.\<close>

fun sse_chunks :: "(sse_take \<times> nat option \<times> bool) list \<Rightarrow> (wevent \<times> string) option list" where
  "sse_chunks [] = []"
| "sse_chunks ((TakeEvent e (Inr data), w) # ts) = Some (e, data) # sse_chunks ts"
| "sse_chunks ((TakeTick, w) # ts) = None # sse_chunks ts"
| "sse_chunks (t # ts) = []"

text \<open>The events a stream takes from its subscription, with their JSON.\<close>

fun sse_taken :: "(sse_take \<times> nat option \<times> bool) list \<Rightarrow> (wevent \<times> string) list" where
  "sse_taken [] = []"
| "sse_taken ((TakeEvent e (Inr data), w) # ts) = (e, data) # sse_taken ts"
| "sse_taken (t # ts) = sse_taken ts"

definition chunk_lines :: "(wevent \<times> string) option \<Rightarrow> string list" where
  "chunk_lines ch =
     (case ch of
        None \<Rightarrow> ['': keepalive'', []]
      | Some (e, data) \<Rightarrow>
          (if logged e then [''id: '' @ nat_text (we_seq e)] else [])
          @ [''event: '' @ kind_text (we_kind e), ''data: '' @ data, []])"

abbreviation stream_lines :: "(wevent \<times> string) option list \<Rightarrow> string list" where
  "stream_lines cs \<equiv> concat (map chunk_lines cs)"

lemma chunk_text: "lines (chunk_lines (Some (e, data))) = sse_frame e data" "lines (chunk_lines None) = sse_comment"
  by (simp_all add: chunk_lines_def sse_frame_def sse_comment_def write_line_def logged_def)

lemma sse_loop_Cons:
  "sse_loop (t # ts) =
     (let go = (\<lambda>s. case fst (snd t) of Some n \<Rightarrow> take n s | None \<Rightarrow> s @ (if snd (snd t) then sse_loop ts else [])) in
      case fst t of
        TakeDone \<Rightarrow> []
      | TakeClosed \<Rightarrow> []
      | TakeEvent e (Inl er) \<Rightarrow> []
      | TakeEvent e (Inr data) \<Rightarrow> go (sse_frame e data)
      | TakeTick \<Rightarrow> go sse_comment)"
  by (cases t; cases "snd t") simp

lemma sse_loop_prefix: "\<exists>k. sse_loop ts = take k (lines (stream_lines (sse_chunks ts)))"
proof (induction ts rule: sse_chunks.induct)
  case (2 e data w ts)
  then obtain k where k: "sse_loop ts = take k (lines (stream_lines (sse_chunks ts)))" by blast
  let ?f = "sse_frame e data" let ?r = "lines (stream_lines (sse_chunks ts))"
  have t: "lines (stream_lines (sse_chunks ((TakeEvent e (Inr data), w) # ts))) = ?f @ ?r"
    unfolding chunk_text(1)[symmetric] by simp
  have "?f @ sse_loop ts = take (length ?f + k) (?f @ ?r)" "?f = take (length ?f) (?f @ ?r)"
      "take n ?f = take (min n (length ?f)) (?f @ ?r)" for n
    using k by (simp_all add: take_all_iff min_def)
  then show ?case unfolding t by (cases w; cases "fst w") (auto simp: Let_def simp del: take_append)
next
  case (3 w ts)
  then obtain k where k: "sse_loop ts = take k (lines (stream_lines (sse_chunks ts)))" by blast
  let ?f = sse_comment let ?r = "lines (stream_lines (sse_chunks ts))"
  have t: "lines (stream_lines (sse_chunks ((TakeTick, w) # ts))) = ?f @ ?r"
    unfolding chunk_text(2)[symmetric] by simp
  have "?f @ sse_loop ts = take (length ?f + k) (?f @ ?r)" "?f = take (length ?f) (?f @ ?r)"
      "take n ?f = take (min n (length ?f)) (?f @ ?r)" for n
    using k by (simp_all add: take_all_iff min_def)
  then show ?case unfolding t by (cases w; cases "fst w") (auto simp: Let_def simp del: take_append)
qed (simp_all add: sse_loop_Cons Let_def)

lemma sse_chunks_taken: "prefix (List.map_filter id (sse_chunks ts)) (sse_taken ts)"
  by (induction ts rule: sse_chunks.induct) (simp_all add: List.map_filter_simps)

section \<open>What the client reads\<close>

lemma es_lines_line: "LF \<notin> set l \<Longrightarrow> es_lines (write_line l @ s) = l # es_lines s"
  by (subst es_lines.simps) (simp add: write_line_def fits_split)

lemma es_lines_part: "LF \<notin> set s \<Longrightarrow> es_lines s = []"
  by (subst es_lines.simps) simp

lemma es_lines_take: "list_all (\<lambda>l. LF \<notin> set l) ls \<Longrightarrow> \<exists>m. es_lines (take k (lines ls)) = take m ls"
proof (induction ls arbitrary: k)
  case Nil
  then show ?case by (simp add: es_lines_part)
next
  case (Cons l ls)
  show ?case
  proof (cases "k \<le> length l")
    case True
    then have "take k (lines (l # ls)) = take k l" by (simp add: write_line_def)
    moreover have "LF \<notin> set (take k l)" using Cons.prems by (auto dest: in_set_takeD)
    ultimately show ?thesis by (metis es_lines_part take0)
  next
    case False
    then have "take k (lines (l # ls)) = write_line l @ take (k - Suc (length l)) (lines ls)"
      by (simp add: write_line_def take_Cons')
    moreover obtain m where "es_lines (take (k - Suc (length l)) (lines ls)) = take m ls"
      using Cons.IH Cons.prems by force
    ultimately have "es_lines (take k (lines (l # ls))) = take (Suc m) (l # ls)"
      using Cons.prems by (simp add: es_lines_line)
    then show ?thesis by blast
  qed
qed

definition es_clean :: "es_client \<Rightarrow> bool" where
  "es_clean c \<longleftrightarrow> es_id c = es_last c \<and> es_type c = [] \<and> es_data c = []"

text \<open>The client after a whole frame or comment.\<close>

definition chunk_after :: "(wevent \<times> string) option \<Rightarrow> es_client \<Rightarrow> es_client" where
  "chunk_after ch c =
     (case ch of
        None \<Rightarrow> c
      | Some (e, data) \<Rightarrow>
          let i = (if logged e then nat_text (we_seq e) else es_id c) in
          c\<lparr>es_last := i, es_id := i, es_got := es_got c @ [(i, kind_text (we_kind e), data)]\<rparr>)"

lemma chunk_after_simps:
  "chunk_after None c = c"
  "chunk_after (Some (e, data)) c =
     (let i = (if logged e then nat_text (we_seq e) else es_id c) in
      c\<lparr>es_last := i, es_id := i, es_got := es_got c @ [(i, kind_text (we_kind e), data)]\<rparr>)"
  by (simp_all add: chunk_after_def)

lemma es_line_fields:
  "es_line [] c = c\<lparr>es_last := es_id c, es_type := [], es_data := [],
     es_got := es_got c @ (if es_data c = [] then [] else [(es_id c, es_type c, butlast (es_data c))])\<rparr>"
  "es_line (''id: '' @ v) c = c\<lparr>es_id := v\<rparr>"
  "es_line (''event: '' @ v) c = c\<lparr>es_type := v\<rparr>"
  "es_line (''data: '' @ v) c = c\<lparr>es_data := es_data c @ v @ [LF]\<rparr>"
  "es_line '': keepalive'' c = c"
  by (simp_all add: es_line_def es_field_def Let_def)

lemma chunk_read: "es_clean c \<Longrightarrow> fold es_line (chunk_lines ch) c = chunk_after ch c \<and> es_clean (chunk_after ch c)"
  by (cases ch) (auto simp: chunk_lines_def chunk_after_def es_line_fields es_clean_def Let_def simp del: append_Cons)

lemma chunk_part:
  assumes "j < length (chunk_lines ch)"
  shows "es_last (fold es_line (take j (chunk_lines ch)) c) = es_last c \<and> es_got (fold es_line (take j (chunk_lines ch)) c) = es_got c"
proof -
  have "j = 0 \<or> j = 1 \<or> j = 2 \<or> j = 3" using assms by (auto simp: chunk_lines_def split: option.splits if_splits)
  then show ?thesis using assms
    by (cases ch) (auto simp: chunk_lines_def es_line_fields numeral_2_eq_2 numeral_3_eq_3 split: if_splits simp del: append_Cons)
qed


lemma chunks_read:
  "es_clean c \<Longrightarrow> \<exists>n \<le> length cs. es_last (fold es_line (take m (stream_lines cs)) c) = es_last (fold chunk_after (take n cs) c)
     \<and> es_got (fold es_line (take m (stream_lines cs)) c) = es_got (fold chunk_after (take n cs) c)"
proof (induction cs arbitrary: c m)
  case (Cons ch cs)
  show ?case
  proof (cases "m < length (chunk_lines ch)")
    case True
    then show ?thesis using chunk_part[OF True, of c] by (intro exI[of _ 0]) simp
  next
    case False
    then obtain j where j: "m = length (chunk_lines ch) + j" using le_Suc_ex not_less by blast
    obtain n where "n \<le> length cs"
        "es_last (fold es_line (take j (stream_lines cs)) (chunk_after ch c)) = es_last (fold chunk_after (take n cs) (chunk_after ch c))"
        "es_got (fold es_line (take j (stream_lines cs)) (chunk_after ch c)) = es_got (fold chunk_after (take n cs) (chunk_after ch c))"
      using Cons.IH chunk_read[OF Cons.prems] by blast
    then show ?thesis using chunk_read[OF Cons.prems, of ch] unfolding j by (intro exI[of _ "Suc n"]) simp
  qed
qed simp

section \<open>Connecting again\<close>

text \<open>The cursor of the next request, after whole chunks of events the subscription delivered.\<close>

lemma cursor_after:
  assumes cur: "sse_cursor i q = Inr past" and log: "map we_seq log = [1..<Suc (length log)]" "length log < 2 ^ 63"
  shows "prefix (filter logged (map fst (List.map_filter id cs))) (drop past log) \<Longrightarrow>
    \<exists>past'. sse_cursor (es_last (fold chunk_after cs (es_connect i))) q = Inr past'
      \<and> filter logged (map fst (List.map_filter id cs)) @ drop past' log = drop past log
      \<and> es_id (fold chunk_after cs (es_connect i)) = es_last (fold chunk_after cs (es_connect i))"
proof (induction cs rule: rev_induct)
  case Nil
  then show ?case using cur by (simp add: es_connect_def List.map_filter_simps)
next
  case (snoc ch cs)
  have snd: "List.map_filter id (cs @ [ch]) = List.map_filter id cs @ (case ch of None \<Rightarrow> [] | Some p \<Rightarrow> [p])"
    by (simp add: List.map_filter_def split: option.split)
  have "prefix (filter logged (map fst (List.map_filter id cs))) (drop past log)"
    using snoc.prems append_prefixD unfolding snd map_append filter_append by blast
  then obtain p where p: "sse_cursor (es_last (fold chunk_after cs (es_connect i))) q = Inr p"
      "filter logged (map fst (List.map_filter id cs)) @ drop p log = drop past log"
      "es_id (fold chunk_after cs (es_connect i)) = es_last (fold chunk_after cs (es_connect i))"
    using snoc.IH by blast
  show ?case
  proof (cases "\<exists>e data. ch = Some (e, data) \<and> logged e")
    case False
    then show ?thesis using p unfolding snd by (cases ch) (auto simp: chunk_after_simps Let_def)
  next
    case True
    then obtain e data where e: "ch = Some (e, data)" "logged e" by blast
    have "prefix (filter logged (map fst (List.map_filter id cs)) @ [e]) (filter logged (map fst (List.map_filter id cs)) @ drop p log)"
      using snoc.prems e unfolding snd p(2) by simp
    then have "prefix [e] (drop p log)" by simp
    then obtain r where r: "drop p log = e # r" by (auto simp: prefix_def)
    then have l: "p < length log" "log ! p = e" "r = drop (Suc p) log"
      by (metis drop_eq_Nil linorder_not_le list.distinct(1), metis nth_via_drop, metis Cons_nth_drop_Suc drop_eq_Nil linorder_not_le list.distinct(1) list.inject)
    have "map we_seq log ! p = [1..<Suc (length log)] ! p" using log(1) by simp
    then have s: "we_seq e = Suc p" using l(1,2) by (simp del: upt_Suc)
    have "sse_cursor (nat_text (Suc p)) q = Inr (Suc p)"
      using parse_nat_text[of "Suc p"] nat_text_read(3)[of "Suc p"] l(1) log(2)
      by (simp add: sse_cursor_def)
    then show ?thesis using p(2) r l(3) e s unfolding snd by (simp add: chunk_after_simps Let_def)
  qed
qed

lemma chunks_got:
  "map snd (es_got (fold chunk_after cs c)) = map snd (es_got c) @ map (\<lambda>(e, d). (kind_text (we_kind e), d)) (List.map_filter id cs)"
  by (induction cs arbitrary: c)
    (auto simp: chunk_after_simps Let_def List.map_filter_simps split: option.split)

definition plain_take :: "sse_take \<times> nat option \<times> bool \<Rightarrow> bool" where
  "plain_take t \<longleftrightarrow> (case fst t of TakeEvent e (Inr data) \<Rightarrow> LF \<notin> set (kind_text (we_kind e)) \<and> LF \<notin> set data | _ \<Rightarrow> True)"

lemma nat_text_plain: "LF \<notin> set (nat_text n)"
  using nat_text_read(2)[of n] by (auto simp: list_all_iff is_digit_def less_eq_char_def)

lemma stream_lines_plain: "list_all plain_take ts \<Longrightarrow> list_all (\<lambda>l. LF \<notin> set l) (stream_lines (sse_chunks ts))"
  by (induction ts rule: sse_chunks.induct) (auto simp: plain_take_def chunk_lines_def nat_text_plain)

section \<open>Properties\<close>

text \<open>
  C5: a client that connects again misses and repeats nothing. A stream that started after the
  cursor delivers events its subscription to the log gave it, of one line of JSON each; however
  the connection breaks, after whatever bytes, the client has dispatched the first of those events
  with their types and data, and the cursor of its next request is that of the logged events it
  lacks: what it has and what the log holds after the new cursor make up the log after the old.
\<close>
theorem sse_resumes:
  assumes "sse_cursor i q = Inr past" "map we_seq log = [1..<Suc (length log)]" "length log < 2 ^ 63"
    "prefix (filter logged (map fst (sse_taken ts))) (drop past log)" "list_all plain_take ts"
    "c = es_read (take k (sse_stream flushed ts)) (es_connect i)"
  shows "\<exists>n past'. map snd (es_got c) = map (\<lambda>(e, d). (kind_text (we_kind e), d)) (take n (sse_taken ts))
    \<and> sse_cursor (es_last c) q = Inr past'
    \<and> filter logged (map fst (take n (sse_taken ts))) @ drop past' log = drop past log"
proof -
  let ?cs = "sse_chunks ts"
  obtain k' where "take k (sse_stream flushed ts) = take k' (lines (stream_lines ?cs))"
  proof -
    obtain k0 where "sse_loop ts = take k0 (lines (stream_lines ?cs))" using sse_loop_prefix by blast
    then show ?thesis using that[of "min k k0"] that[of 0] by (cases flushed) (simp_all add: sse_stream_def)
  qed
  moreover obtain m where "es_lines (take k' (lines (stream_lines ?cs))) = take m (stream_lines ?cs)"
    using es_lines_take[OF stream_lines_plain[OF assms(5)]] by blast
  ultimately have "c = fold es_line (take m (stream_lines ?cs)) (es_connect i)" using assms(6) by (simp add: es_read_def)
  moreover have "es_clean (es_connect i)" by (simp add: es_clean_def es_connect_def)
  ultimately obtain n where n: "es_last c = es_last (fold chunk_after (take n ?cs) (es_connect i))"
      "es_got c = es_got (fold chunk_after (take n ?cs) (es_connect i))"
    using chunks_read by blast
  let ?got = "List.map_filter id (take n ?cs)"
  have pre: "prefix ?got (sse_taken ts)"
  proof -
    have "prefix ?got (List.map_filter id ?cs)"
      by (metis append_take_drop_id List.map_filter_def filter_append map_append prefixI)
    then show ?thesis using sse_chunks_taken prefix_order.trans by blast
  qed
  then obtain j where j: "?got = take j (sse_taken ts)" by (metis append_eq_conv_conj prefix_def)
  have "prefix (filter logged (map fst ?got)) (drop past log)"
    using pre assms(4) by (meson map_mono_prefix filter_mono_prefix prefix_order.trans)
  from cursor_after[OF assms(1-3) this] obtain past' where
    "sse_cursor (es_last c) q = Inr past'" "filter logged (map fst ?got) @ drop past' log = drop past log"
    using n(1) by auto
  moreover have "map snd (es_got c) = map (\<lambda>(e, d). (kind_text (we_kind e), d)) ?got"
    unfolding n(2) chunks_got by (simp add: es_connect_def)
  ultimately show ?thesis unfolding j by blast
qed


definition sse_takes :: "(sse_take \<times> nat option \<times> bool) list" where
  "sse_takes =
     [(TakeEvent (one_event 1) (Inr (one_line 1)), None, True), (TakeTick, None, True),
      (TakeEvent (one_event 2) (Inr (one_line 2)), Some 20, True)]"

theorem sse_resumes_witness:
  "\<exists>n past'. sse_cursor (es_last (es_read (take 100 (sse_stream True sse_takes)) (es_connect []))) [] = Inr past'
     \<and> filter logged (take n [one_event 1, one_event 2]) @ drop past' [one_event 1, one_event 2] = [one_event 1, one_event 2]"
proof -
  have c: "sse_cursor [] [] = Inr 0" by (simp add: sse_cursor_def)
  have taken: "map fst (sse_taken sse_takes) = [one_event 1, one_event 2]" by (simp add: sse_takes_def)
  have l: "filter logged [one_event 1, one_event 2] = [one_event 1, one_event 2]"
    by (simp add: logged_def one_event_def wevent_of_def)
  have lines: "LF \<notin> set (one_line n)" for n by (simp add: one_line_def nat_text_plain quote_def quote_char_def Let_def)
  have plain: "list_all plain_take sse_takes" using lines by (simp add: sse_takes_def plain_take_def one_event_def wevent_of_def)
  have log: "map we_seq [one_event 1, one_event 2] = [1..<Suc (length [one_event 1, one_event 2])]"
    by (simp add: one_event_def wevent_of_def)
  have p: "prefix (filter logged (map fst (sse_taken sse_takes))) (drop 0 [one_event 1, one_event 2])"
    unfolding taken l by simp
  show ?thesis using sse_resumes[OF c log _ p plain refl, of 100 True] unfolding take_map[symmetric] taken by auto
qed

end
