(* ===== verification/Json_Roundtrip.thy ===== *)
theory Json_Roundtrip
  imports Json_Encode
begin

text \<open>
  What json.Marshal writes, json.Unmarshal reads back: strings byte for byte, numbers, arrays and
  objects with their members, each beside the text it was written as (\<open>marshal_parse\<close>).
\<close>

section \<open>Strings\<close>

lemma char_code: "c = d \<longleftrightarrow> (of_char c :: nat) = of_char d"
  by simp

lemma hex_val_digit: "hex_val (hex_digit n) = Some (n mod 16)"
proof -
  have "\<forall>k < 16. hex_val (''0123456789abcdef'' ! k) = Some k"
    by (simp add: hex_val_def numeral_eq_Suc All_less_Suc)
  then show ?thesis by (simp add: hex_digit_def)
qed

lemma hex4_char:
  assumes "n < 256"
  shows "hex4 (CHR ''0'' # CHR ''0'' # hex_digit (n div 16) # hex_digit n # s) = Some n"
proof -
  have "hex_val CHR ''0'' = Some 0" by (simp add: hex_val_def)
  moreover have "n div 16 mod 16 * 16 + n mod 16 = n" using assms by simp
  ultimately show ?thesis by (simp add: hex4_def hex_val_digit mult.commute)
qed

lemma str_body_u:
  assumes "hex4 s = Some u" "u < 0xD800"
  shows "str_body (CHR 0x5C # CHR ''u'' # s) = map_option (apfst ((@) (utf8 u))) (str_body (drop 4 s))"
  using assms by (subst str_body.simps) simp

lemma json_char_reads: "str_body (json_char c @ s) = map_option (apfst ((#) c)) (str_body s)"
proof -
  let ?n = "of_char c :: nat"
  consider "?n = 34 \<or> ?n = 92" | "?n = 8" | "?n = 12" | "?n = 10" | "?n = 13" | "?n = 9"
    | (hex) "(?n < 32 \<or> c = CHR ''<'' \<or> c = CHR ''>'' \<or> c = CHR ''&'')" "?n \<notin> {8, 9, 10, 12, 13, 34, 92}"
    | (plain) "\<not> (?n < 32 \<or> c = CHR ''<'' \<or> c = CHR ''>'' \<or> c = CHR ''&'')" "?n \<notin> {34, 92}"
    by auto
  then show ?thesis
  proof cases
    case hex
    then have n: "?n < 128" by auto
    have e: "json_char c = CHR 0x5C # CHR ''u'' # CHR ''0'' # CHR ''0'' # [hex_digit (?n div 16), hex_digit ?n]"
      using hex by (simp add: json_char_def Let_def)
    have u: "utf8 ?n = [c]" "(@) [c] = (#) c" using n by (simp_all add: utf8_def fun_eq_iff)
    have "str_body (json_char c @ s) = map_option (apfst ((@) (utf8 ?n))) (str_body s)"
      unfolding e using str_body_u[OF hex4_char[of ?n s]] n by (simp del: str_body.simps)
    then show ?thesis unfolding u .
  next
    case plain
    then have e: "json_char c = [c]" by (simp add: json_char_def Let_def)
    have "c \<noteq> CHR 0x22" "c \<noteq> CHR 0x5C" "\<not> ?n < 32" using plain by auto
    then show ?thesis unfolding e by (subst append_Cons, subst str_body.simps) simp
  next
    case 1
    then have "c = CHR 0x22 \<or> c = CHR 0x5C" by (simp add: char_code)
    then show ?thesis by (auto simp: json_char_def simple_escape_def)
  next
    case 2
    then have "c = CHR 0x08" by (simp add: char_code)
    then show ?thesis by (simp add: json_char_def simple_escape_def)
  next
    case 3
    then have "c = CHR 0x0C" by (simp add: char_code)
    then show ?thesis by (simp add: json_char_def simple_escape_def)
  next
    case 4
    then have "c = CHR 0x0A" by (simp add: char_code)
    then show ?thesis by (simp add: json_char_def simple_escape_def)
  next
    case 5
    then have "c = CHR 0x0D" by (simp add: char_code)
    then show ?thesis by (simp add: json_char_def simple_escape_def)
  next
    case 6
    then have "c = CHR 0x09" by (simp add: char_code)
    then show ?thesis by (simp add: json_char_def simple_escape_def)
  qed
qed

lemma separator_reads:
  assumes "separator (c # s) = Some e"
  shows "str_body (e @ t) = map_option (apfst ((@) (take 3 (c # s)))) (str_body t)"
proof -
  consider "take 3 (c # s) = [CHR 0xE2, CHR 0x80, CHR 0xA8]" "e = CHR 0x5C # ''u2028''"
    | "take 3 (c # s) = [CHR 0xE2, CHR 0x80, CHR 0xA9]" "e = CHR 0x5C # ''u2029''"
    using assms by (auto simp: separator_def split: if_splits)
  then show ?thesis
  proof cases
    case 1
    have "hex4 (''2028'' @ t) = Some 0x2028" by (simp add: hex4_def hex_val_def)
    moreover have "utf8 0x2028 = [CHR 0xE2, CHR 0x80, CHR 0xA8]" by (simp add: utf8_def char_of_eq_iff take_bit_eq_mod)
    ultimately show ?thesis unfolding 1 using str_body_u[of "''2028'' @ t" "0x2028"] by simp
  next
    case 2
    have "hex4 (''2029'' @ t) = Some 0x2029" by (simp add: hex4_def hex_val_def)
    moreover have "utf8 0x2029 = [CHR 0xE2, CHR 0x80, CHR 0xA9]" by (simp add: utf8_def char_of_eq_iff take_bit_eq_mod)
    ultimately show ?thesis unfolding 2 using str_body_u[of "''2029'' @ t" "0x2029"] by simp
  qed
qed

lemma json_chars_reads: "str_body (json_chars s @ CHR 0x22 # r) = Some (s, r)"
proof (induction s rule: json_chars.induct)
  case (2 c s)
  show ?case
  proof (cases "separator (c # s)")
    case None
    then show ?thesis using 2 by (simp add: json_char_reads)
  next
    case (Some e)
    have "take 3 (c # s) @ drop 2 s = c # s"
      by (metis append_take_drop_id drop_Suc_Cons numeral_3_eq_3 numeral_2_eq_2)
    then show ?thesis using 2 Some separator_reads[OF Some, of "json_chars (drop 2 s) @ CHR 0x22 # r"] by simp
  qed
qed simp


section \<open>Numbers\<close>

text \<open>What may follow a value inside a document.\<close>

definition stop :: "string \<Rightarrow> bool" where
  "stop r \<longleftrightarrow> r = [] \<or> hd r \<in> {CHR '','', CHR ''}'', CHR '']''}"

lemma digits_acc_hd: "0 < n \<Longrightarrow> n < k \<Longrightarrow> hd (digits_acc k n acc) \<noteq> CHR ''0'' \<and> digits_acc k n acc \<noteq> []"
proof (induction k arbitrary: n acc)
  case (Suc k)
  show ?case
  proof (cases "n < 10")
    case True
    have "char_of (48 + n) \<noteq> CHR ''0''"
    proof
      assume "char_of (48 + n) = CHR ''0''"
      then have "(of_char (char_of (48 + n)) :: nat) = 48" by simp
      then show False using True Suc.prems by (simp add: take_bit_eq_mod)
    qed
    then show ?thesis using True Suc.prems by (simp add: Let_def)
  next
    case False
    then have "0 < n div 10" "n div 10 < k" using Suc.prems by auto
    then show ?thesis using Suc.IH False by (simp add: Let_def)
  qed
qed simp

lemma nat_text_0: "nat_text 0 = ''0''"
  by (simp add: nat_text_def char_of_eq_iff)

lemma scan_nat_text:
  assumes "stop r"
  shows "scan_int (nat_text n @ r) = Some (nat_text n, r)"
proof (cases "n = 0")
  case True
  then show ?thesis by (simp add: nat_text_0 scan_int_def)
next
  case False
  obtain c t where ct: "nat_text n = c # t" using nat_text_read(3)[of n] by (cases "nat_text n") auto
  have "c \<noteq> CHR ''0''" using digits_acc_hd[of n "Suc n" "[]"] False ct by (simp add: nat_text_def del: digits_acc.simps)
  moreover have "takeWhile is_digit (nat_text n @ r) = nat_text n" "dropWhile is_digit (nat_text n @ r) = r"
    using nat_text_read(2)[of n] assms
    by (auto simp: list_all_iff stop_def takeWhile_append dropWhile_append takeWhile_eq_Nil_iff is_digit_def less_eq_char_def
        dropWhile_eq_self_iff)
  ultimately show ?thesis using ct by (simp add: scan_int_def scan_digits_def)
qed

lemma scan_int_text: "stop r \<Longrightarrow> scan_number (int_text i @ r) = Some (int_text i, r)"
proof -
  assume r: "stop r"
  have tail: "scan_frac r = Some ([], r)" "scan_exp r = Some ([], r)"
    using r by (auto simp: stop_def scan_frac_def scan_exp_def split: list.split)
  have "nat_text (nat i) \<noteq> []" "hd (nat_text (nat i)) \<noteq> CHR ''-''"
    using nat_text_read(2,3)[of "nat i"] by (cases "nat_text (nat i)"; auto simp: is_digit_def less_eq_char_def)+
  then obtain c t where "nat_text (nat i) = c # t" "c \<noteq> CHR ''-''" by (cases "nat_text (nat i)") auto
  then show ?thesis using scan_nat_text[OF r, of "nat i"] scan_nat_text[OF r, of "nat (- i)"] tail
    by (cases "i < 0") (simp_all add: scan_number_def int_text_def)
qed

section \<open>Documents\<close>

text \<open>A text that the parser reads as a value, wherever it stands in a document.\<close>

definition reads_as :: "string \<Rightarrow> json \<Rightarrow> bool" where
  "reads_as t j \<longleftrightarrow>
     t \<noteq> [] \<and> \<not> is_ws (hd t) \<and> hd t \<noteq> CHR '']'' \<and> hd t \<noteq> CHR ''}''
     \<and> (\<forall>r n. stop r \<longrightarrow> 2 * length (t @ r) < n \<longrightarrow> jvalue n (t @ r) = Some (j, r))"

lemma skip_ws_not: "s \<noteq> [] \<Longrightarrow> \<not> is_ws (hd s) \<Longrightarrow> skip_ws (s @ r) = s @ r"
  by (cases s) (simp_all add: skip_ws_def)

lemma skip_ws_stop: "c \<in> {CHR '','', CHR '']'', CHR ''}'', CHR '':'', CHR 0x22} \<Longrightarrow> skip_ws (c # r) = c # r"
  by (auto simp: skip_ws_def is_ws_def)

lemma reads_as_jvalue: "reads_as t j \<Longrightarrow> stop r \<Longrightarrow> 2 * length (t @ r) < n \<Longrightarrow> jvalue n (t @ r) = Some (j, r)"
  by (simp add: reads_as_def)

lemma span_append [simp]: "span (t @ r) r = t"
  by (simp add: span_def)

lemma reads_as_elems:
  "list_all (\<lambda>(t, j). reads_as t j) tjs \<Longrightarrow> tjs \<noteq> [] \<Longrightarrow> Suc (2 * length (join '','' (map fst tjs) @ CHR '']'' # r)) < n \<Longrightarrow>
     jelems n (join '','' (map fst tjs) @ CHR '']'' # r) = Some (tjs, r)"
proof (induction tjs arbitrary: n)
  case (Cons tj tjs)
  obtain t j where tj: "tj = (t, j)" by (cases tj)
  obtain m where n: "n = Suc m" using Cons.prems(3) by (cases n) auto
  have t: "reads_as t j" using Cons.prems(1) tj by simp
  show ?case
  proof (cases tjs)
    case Nil
    have "jvalue m (t @ CHR '']'' # r) = Some (j, CHR '']'' # r)"
      using Cons.prems(3) Nil tj n by (intro reads_as_jvalue[OF t]) (simp_all add: stop_def)
    then show ?thesis using Nil tj n by (simp add: skip_ws_stop)
  next
    case (Cons tj' tjs')
    let ?rest = "join '','' (map fst tjs) @ CHR '']'' # r"
    have s: "join '','' (map fst (tj # tjs)) @ CHR '']'' # r = t @ CHR '','' # ?rest" using Cons tj by simp
    have v: "jvalue m (t @ CHR '','' # ?rest) = Some (j, CHR '','' # ?rest)"
      using Cons.prems(3) n unfolding s by (intro reads_as_jvalue[OF t]) (simp_all add: stop_def)
    have "reads_as (fst tj') (snd tj')" using Cons.prems(1) Cons by (cases tj') simp
    then have "fst tj' \<noteq> []" "\<not> is_ws (hd (fst tj'))" by (simp_all add: reads_as_def)
    then have ws: "skip_ws ?rest = ?rest" using Cons
      by (cases tjs') (simp_all add: skip_ws_not)
    have "jelems m ?rest = Some (tjs, r)"
      using Cons.IH[of m] Cons.prems Cons n unfolding s by simp
    then show ?thesis unfolding s n using v ws tj by (simp add: skip_ws_stop)
  qed
qed simp


lemma json_string_Cons: "json_string k @ r = CHR 0x22 # (json_chars k @ CHR 0x22 # r)"
  by (simp add: json_string_def)

lemma reads_as_members:
  "list_all (\<lambda>(k, t, j). reads_as t j) ms \<Longrightarrow> ms \<noteq> [] \<Longrightarrow>
     2 * length (join '','' (map (\<lambda>(k, t, j). json_string k @ '':'' @ t) ms) @ CHR ''}'' # r) < n \<Longrightarrow>
     jmembers n (join '','' (map (\<lambda>(k, t, j). json_string k @ '':'' @ t) ms) @ CHR ''}'' # r) = Some (ms, r)"
proof (induction ms arbitrary: n)
  case (Cons m ms)
  obtain k t j where m: "m = (k, t, j)" by (cases m)
  obtain i where n: "n = Suc i" using Cons.prems(3) by (cases n) auto
  have t: "reads_as t j" using Cons.prems(1) m by simp
  then have tw: "t \<noteq> []" "\<not> is_ws (hd t)" by (simp_all add: reads_as_def)
  show ?case
  proof (cases ms)
    case Nil
    have "jvalue i (t @ CHR ''}'' # r) = Some (j, CHR ''}'' # r)"
      using Cons.prems(3) Nil m n by (intro reads_as_jvalue[OF t]) (simp_all add: stop_def)
    then show ?thesis using Nil m n tw by (simp add: json_string_Cons json_chars_reads skip_ws_stop skip_ws_not del: str_body.simps)
  next
    case (Cons m' ms')
    let ?rest = "join '','' (map (\<lambda>(k, t, j). json_string k @ '':'' @ t) ms) @ CHR ''}'' # r"
    have s: "join '','' (map (\<lambda>(k, t, j). json_string k @ '':'' @ t) (m # ms)) @ CHR ''}'' # r
        = CHR 0x22 # json_chars k @ CHR 0x22 # CHR '':'' # t @ CHR '','' # ?rest"
      using Cons m by (simp add: json_string_def)
    have v: "jvalue i (t @ CHR '','' # ?rest) = Some (j, CHR '','' # ?rest)"
      using Cons.prems(3) n unfolding s by (intro reads_as_jvalue[OF t]) (simp_all add: stop_def)
    have ws: "skip_ws ?rest = ?rest" using Cons
      by (cases m'; cases ms') (simp_all add: json_string_Cons skip_ws_stop)
    have "jmembers i ?rest = Some (ms, r)"
      using Cons.IH[of i] Cons.prems Cons n unfolding s by simp
    then show ?thesis unfolding s n using v ws m tw
      by (simp add: json_chars_reads skip_ws_stop skip_ws_not del: str_body.simps)
  qed
qed simp

lemma reads_as_string: "reads_as (json_string s) (JStr s)"
proof -
  have "jvalue n (json_string s @ r) = Some (JStr s, r)" if n: "2 * length (json_string s @ r) < n" for n r
  proof -
    obtain i where "n = Suc i" using n by (cases n) auto
    then show ?thesis by (simp add: json_string_Cons json_chars_reads del: str_body.simps)
  qed
  then show ?thesis by (simp add: reads_as_def json_string_def is_ws_def)
qed

lemma reads_as_lit: "reads_as ''null'' JNull" "reads_as ''true'' (JBool True)" "reads_as ''false'' (JBool False)"
proof -
  have "jvalue n (''null'' @ r) = Some (JNull, r)" "jvalue n (''true'' @ r) = Some (JBool True, r)"
      "jvalue n (''false'' @ r) = Some (JBool False, r)" if "0 < n" for n r
    using that by (cases n; simp add: scan_lit_def has_prefix_def)+
  then show "reads_as ''null'' JNull" "reads_as ''true'' (JBool True)" "reads_as ''false'' (JBool False)"
    unfolding reads_as_def by (auto simp: is_ws_def)
qed

lemma int_text_head: "\<exists>c t. int_text i = c # t \<and> (is_digit c \<or> c = CHR ''-'')"
proof -
  obtain c t where "nat_text (nat i) = c # t" "is_digit c"
    using nat_text_read(2,3)[of "nat i"] by (cases "nat_text (nat i)") auto
  then show ?thesis by (auto simp: int_text_def)
qed

lemma reads_as_int: "reads_as (int_text i) (JNum (int_text i))"
proof -
  obtain c t where c: "int_text i = c # t" "is_digit c \<or> c = CHR ''-''" using int_text_head by blast
  have d: "c \<noteq> CHR ''{''" "c \<noteq> CHR ''[''" "c \<noteq> CHR 0x22" "c \<noteq> CHR ''n''" "c \<noteq> CHR ''t''" "c \<noteq> CHR ''f''"
      "c \<noteq> CHR '']''" "c \<noteq> CHR ''}''" "\<not> is_ws c"
    using c(2) by (auto simp: is_digit_def less_eq_char_def is_ws_def)
  have "jvalue n (int_text i @ r) = Some (JNum (int_text i), r)" if r: "stop r" and n: "2 * length (int_text i @ r) < n" for n r
  proof -
    obtain m where "n = Suc m" using n by (cases n) auto
    then show ?thesis using scan_int_text[OF r, of i] d by (simp add: c(1))
  qed
  then show ?thesis using d c(1) by (simp add: reads_as_def)
qed

lemma reads_as_array:
  assumes "list_all (\<lambda>(t, j). reads_as t j) tjs"
  shows "reads_as (json_array (map fst tjs)) (JArr tjs)"
proof -
  have "jvalue n (json_array (map fst tjs) @ r) = Some (JArr tjs, r)" if n: "2 * length (json_array (map fst tjs) @ r) < n" for n r
  proof -
    obtain m where m: "n = Suc m" using n by (cases n) auto
    show ?thesis
    proof (cases tjs)
      case Nil
      then show ?thesis by (simp add: m json_array_def skip_ws_stop)
    next
      case (Cons tj tjs')
      let ?s = "join '','' (map fst tjs) @ CHR '']'' # r"
      have "jelems m ?s = Some (tjs, r)"
        using n m Cons by (intro reads_as_elems[OF assms]) (simp_all add: json_array_def)
      moreover have "reads_as (fst tj) (snd tj)" using assms Cons by (cases tj) simp
      then have "\<exists>c t. ?s = c # t \<and> c \<noteq> CHR '']'' \<and> \<not> is_ws c"
        using Cons by (cases "fst tj"; cases tjs') (auto simp: reads_as_def)
      then obtain c t where "?s = c # t" "c \<noteq> CHR '']''" "\<not> is_ws c" by blast
      ultimately show ?thesis by (simp add: m json_array_def skip_ws_def)
    qed
  qed
  then show ?thesis by (simp add: reads_as_def json_array_def is_ws_def)
qed

lemma reads_as_object:
  assumes "list_all (\<lambda>(k, t, j). reads_as t j) ms"
  shows "reads_as (json_object (map (\<lambda>(k, t, j). (k, t)) ms)) (JObj ms)"
proof -
  let ?o = "json_object (map (\<lambda>(k, t, j). (k, t)) ms)" let ?b = "join '','' (map (\<lambda>(k, t, j). json_string k @ '':'' @ t) ms)"
  have o: "?o = CHR ''{'' # ?b @ ''}''" by (simp add: json_object_def comp_def case_prod_unfold)
  have "jvalue n (?o @ r) = Some (JObj ms, r)" if n: "2 * length (?o @ r) < n" for n r
  proof -
    obtain m where m: "n = Suc m" using n by (cases n) auto
    show ?thesis
    proof (cases ms)
      case Nil
      then show ?thesis unfolding o by (simp add: m skip_ws_stop)
    next
      case (Cons m' ms')
      have "jmembers m (?b @ CHR ''}'' # r) = Some (ms, r)"
        using n m Cons unfolding o by (intro reads_as_members[OF assms]) simp_all
      moreover have "\<exists>t. ?b @ CHR ''}'' # r = CHR 0x22 # t"
        using Cons by (cases m'; cases ms') (simp_all add: json_string_def)
      then obtain t where "?b @ CHR ''}'' # r = CHR 0x22 # t" by blast
      ultimately show ?thesis unfolding o by (simp add: m skip_ws_stop)
    qed
  qed
  then show ?thesis unfolding o by (simp add: reads_as_def is_ws_def)
qed

section \<open>Marshal, then Unmarshal\<close>

text \<open>
  The value a marshalled one reads back as. A RawMessage here is the text of an integer.
\<close>

fun plain_val :: "goval \<Rightarrow> bool" where
  "plain_val (GRaw r) \<longleftrightarrow> (\<exists>i. r = int_text i)"
| "plain_val (GList vs) \<longleftrightarrow> (\<forall>v \<in> set vs. plain_val v)"
| "plain_val (GStruct ms) \<longleftrightarrow> (\<forall>m \<in> set ms. plain_val (snd m))"
| "plain_val (GMap ms) \<longleftrightarrow> (\<forall>m \<in> set ms. plain_val (snd m))"
| "plain_val v \<longleftrightarrow> True"

fun jval :: "goval \<Rightarrow> json" where
  "jval GNull = JNull"
| "jval (GBool b) = JBool b"
| "jval (GInt i) = JNum (int_text i)"
| "jval (GStr s) = JStr s"
| "jval (GRaw r) = JNum r"
| "jval (GList vs) = JArr (map (\<lambda>v. (the (marshal v), jval v)) vs)"
| "jval (GStruct ms) = JObj (map (\<lambda>m. (fst m, the (marshal (snd m)), jval (snd m))) ms)"
| "jval (GMap ms) = JObj (sort_key fst (map (\<lambda>m. (fst m, the (marshal (snd m)), jval (snd m))) ms))"

lemma marshal_list_Some: "marshal_list vs = Some ts \<Longrightarrow> ts = map (\<lambda>v. the (marshal v)) vs \<and> (\<forall>v \<in> set vs. marshal v \<noteq> None)"
proof (induction vs arbitrary: ts)
  case (Cons v vs)
  then obtain t ts' where "marshal v = Some t" "marshal_list vs = Some ts'" "ts = t # ts'" by (auto split: option.splits)
  then show ?case using Cons.IH[of ts'] by simp
qed simp

lemma marshal_members_Some:
  "marshal_members ms = Some rs \<Longrightarrow> rs = map (\<lambda>m. (fst m, the (marshal (snd m)))) ms \<and> (\<forall>m \<in> set ms. marshal (snd m) \<noteq> None)"
proof (induction ms arbitrary: rs)
  case (Cons m ms)
  then obtain t rs' where "marshal (snd m) = Some t" "marshal_members ms = Some rs'" "rs = (fst m, t) # rs'"
    by (cases m) (auto split: option.splits)
  then show ?case using Cons.IH[of rs'] by simp
qed simp

lemma sort_key_map: "sort_key fst (map f xs) = map f (sort_key fst xs)" if "\<And>x. fst (f x) = fst x"
proof -
  have "insort_key fst (f x) (map f xs) = map f (insort_key fst x xs)" for x xs
    by (induction xs) (simp_all add: that)
  then show ?thesis by (induction xs) simp_all
qed

lemma json_raw_int: "json_raw (int_text i) = Some (int_text i)"
proof -
  have d: "list_all (\<lambda>c. is_digit c \<or> c = CHR ''-'') (int_text i)"
    using nat_text_read(2)[of "nat i"] nat_text_read(2)[of "nat (- i)"] by (auto simp: int_text_def list_all_iff)
  have q: "\<not> is_ws c \<and> c \<noteq> CHR 0x22" if "is_digit c \<or> c = CHR ''-''" for c
    using that by (auto simp: is_digit_def less_eq_char_def is_ws_def)
  have compact: "list_all (\<lambda>c. is_digit c \<or> c = CHR ''-'') s \<Longrightarrow> compact_from False s = s" for s
    by (induction s) (simp_all add: q)
  have sep: "separator (c # s) = None" if "is_digit c \<or> c = CHR ''-''" for c s
    using that by (cases s) (auto simp: separator_def is_digit_def less_eq_char_def)
  have escape: "list_all (\<lambda>c. is_digit c \<or> c = CHR ''-'') s \<Longrightarrow> html_escape s = s" for s
    by (induction s) (auto simp: sep is_digit_def less_eq_char_def)
  have r: "reads_as (int_text i) (JNum (int_text i))" by (rule reads_as_int)
  then have "skip_ws (int_text i) = int_text i" using skip_ws_not[of "int_text i" "[]"] by (simp add: reads_as_def)
  moreover have "jvalue (json_fuel (int_text i)) (int_text i @ []) = Some (JNum (int_text i), [])"
    by (rule reads_as_jvalue[OF r]) (simp_all add: stop_def json_fuel_def)
  ultimately have "json_valid (int_text i)" by (simp add: json_valid_def json_parse_def skip_ws_def)
  moreover have "int_text i \<noteq> []" using r by (simp add: reads_as_def)
  ultimately show ?thesis using compact[OF d] escape[OF d] by (simp add: json_raw_def json_compact_def)
qed

lemma marshal_reads: "marshal v = Some t \<Longrightarrow> plain_val v \<Longrightarrow> reads_as t (jval v)"
proof (induction v arbitrary: t)
  case (GList vs)
  then obtain ts where ts: "marshal_list vs = Some ts" "t = json_array ts" by auto
  have "list_all (\<lambda>(t, j). reads_as t j) (map (\<lambda>v. (the (marshal v), jval v)) vs)"
    using GList.IH GList.prems(2) marshal_list_Some[OF ts(1)] by (auto simp: list_all_iff)
  from reads_as_array[OF this] show ?case using ts(2) marshal_list_Some[OF ts(1)] by (simp add: comp_def)
next
  case (GStruct ms)
  then obtain rs where rs: "marshal_members ms = Some rs" "t = json_object rs" by auto
  have "list_all (\<lambda>(k, t, j). reads_as t j) (map (\<lambda>m. (fst m, the (marshal (snd m)), jval (snd m))) ms)"
    using GStruct.IH GStruct.prems(2) marshal_members_Some[OF rs(1)] by (fastforce simp: list_all_iff)
  from reads_as_object[OF this] show ?case using rs(2) marshal_members_Some[OF rs(1)] by (simp add: comp_def)
next
  case (GMap ms)
  then obtain rs where rs: "marshal_members ms = Some rs" "t = json_object (sort_key fst rs)" by auto
  let ?f = "\<lambda>m. (fst m, the (marshal (snd m)), jval (snd m))"
  have "list_all (\<lambda>(k, t, j). reads_as t j) (sort_key fst (map ?f ms))"
    using GMap.IH GMap.prems(2) marshal_members_Some[OF rs(1)] by (fastforce simp: list_all_iff)
  from reads_as_object[OF this] show ?case
    using rs(2) marshal_members_Some[OF rs(1)] sort_key_map[of ?f ms] sort_key_map[of "\<lambda>m. (fst m, the (marshal (snd m)))" ms]
    by (simp add: comp_def)
qed (auto simp: reads_as_lit reads_as_string reads_as_int json_raw_int)

lemma marshal_parse:
  assumes "marshal v = Some t" "plain_val v"
  shows "json_parse t = Some (jval v)"
proof -
  have r: "reads_as t (jval v)" using marshal_reads[OF assms] .
  then have "skip_ws t = t" using skip_ws_not[of t "[]"] by (simp add: reads_as_def)
  moreover have "jvalue (json_fuel t) (t @ []) = Some (jval v, [])"
    by (rule reads_as_jvalue[OF r]) (simp_all add: stop_def json_fuel_def)
  ultimately show ?thesis by (simp add: json_parse_def skip_ws_def)
qed

end
