(* ===== verification/Connections.thy ===== *)
theory Connections
  imports Pi_Codec Claude_Codec Opencode_Codec Mcp_Bridge Json_Roundtrip
begin

text \<open>
  The adapters' connections (pi/connection.go, claude/connection.go, opencode/connection.go) and
  Pi's bridge (pi/bridge.go): how a request becomes a prompt, and what the driver answers its
  harness. Calls of the Client, files and what a wait answers are arguments.
\<close>

section \<open>Base64\<close>

definition base64_alphabet :: string where
  "base64_alphabet = ''ABCDEFGHIJKLMNOPQRSTUVWXYZabcdefghijklmnopqrstuvwxyz0123456789+/''"

definition base64_digit :: "nat \<Rightarrow> char" where
  "base64_digit n = base64_alphabet ! (n mod 64)"

text \<open>base64.StdEncoding.EncodeToString.\<close>

fun base64 :: "string \<Rightarrow> string" where
  "base64 [] = []"
| "base64 [a] =
     (let n = of_char a * 65536 in [base64_digit (n div 262144), base64_digit (n div 4096), CHR ''='', CHR ''=''])"
| "base64 [a, b] =
     (let n = of_char a * 65536 + of_char b * 256 in
      [base64_digit (n div 262144), base64_digit (n div 4096), base64_digit (n div 64), CHR ''=''])"
| "base64 (a # b # c # s) =
     (let n = of_char a * 65536 + of_char b * 256 + of_char c in
      [base64_digit (n div 262144), base64_digit (n div 4096), base64_digit (n div 64), base64_digit n] @ base64 s)"

section \<open>Pi's bridge\<close>

definition pi_call_title :: string where
  "pi_call_title = ''pi-driver:call''"

definition pi_exchange_title :: string where
  "pi_exchange_title = ''pi-driver:exchange''"

definition pi_tools_env :: string where
  "pi_tools_env = ''PI_DRIVER_TOOLS''"

record pi_call =
  pl_tool :: string
  pl_call_id :: string
  pl_args :: string

definition pi_call_of :: "members \<Rightarrow> pi_call option" where
  "pi_call_of ms = do {
     t \<leftarrow> str_field ''tool'' ms;
     i \<leftarrow> str_field ''callId'' ms;
     Some \<lparr>pl_tool = t, pl_call_id = i, pl_args = raw_field ''args'' ms\<rparr> }"

record pi_bridge_answer =
  pa_result :: "string option"
  pa_error :: "string option"
  pa_schema :: "string option"

definition pi_answer_val :: "pi_bridge_answer \<Rightarrow> goval" where
  "pi_answer_val a =
     GStruct ((case pa_result a of None \<Rightarrow> [] | Some s \<Rightarrow> [(''result'', GStr s)])
       @ (case pa_error a of None \<Rightarrow> [] | Some s \<Rightarrow> [(''error'', GStr s)])
       @ (case pa_schema a of None \<Rightarrow> [] | Some s \<Rightarrow> [(''schema'', GRaw s)]))"

definition pi_render :: "pi_bridge_answer \<Rightarrow> string" where
  "pi_render a =
     (case marshal (pi_answer_val a) of
        Some s \<Rightarrow> s
      | None \<Rightarrow> the (marshal (GMap [(''error'', GStr (''pi: render the answer: '' @ err_text json_err))])))"

definition pi_failure :: "err \<Rightarrow> string" where
  "pi_failure e = pi_render \<lparr>pa_result = None, pa_error = Some (err_text e), pa_schema = None\<rparr>"

text \<open>\<open>cause\<close> is what the call's context has ended with when the handler returns, if it has.\<close>

definition pi_answer_call :: "(string \<rightharpoonup> tool) \<Rightarrow> err option \<Rightarrow> string \<Rightarrow> string" where
  "pi_answer_call tools cause body =
     (case unmarshal_struct body \<bind> pi_call_of of
        None \<Rightarrow> pi_failure (wrap ''pi: malformed call'' json_err)
      | Some c \<Rightarrow>
          (case tools (pl_tool c) of
             None \<Rightarrow> pi_failure (Msg (''pi: no tool '' @ quote (pl_tool c)))
           | Some t \<Rightarrow>
               (case the (tl_handler t) (pl_args c) of
                  Inl e \<Rightarrow> pi_failure (case cause of None \<Rightarrow> e | Some d \<Rightarrow> Joined [e, d])
                | Inr s \<Rightarrow> pi_render \<lparr>pa_result = Some s, pa_error = None, pa_schema = None\<rparr>)))"

definition pi_answer_exchange :: "string \<Rightarrow> string" where
  "pi_answer_exchange schema =
     pi_render \<lparr>pa_result = None, pa_error = None, pa_schema = if schema = [] then None else Some schema\<rparr>"

text \<open>newBridge's checks of the tools, and the tools as the extension registers them.\<close>

fun pi_specs :: "string list \<Rightarrow> tool list \<Rightarrow> err + tool list" where
  "pi_specs seen [] = Inr []"
| "pi_specs seen (t # ts) =
     (case tool_validate t of
        Some e \<Rightarrow> Inl e
      | None \<Rightarrow>
          if tl_name t = pi_respond_tool then Inl (Msg (''pi: tool '' @ quote (tl_name t) @ '': the name is the bridge's own''))
          else if tl_name t \<in> set seen then Inl (Msg (''pi: two tools are named '' @ quote (tl_name t)))
          else map_sum id ((#) (if tl_schema t = [] then t\<lparr>tl_schema := empty_schema\<rparr> else t)) (pi_specs (tl_name t # seen) ts))"

definition pi_spec_val :: "tool \<Rightarrow> goval" where
  "pi_spec_val t = GStruct [(''name'', GStr (tl_name t)), (''description'', GStr (tl_description t)), (''schema'', GRaw (tl_schema t))]"

text \<open>\<open>cached\<close> writes a skill into the cache and answers its directory.\<close>

fun pi_skill_args :: "(skill \<Rightarrow> err + string) \<Rightarrow> skill list \<Rightarrow> err + string list" where
  "pi_skill_args cached [] = Inr []"
| "pi_skill_args cached (s # ss) =
     (case skill_validate s of
        Some e \<Rightarrow> Inl e
      | None \<Rightarrow>
          (case (if sk_dir s = [] then map_sum (wrap (''skill '' @ sk_name s)) id (cached s) else Inr (sk_dir s)) of
             Inl e \<Rightarrow> Inl e
           | Inr d \<Rightarrow> map_sum id (\<lambda>args. ''--skill'' # d # args) (pi_skill_args cached ss)))"

definition pi_allow_args :: "string list option \<Rightarrow> tool list \<Rightarrow> string list" where
  "pi_allow_args harness_tools specs =
     (case harness_tools of
        None \<Rightarrow> []
      | Some hs \<Rightarrow> [''-t'', join '','' (hs @ map tl_name specs @ [pi_respond_tool])])"

text \<open>
  bridge.write, given where the extension was cached and whether writing the spec failed: the
  arguments and the environment that load the bridge. Paths are joined as clean ones.
\<close>

definition pi_bridge_write ::
  "err + string \<Rightarrow> err option \<Rightarrow> (skill \<Rightarrow> err + string) \<Rightarrow> string list option \<Rightarrow> skill list \<Rightarrow> tool list \<Rightarrow> string
    \<Rightarrow> err + string list \<times> string list" where
  "pi_bridge_write ext written cached harness_tools skills specs dir =
     (case ext of
        Inl e \<Rightarrow> Inl e
      | Inr ext \<Rightarrow>
          (case json_line (GList (map pi_spec_val specs)) of
             Inl e \<Rightarrow> Inl e
           | Inr spec \<Rightarrow>
               (case written of
                  Some e \<Rightarrow> Inl e
                | None \<Rightarrow>
                    map_sum id
                      (\<lambda>args. ([''-e'', ext @ ''/bridge.ts''] @ args @ pi_allow_args harness_tools specs,
                              [pi_tools_env @ ''='' @ dir @ ''/tools.json'']))
                      (pi_skill_args cached skills))))"

definition pi_new_bridge ::
  "err + string \<Rightarrow> err + string \<Rightarrow> err option \<Rightarrow> (skill \<Rightarrow> err + string) \<Rightarrow> string list option \<Rightarrow> skill list \<Rightarrow> tool list
    \<Rightarrow> err + tool list \<times> string list \<times> string list" where
  "pi_new_bridge temp ext written cached harness_tools skills tools =
     (case pi_specs [] tools of
        Inl e \<Rightarrow> Inl e
      | Inr specs \<Rightarrow>
          (case temp of
             Inl e \<Rightarrow> Inl (wrap ''pi: bridge'' e)
           | Inr dir \<Rightarrow>
               map_sum (wrap ''pi: bridge'') (Pair specs) (pi_bridge_write ext written cached harness_tools skills specs dir)))"

section \<open>The contexts of tool calls\<close>

text \<open>
  Pi's and Claude Code's connections hold the context of the open exchange's tool calls, which
  Cancel, Close and the next Prompt end. Contexts are numbered; \<open>ru_ended\<close> are those ended.
\<close>

record runs =
  ru_now :: nat
  ru_ended :: "nat set"

definition new_runs :: runs where
  "new_runs = \<lparr>ru_now = 0, ru_ended = {}\<rparr>"

definition end_run :: "runs \<Rightarrow> runs" where
  "end_run r = r\<lparr>ru_ended := insert (ru_now r) (ru_ended r)\<rparr>"

definition next_run :: "runs \<Rightarrow> runs" where
  "next_run r = (end_run r)\<lparr>ru_now := Suc (ru_now r)\<rparr>"

section \<open>Pi's connection\<close>

text \<open>The open exchange's schema, and the contexts of its tool calls.\<close>

record pi_conn =
  pn_schema :: string
  pn_runs :: runs

definition new_pi_conn :: pi_conn where
  "new_pi_conn = \<lparr>pn_schema = [], pn_runs = new_runs\<rparr>"

text \<open>Prompt: its state, and the command it calls with.\<close>

definition pi_prompt_command :: "request \<Rightarrow> pi_command" where
  "pi_prompt_command req =
     (pi_command_of ''prompt'')\<lparr>pc_message := rq_text req,
       pc_images := map (\<lambda>img. \<lparr>pg_data = base64 (im_data img), pg_mime_type = im_media_type img\<rparr>) (rq_images req)\<rparr>"

definition pi_prompt :: "request \<Rightarrow> pi_conn \<Rightarrow> pi_conn \<times> pi_command" where
  "pi_prompt req c =
     (c\<lparr>pn_schema := rq_schema req, pn_runs := next_run (pn_runs c)\<rparr>, pi_prompt_command req)"

text \<open>Cancel's calls, one after the other; \<open>answer\<close> is what the Client answers a command.\<close>

fun pi_calls :: "(pi_command \<Rightarrow> err option) \<Rightarrow> pi_command list \<Rightarrow> err option" where
  "pi_calls answer [] = None"
| "pi_calls answer (cmd # cmds) = (case answer cmd of Some e \<Rightarrow> Some e | None \<Rightarrow> pi_calls answer cmds)"

definition pi_cancel :: "(pi_command \<Rightarrow> err option) \<Rightarrow> pi_conn \<Rightarrow> pi_conn \<times> err option" where
  "pi_cancel answer c = (c\<lparr>pn_runs := end_run (pn_runs c)\<rparr>, pi_calls answer [pi_command_of ''clear_queue'', pi_command_of ''abort''])"

definition pi_close :: "err option \<Rightarrow> err option \<Rightarrow> pi_conn \<Rightarrow> pi_conn \<times> err option" where
  "pi_close client removed c = (c\<lparr>pn_runs := end_run (pn_runs c)\<rparr>, errors_join [client, removed])"

text \<open>
  answer, for a request's dialog. A tool call takes the context of the run as it starts; \<open>cause\<close>
  is the cause of the call's own context when the handler returns, which is over when that run's is.
\<close>

definition pi_call_run :: "pi_conn \<Rightarrow> nat" where
  "pi_call_run c = ru_now (pn_runs c)"

definition pi_conn_answer :: "(string \<rightharpoonup> tool) \<Rightarrow> err option \<Rightarrow> pi_conn \<Rightarrow> pi_dialog option \<Rightarrow> pi_answer" where
  "pi_conn_answer tools cause c body =
     (case body of
        None \<Rightarrow> PiDismiss
      | Some d \<Rightarrow>
          if dl_method d \<noteq> ''input'' then PiDismiss
          else if dl_title d = pi_call_title then PiText (pi_answer_call tools cause (dl_placeholder d))
          else if dl_title d = pi_exchange_title then PiText (pi_answer_exchange (pn_schema c))
          else PiDismiss)"

text \<open>entryIDs: the ids of an entries array, null for none; Head and Since of the journal.\<close>

definition pi_entry_ids :: "string \<Rightarrow> err + string list" where
  "pi_entry_ids data =
     (case unmarshal_struct data \<bind> list_field ''entries'' \<bind> option_all (\<lambda>e. elem_struct e \<bind> str_field ''id'') of
        None \<Rightarrow> Inl (wrap ''pi: get_entries'' json_err)
      | Some ids \<Rightarrow> Inr ids)"

definition pi_since_command :: "string \<Rightarrow> pi_command" where
  "pi_since_command i = (pi_command_of ''get_entries'')\<lparr>pc_since := i\<rparr>"

definition pi_since :: "(pi_command \<Rightarrow> err + string) \<Rightarrow> string \<Rightarrow> err + string list" where
  "pi_since answer i =
     (case answer (pi_since_command i) of
        Inl e \<Rightarrow>
          if i \<noteq> [] \<and> as_command e \<noteq> None
          then Inl (Errorf (err_text ErrUnknownEntry @ '': '' @ err_text e) [ErrUnknownEntry, e])
          else Inl e
      | Inr data \<Rightarrow> pi_entry_ids data)"

definition pi_head :: "(pi_command \<Rightarrow> err + string) \<Rightarrow> err + string" where
  "pi_head answer = map_sum id (\<lambda>ids. if ids = [] then [] else last ids) (pi_since answer [])"

section \<open>Claude Code's connection\<close>

text \<open>The harness tools the session allows, every one when there is no set, and the contexts of its tool calls.\<close>

record claude_conn =
  cn_allowed :: "string set option"
  cn_runs :: runs

definition new_claude_conn :: "string list option \<Rightarrow> claude_conn" where
  "new_claude_conn allowed = \<lparr>cn_allowed = map_option set allowed, cn_runs = new_runs\<rparr>"

text \<open>The request for the structured response that both MCP adapters add to a prompt's text.\<close>

definition ask_respond :: "string \<Rightarrow> string \<Rightarrow> string \<Rightarrow> string" where
  "ask_respond prefix respond s =
     (if respond = [] then s
      else s @ [LF, LF] @ ''Give your final answer by calling the '' @ prefix @ respond
             @ '' tool exactly once, with the answer as its arguments.'')"

definition claude_prompt_message :: "string \<Rightarrow> request \<Rightarrow> claude_user" where
  "claude_prompt_message respond req =
     \<lparr>um_content =
        map (\<lambda>img. (claude_block_type ''image'')\<lparr>cb_source :=
               Some \<lparr>sc_type = ''base64'', sc_media_type = im_media_type img, sc_data = base64 (im_data img)\<rparr>\<rparr>) (rq_images req)
        @ [(claude_block_type ''text'')\<lparr>cb_text := ask_respond claude_tool_prefix respond (rq_text req)\<rparr>],
      um_parent = None, um_session_id = []\<rparr>"

text \<open>
  What both Prompts do first with the MCP server, \<open>waited\<close> being what WaitListed answers: it waits
  when the respond tool changed.
\<close>

definition prompt_tools ::
  "'v sdk \<Rightarrow> (string \<Rightarrow> err + 'r) \<Rightarrow> err option \<Rightarrow> request \<Rightarrow> ('r, 'v) mcp_bridge \<Rightarrow> ('r, 'v) mcp_bridge \<times> err option" where
  "prompt_tools sdk js waited req b =
     (case set_schema sdk js (rq_schema req) b of
        (b', Some e) \<Rightarrow> (b', Some e)
      | (b', None) \<Rightarrow> (b', if mb_respond b' \<noteq> mb_respond b then waited else None))"

definition claude_prompt ::
  "'v sdk \<Rightarrow> (string \<Rightarrow> err + 'r) \<Rightarrow> err option \<Rightarrow> request \<Rightarrow> claude_conn \<times> ('r, 'v) mcp_bridge
    \<Rightarrow> (claude_conn \<times> ('r, 'v) mcp_bridge) \<times> (err + claude_user)" where
  "claude_prompt sdk js waited req = (\<lambda>(c, b).
     let c = c\<lparr>cn_runs := next_run (cn_runs c)\<rparr> in
     (case prompt_tools sdk js waited req b of
        (b', Some e) \<Rightarrow> ((c, b'), Inl e)
      | (b', None) \<Rightarrow> ((c, b'), Inr (claude_prompt_message (mb_respond b') req))))"

definition claude_cancel :: "(claude_control \<Rightarrow> err option) \<Rightarrow> claude_conn \<Rightarrow> claude_conn \<times> err option" where
  "claude_cancel answer c = (c\<lparr>cn_runs := end_run (cn_runs c)\<rparr>, answer (claude_control_req ''interrupt''))"

text \<open>The call that carries a message of the MCP server's own; its answer is dropped.\<close>

definition claude_outbound :: "string \<Rightarrow> claude_control" where
  "claude_outbound msg = (claude_control_req ''mcp_message'')\<lparr>ct_server_name := claude_server_name, ct_message := msg\<rparr>"

text \<open>closeErr, with what errors.As finds of an exec.ExitError as \<open>exit_code\<close>.\<close>

definition claude_close_err :: "(err \<Rightarrow> int option) \<Rightarrow> err option \<Rightarrow> err option" where
  "claude_close_err exit_code e =
     (case e of None \<Rightarrow> None | Some er \<Rightarrow> if exit_code er = Some 1 then None else Some er)"

definition claude_close ::
  "(err \<Rightarrow> int option) \<Rightarrow> err option \<Rightarrow> err option \<Rightarrow> err option \<Rightarrow> claude_conn \<Rightarrow> claude_conn \<times> err option" where
  "claude_close exit_code client tunnel removed c =
     (c\<lparr>cn_runs := end_run (cn_runs c)\<rparr>, errors_join [claude_close_err exit_code client, tunnel, removed])"

definition claude_notification_ack :: string where
  "claude_notification_ack = ''{\"jsonrpc\":\"2.0\",\"result\":{}}''"

definition claude_is_tool_call :: "string \<Rightarrow> bool" where
  "claude_is_tool_call msg \<longleftrightarrow> (unmarshal_struct msg \<bind> str_field ''method'') = Some ''tools/call''"

text \<open>
  relay: \<open>deliver\<close> is the tunnel's Deliver, under a context that ends with the run it is given,
  the open one for a tool call alone; no response acknowledges a notification.
\<close>

definition claude_call_run :: "claude_conn \<Rightarrow> string \<Rightarrow> nat option" where
  "claude_call_run c msg = (if claude_is_tool_call msg then Some (ru_now (cn_runs c)) else None)"

definition claude_relay :: "(nat option \<Rightarrow> string \<Rightarrow> err + string option) \<Rightarrow> claude_conn \<Rightarrow> claude_control \<Rightarrow> claude_answer" where
  "claude_relay deliver c r =
     (if ct_server_name r \<noteq> claude_server_name
      then ClaudeError (Msg (''claude: no MCP server '' @ quote (ct_server_name r)))
      else case deliver (claude_call_run c (ct_message r)) (ct_message r) of
        Inl e \<Rightarrow> ClaudeError e
      | Inr resp \<Rightarrow> ClaudeValue (GMap [(''mcp_response'', GRaw (case resp of None \<Rightarrow> claude_notification_ack | Some m \<Rightarrow> m))]))"

definition claude_permit :: "claude_conn \<Rightarrow> claude_control \<Rightarrow> goval" where
  "claude_permit c r =
     (if has_prefix (ct_tool_name r) claude_tool_prefix \<or> (case cn_allowed c of None \<Rightarrow> True | Some ts \<Rightarrow> ct_tool_name r \<in> ts)
      then GMap [(''behavior'', GStr ''allow''),
                 (''updatedInput'', GRaw (if trim_space (ct_input r) = [] then ''{}'' else ct_input r))]
      else GMap [(''behavior'', GStr ''deny''),
                 (''message'', GStr (''the driver doesn't allow '' @ ct_tool_name r @ '' in this session''))])"

definition claude_conn_answer ::
  "(nat option \<Rightarrow> string \<Rightarrow> err + string option) \<Rightarrow> claude_conn \<Rightarrow> claude_control option \<Rightarrow> claude_answer" where
  "claude_conn_answer deliver c body =
     (case body of
        None \<Rightarrow> ClaudeError (Msg ''claude: unreadable request'')
      | Some r \<Rightarrow>
          if ct_subtype r = ''mcp_message'' then claude_relay deliver c r
          else if ct_subtype r = ''can_use_tool'' then ClaudeValue (claude_permit c r)
          else ClaudeError (Msg (''claude: the driver doesn't answer '' @ ct_subtype r)))"

section \<open>OpenCode's connection\<close>

definition oc_text_block :: "string \<Rightarrow> goval" where
  "oc_text_block s = GStruct ([(''type'', GStr ''text'')] @ omit_str ''text'' s)"

definition oc_image_block :: "image \<Rightarrow> goval" where
  "oc_image_block img =
     GStruct ([(''type'', GStr ''image'')] @ omit_str ''data'' (base64 (im_data img)) @ omit_str ''mimeType'' (im_media_type img))"

definition oc_prompt_call :: "string \<Rightarrow> string \<Rightarrow> request \<Rightarrow> oc_any" where
  "oc_prompt_call sid respond req =
     OcCall ''session/prompt'' (GMap [(''sessionId'', GStr sid),
       (''prompt'', GList (oc_text_block (ask_respond oc_tool_prefix respond (rq_text req)) # map oc_image_block (rq_images req)))])"

text \<open>\<open>ended\<close> is the error of a context that has ended before Prompt starts.\<close>

definition oc_prompt ::
  "'v sdk \<Rightarrow> (string \<Rightarrow> err + 'r) \<Rightarrow> err option \<Rightarrow> err option \<Rightarrow> string \<Rightarrow> request \<Rightarrow> ('r, 'v) mcp_bridge
    \<Rightarrow> ('r, 'v) mcp_bridge \<times> (err + oc_any)" where
  "oc_prompt sdk js ended waited sid req b =
     (case ended of
        Some e \<Rightarrow> (b, Inl e)
      | None \<Rightarrow>
          (case prompt_tools sdk js waited req b of
             (b', Some e) \<Rightarrow> (b', Inl e)
           | (b', None) \<Rightarrow> (b', Inr (oc_prompt_call sid (mb_respond b') req))))"

definition oc_cancel_call :: "string \<Rightarrow> oc_any" where
  "oc_cancel_call sid = OcCall ''session/cancel'' (GMap [(''sessionId'', GStr sid)])"

definition oc_close :: "err option \<Rightarrow> err option \<Rightarrow> err option \<Rightarrow> err option" where
  "oc_close client endpoint removed = errors_join [client, endpoint, removed]"

definition oc_conn_answer :: "oc_request option \<Rightarrow> oc_answer" where
  "oc_conn_answer body =
     (case body of
        None \<Rightarrow> OcError (Msg ''opencode: unreadable request'')
      | Some r \<Rightarrow>
          if oq_method r \<noteq> ''session/request_permission''
          then OcError (Msg (''opencode: the driver doesn't answer '' @ oq_method r))
          else OcValue (GMap [(''outcome'', GMap [(''outcome'', GStr ''selected''), (''optionId'', GStr ''once'')])]))"

end
