(* ===== verification/Connection_Props.thy ===== *)
theory Connection_Props
  imports Connections
begin

text \<open>
  Properties of the connections: a prompt's line and the answer to a tool call as the harness reads
  them, on the round trip of Json_Roundtrip, and the contexts of tool calls, an interface that both
  Pi's and Claude Code's connection give.
\<close>

section \<open>Base64 read back\<close>

definition base64_value :: "char \<Rightarrow> nat option" where
  "base64_value c =
     (let n = of_char c :: nat in
      if 65 \<le> n \<and> n \<le> 90 then Some (n - 65)
      else if 97 \<le> n \<and> n \<le> 122 then Some (n - 71)
      else if 48 \<le> n \<and> n \<le> 57 then Some (n + 4)
      else if n = 43 then Some 62
      else if n = 47 then Some 63
      else None)"

text \<open>Standard base64 with padding.\<close>

fun base64_decode :: "string \<Rightarrow> string option" where
  "base64_decode [] = Some []"
| "base64_decode (a # b # c # d # s) = do {
     x \<leftarrow> base64_value a;
     y \<leftarrow> base64_value b;
     if d = CHR ''='' then
       (if s \<noteq> [] then None
        else if c = CHR ''='' then Some [char_of (x * 4 + y div 16)]
        else do {
          z \<leftarrow> base64_value c;
          Some [char_of (x * 4 + y div 16), char_of (y mod 16 * 16 + z div 4)] })
     else do {
       z \<leftarrow> base64_value c;
       w \<leftarrow> base64_value d;
       t \<leftarrow> base64_decode s;
       Some ([char_of (x * 4 + y div 16), char_of (y mod 16 * 16 + z div 4), char_of (z mod 4 * 64 + w)] @ t) } }"
| "base64_decode _ = None"

lemma base64_digit_value: "base64_value (base64_digit n) = Some (n mod 64) \<and> base64_digit n \<noteq> CHR ''=''"
proof -
  have "\<forall>k < 64. base64_value (base64_alphabet ! k) = Some k \<and> base64_alphabet ! k \<noteq> CHR ''=''"
    by (simp add: base64_value_def base64_alphabet_def numeral_eq_Suc All_less_Suc)
  then show ?thesis by (simp add: base64_digit_def)
qed

lemma char_of_mod: "m = n mod 256 \<Longrightarrow> char_of m = (char_of (n :: nat) :: char)"
  by simp

lemma base64_digits:
  fixes n :: nat
  shows
  "char_of (n div 262144 mod 64 * 4 + n div 4096 mod 64 div 16) = (char_of (n div 65536) :: char)"
  "char_of (n div 4096 mod 64 mod 16 * 16 + n div 64 mod 64 div 4) = (char_of (n div 256) :: char)"
  "char_of (n div 64 mod 64 mod 4 * 64 + n mod 64) = (char_of n :: char)"
proof -
  have k: "x mod 64 div 16 = x div 16 mod 4" "x mod 64 div 4 = x div 4 mod 16" for x :: nat
    using mod_mult2_eq[of x 16 4] by simp (use mod_mult2_eq[of x 4 16] in simp)
  have d: "n div 262144 = n div 65536 div 4" "n div 4096 = n div 256 div 16" "n div 256 div 16 mod 64 div 16 = n div 65536 mod 4"
    using k(1)[of "n div 4096"] by (simp_all add: div_mult2_eq[symmetric])
  have e: "x div 4 mod 64 * 4 + x mod 4 = x mod 256" for x :: nat
    using mod_mult2_eq[of x 4 64] by simp
  have f: "x div 16 mod 64 mod 16 * 16 + x mod 16 = x mod 256" for x :: nat
    using mod_mult2_eq[of x 16 16] by (simp add: mod_mod_cancel)
  have g: "x div 64 mod 64 mod 4 * 64 + x mod 64 = x mod 256" for x :: nat
    using mod_mult2_eq[of x 64 4] by (simp add: mod_mod_cancel)
  have h: "n div 64 mod 64 div 4 = n div 256 mod 16"
    using k(2)[of "n div 64"] by (simp add: div_mult2_eq[symmetric])
  show "char_of (n div 262144 mod 64 * 4 + n div 4096 mod 64 div 16) = (char_of (n div 65536) :: char)"
    by (rule char_of_mod) (simp only: d e)
  show "char_of (n div 4096 mod 64 mod 16 * 16 + n div 64 mod 64 div 4) = (char_of (n div 256) :: char)"
    by (rule char_of_mod) (simp only: d(2) h f)
  show "char_of (n div 64 mod 64 mod 4 * 64 + n mod 64) = (char_of n :: char)"
    by (rule char_of_mod) (rule g)
qed

lemma base64_group:
  "base64_decode [base64_digit (n div 262144), base64_digit (n div 4096), CHR ''='', CHR ''='']
     = Some [char_of (n div 65536)]"
  "base64_decode [base64_digit (n div 262144), base64_digit (n div 4096), base64_digit (n div 64), CHR ''='']
     = Some [char_of (n div 65536), char_of (n div 256)]"
  "base64_decode (base64_digit (n div 262144) # base64_digit (n div 4096) # base64_digit (n div 64) # base64_digit n # s)
     = map_option ((@) [char_of (n div 65536), char_of (n div 256), char_of n]) (base64_decode s)"
  by (simp_all only: base64_decode.simps base64_digit_value base64_digits Option.bind.bind_lunit if_True if_False simp_thms not_Cons_self2)
    (cases "base64_decode s", simp_all)

lemma char_of_quotient: "n mod 256 = of_char c \<Longrightarrow> char_of (n :: nat) = c"
  by (metis char_of_mod_256 char_of_char)

lemma bytes3:
  assumes "b < 256" "c < (256 :: nat)"
  shows "(a * 65536 + b * 256 + c) div 65536 = a" "(a * 65536 + b * 256 + c) div 256 mod 256 = b"
    "(a * 65536 + b * 256 + c) mod 256 = c"
proof -
  have "a * 65536 + b * 256 + c = (a * 256 + b) * 256 + c" by simp
  then have d: "(a * 65536 + b * 256 + c) div 256 = a * 256 + b" "(a * 65536 + b * 256 + c) mod 256 = c"
    using assms(2) by (simp_all only: div_mult_self3 mod_mult_self3) simp_all
  show "(a * 65536 + b * 256 + c) div 256 mod 256 = b" using assms(1) by (simp only: d) simp
  have "(a * 65536 + b * 256 + c) div 256 div 256 = a" using assms(1) by (simp only: d)
  then show "(a * 65536 + b * 256 + c) div 65536 = a" by (simp add: div_mult2_eq[symmetric])
  show "(a * 65536 + b * 256 + c) mod 256 = c" by (rule d)
qed

lemma base64_reads: "base64_decode (base64 s) = Some s"
proof (induction s rule: base64.induct)
  case (2 a)
  have "(of_char a * 65536) div 65536 = (of_char a :: nat)" by simp
  then show ?case by (simp only: base64.simps Let_def base64_group char_of_char)
next
  case (3 a b)
  let ?n = "of_char a * 65536 + of_char b * 256 :: nat"
  have "?n div 65536 = of_char a" "(char_of (?n div 256) :: char) = b"
    using nat_of_char_less_256[of b] by (auto intro!: char_of_quotient)
  then show ?case by (simp only: base64.simps Let_def base64_group char_of_char)
next
  case (4 a b c s)
  let ?n = "of_char a * 65536 + of_char b * 256 + of_char c :: nat"
  have "?n div 65536 = of_char a" "(char_of (?n div 256) :: char) = b" "(char_of ?n :: char) = c"
    using bytes3[of "of_char b" "of_char c" "of_char a"] by (auto intro!: char_of_quotient simp only: nat_of_char_less_256)
  then show ?case using 4 by (simp add: Let_def base64_group del: base64_decode.simps)
qed simp

lemma plain_marshals: "plain_val v \<Longrightarrow> \<exists>t. marshal v = Some t"
  and plain_marshals_list: "\<forall>v \<in> set vs. plain_val v \<Longrightarrow> \<exists>ts. marshal_list vs = Some ts"
  and plain_marshals_members: "\<forall>m \<in> set ms. plain_val (snd m) \<Longrightarrow> \<exists>rs. marshal_members ms = Some rs"
  by (induction v and vs and ms rule: marshal_marshal_list_marshal_members.induct)
    (auto simp: json_raw_int)

lemma plain_line:
  assumes "plain_val v"
  obtains l where "json_line v = Inr l" "json_parse l = Some (jval v)"
  using plain_marshals[OF assms] marshal_parse[OF _ assms] that by (auto simp: json_line_def)


section \<open>What the harness reads of a prompt\<close>

datatype adapter = For_Pi | For_Claude | For_Opencode

text \<open>The line of a prompt as an adapter's Prompt and Encode make it, from the states they meet.\<close>

definition prompt_line :: "adapter \<Rightarrow> string \<Rightarrow> string \<Rightarrow> string \<Rightarrow> request \<Rightarrow> err + string" where
  "prompt_line a i sid respond req =
     (case a of
        For_Pi \<Rightarrow> fst (pi_encode i (PiCommand (pi_prompt_command req)) ())
      | For_Claude \<Rightarrow> fst (claude_encode i (ClaudeUser (claude_prompt_message respond req)) new_claude_codec)
      | For_Opencode \<Rightarrow> fst (oc_encode i (oc_prompt_call sid respond req) new_oc_codec))"

text \<open>The text and the images each harness's protocol gives a prompt's line.\<close>

definition read_image :: "string \<Rightarrow> string \<Rightarrow> members \<Rightarrow> (string \<times> string) option" where
  "read_image media data ms = do {
     m \<leftarrow> str_field media ms;
     d \<leftarrow> str_field data ms;
     b \<leftarrow> base64_decode d;
     Some (m, b) }"

definition read_block :: "string \<times> json \<Rightarrow> (string + string \<times> string) option" where
  "read_block e = do {
     ms \<leftarrow> elem_struct e;
     t \<leftarrow> str_field ''type'' ms;
     if t = ''text'' then map_option Inl (str_field ''text'' ms)
     else do {
       s \<leftarrow> inner_field ''source'' ms;
       map_option Inr (if s = [] then read_image ''mimeType'' ''data'' ms else read_image ''media_type'' ''data'' s) } }"

definition read_blocks :: "(string \<times> json) list \<Rightarrow> (string \<times> (string \<times> string) list) option" where
  "read_blocks es = do {
     bs \<leftarrow> option_all read_block es;
     Some (concat (map (case_sum id (\<lambda>_. [])) bs), concat (map (case_sum (\<lambda>_. []) (\<lambda>p. [p])) bs)) }"

definition read_prompt :: "adapter \<Rightarrow> string \<Rightarrow> (string \<times> (string \<times> string) list) option" where
  "read_prompt a line = do {
     ms \<leftarrow> unmarshal_struct line;
     kind \<leftarrow> str_field (if a = For_Opencode then ''method'' else ''type'') ms;
     case a of
       For_Pi \<Rightarrow> do {
         m \<leftarrow> str_field ''message'' ms;
         es \<leftarrow> list_field ''images'' ms;
         imgs \<leftarrow> option_all (\<lambda>e. elem_struct e \<bind> read_image ''mimeType'' ''data'') es;
         if kind = ''prompt'' then Some (m, imgs) else None }
     | For_Claude \<Rightarrow> if kind = ''user'' then inner_field ''message'' ms \<bind> list_field ''content'' \<bind> read_blocks else None
     | For_Opencode \<Rightarrow> if kind = ''session/prompt'' then inner_field ''params'' ms \<bind> list_field ''prompt'' \<bind> read_blocks else None }"

definition prompt_text :: "adapter \<Rightarrow> string \<Rightarrow> string \<Rightarrow> string" where
  "prompt_text a respond s =
     (case a of For_Pi \<Rightarrow> s | For_Claude \<Rightarrow> ask_respond claude_tool_prefix respond s | For_Opencode \<Rightarrow> ask_respond oc_tool_prefix respond s)"

lemma option_all_map: "(\<And>x. x \<in> set xs \<Longrightarrow> f (g x) = Some (h x)) \<Longrightarrow> option_all f (map g xs) = Some (map h xs)"
  by (auto simp: option_all_def)

lemma option_all_Cons: "option_all f (x # xs) = (case f x of None \<Rightarrow> None | Some y \<Rightarrow> map_option ((#) y) (option_all f xs))"
  by (auto simp: option_all_def split: option.split)

lemma option_all_snoc: "option_all f xs = Some ys \<Longrightarrow> f x = Some y \<Longrightarrow> option_all f (xs @ [x]) = Some (ys @ [y])"
  by (auto simp: option_all_def split: if_splits)

lemma plain_members: "plain_val (GStruct (ms @ ns)) = (plain_val (GStruct ms) \<and> plain_val (GStruct ns))"
  by auto

lemma plain_omit: "plain_val (GStruct (omit_str k s))"
  by (simp add: omit_str_def)

lemma matches_Cons: "matches k ((l, v) # ms) = (if to_lower_ascii l = to_lower_ascii k then v # matches k ms else matches k ms)"
  by (simp add: matches_def)

lemma matches_append: "matches k (ms @ ns) = matches k ms @ matches k ns"
  by (simp add: matches_def)

lemma pi_image_reads: "elem_struct (t, jval (pi_image_val \<lparr>pg_data = base64 d, pg_mime_type = m\<rparr>)) \<bind> read_image ''mimeType'' ''data'' = Some (m, d)"
  by (simp add: elem_struct_def pi_image_val_def read_image_def str_field_def matches_Cons base64_reads to_lower_ascii_def)


abbreviation read_member :: "string \<times> goval \<Rightarrow> string \<times> string \<times> json" where
  "read_member m \<equiv> (fst m, the (marshal (snd m)), jval (snd m))"

lemma matches_omit_str:
  "matches k (map read_member (omit_str l s))
     = (if s \<noteq> [] \<and> to_lower_ascii l = to_lower_ascii k then [(json_string s, JStr s)] else [])"
  by (simp add: omit_str_def matches_Cons)

lemma matches_omit_list:
  "matches k (map read_member (omit_list l vs))
     = (if vs \<noteq> [] \<and> to_lower_ascii l = to_lower_ascii k then [(the (marshal (GList vs)), jval (GList vs))] else [])"
  by (simp add: omit_list_def matches_Cons del: marshal.simps)

lemmas reads = unmarshal_struct_def str_field_def list_field_def inner_field_def elem_struct_def matches_Cons matches_append
  matches_omit_str matches_omit_list to_lower_ascii_def

lemma pi_prompt_reads:
  "\<exists>l. prompt_line For_Pi i sid respond req = Inr l
     \<and> read_prompt For_Pi l = Some (rq_text req, map (\<lambda>m. (im_media_type m, im_data m)) (rq_images req))"
proof -
  let ?v = "pi_command_val ((pi_prompt_command req)\<lparr>pc_id := i\<rparr>)"
  have "plain_val ?v"
    by (auto simp: pi_command_val_def pi_prompt_command_def pi_command_of_def omit_str_def omit_list_def pi_image_val_def)
  then obtain l where l: "json_line ?v = Inr l" "json_parse l = Some (jval ?v)" by (rule plain_line)
  have "option_all (\<lambda>e. elem_struct e \<bind> read_image ''mimeType'' ''data'')
      (map (\<lambda>img. (the (marshal (pi_image_val \<lparr>pg_data = base64 (im_data img), pg_mime_type = im_media_type img\<rparr>)),
                   jval (pi_image_val \<lparr>pg_data = base64 (im_data img), pg_mime_type = im_media_type img\<rparr>))) (rq_images req))
    = Some (map (\<lambda>m. (im_media_type m, im_data m)) (rq_images req))"
    by (rule option_all_map) (rule pi_image_reads)
  then have "read_prompt For_Pi l = Some (rq_text req, map (\<lambda>m. (im_media_type m, im_data m)) (rq_images req))"
    using l(2) by (simp add: read_prompt_def reads pi_command_val_def pi_prompt_command_def pi_command_of_def comp_def option_all_def)
  then show ?thesis using l(1) by (simp add: prompt_line_def pi_encode_def)
qed


lemma claude_image_reads:
  "read_block (t, jval (claude_block_val ((claude_block_type ''image'')\<lparr>cb_source :=
       Some \<lparr>sc_type = ''base64'', sc_media_type = m, sc_data = base64 d\<rparr>\<rparr>))) = Some (Inr (m, d))"
  by (simp add: read_block_def reads read_image_def claude_block_val_def claude_block_type_def claude_source_val_def
      omit_raw_def omit_bool_def base64_reads)

lemma claude_text_reads:
  "read_block (t, jval (claude_block_val ((claude_block_type ''text'')\<lparr>cb_text := x\<rparr>))) = Some (Inl x)"
  by (simp add: read_block_def reads claude_block_val_def claude_block_type_def omit_raw_def omit_bool_def)

lemma claude_prompt_reads:
  "\<exists>l. prompt_line For_Claude i sid respond req = Inr l
     \<and> read_prompt For_Claude l = Some (prompt_text For_Claude respond (rq_text req), map (\<lambda>m. (im_media_type m, im_data m)) (rq_images req))"
proof -
  let ?m = "claude_prompt_message respond req" and ?v = "claude_user_val (claude_prompt_message respond req)"
  have "plain_val ?v"
    by (auto simp: claude_user_val_def claude_prompt_message_def claude_block_val_def claude_block_type_def claude_source_val_def
        omit_str_def omit_raw_def omit_bool_def)
  then obtain l where l: "json_line ?v = Inr l" "json_parse l = Some (jval ?v)" by (rule plain_line)
  let ?e = "\<lambda>b. (the (marshal (claude_block_val b)), jval (claude_block_val b))"
  have "option_all read_block (map ?e (um_content ?m))
      = Some (map (\<lambda>m. Inr (im_media_type m, im_data m)) (rq_images req) @ [Inl (prompt_text For_Claude respond (rq_text req))])"
  proof -
    let ?img = "\<lambda>img. (claude_block_type ''image'')\<lparr>cb_source :=
      Some \<lparr>sc_type = ''base64'', sc_media_type = im_media_type img, sc_data = base64 (im_data img)\<rparr>\<rparr>"
    have "option_all read_block (map (\<lambda>img. ?e (?img img)) (rq_images req)) = Some (map (\<lambda>m. Inr (im_media_type m, im_data m)) (rq_images req))"
      by (rule option_all_map) (rule claude_image_reads)
    from option_all_snoc[OF this claude_text_reads] show ?thesis
      by (simp add: claude_prompt_message_def prompt_text_def comp_def)
  qed
  then have "read_blocks (map ?e (um_content ?m))
      = Some (prompt_text For_Claude respond (rq_text req), map (\<lambda>m. (im_media_type m, im_data m)) (rq_images req))"
    by (simp add: read_blocks_def comp_def)
  moreover have "um_content ?m \<noteq> []" by (simp add: claude_prompt_message_def)
  ultimately have "read_prompt For_Claude l
      = Some (prompt_text For_Claude respond (rq_text req), map (\<lambda>m. (im_media_type m, im_data m)) (rq_images req))"
    using l(2) by (simp add: read_prompt_def reads claude_user_val_def comp_def)
  then show ?thesis using l(1) by (simp add: prompt_line_def claude_encode_def)
qed

lemma oc_image_reads: "read_block (t, jval (oc_image_block img)) = Some (Inr (im_media_type img, im_data img))"
proof -
  have "read_image ''mimeType'' ''data'' (map read_member (omit_str ''data'' (base64 (im_data img)) @ omit_str ''mimeType'' (im_media_type img)))
     = Some (im_media_type img, im_data img)"
    using base64_reads[of "im_data img"] by (cases "base64 (im_data img)") (auto simp: read_image_def reads)
  then show ?thesis by (simp add: read_block_def reads oc_image_block_def read_image_def)
qed

lemma oc_text_reads: "read_block (t, jval (oc_text_block x)) = Some (Inl x)"
  by (simp add: read_block_def reads oc_text_block_def)

lemma oc_prompt_reads:
  "\<exists>l. prompt_line For_Opencode (int_text i) sid respond req = Inr l
     \<and> read_prompt For_Opencode l = Some (prompt_text For_Opencode respond (rq_text req), map (\<lambda>m. (im_media_type m, im_data m)) (rq_images req))"
proof -
  let ?t = "prompt_text For_Opencode respond (rq_text req)"
  let ?bs = "oc_text_block ?t # map oc_image_block (rq_images req)"
  let ?p = "GMap [(''sessionId'', GStr sid), (''prompt'', GList ?bs)]"
  let ?v = "GMap [(''jsonrpc'', GStr ''2.0''), (''method'', GStr ''session/prompt''), (''params'', ?p), (''id'', GRaw (int_text i))]"
  have i: "int_text i \<noteq> []" using int_text_head[of i] by auto
  have "plain_val ?v" by (auto simp: oc_text_block_def oc_image_block_def omit_str_def)
  then obtain l where l: "json_line ?v = Inr l" "json_parse l = Some (jval ?v)" by (rule plain_line)
  have "option_all read_block (map (\<lambda>img. (the (marshal (oc_image_block img)), jval (oc_image_block img))) (rq_images req))
      = Some (map (\<lambda>m. Inr (im_media_type m, im_data m)) (rq_images req))"
    by (rule option_all_map) (rule oc_image_reads)
  then have "read_blocks (map (\<lambda>v. (the (marshal v), jval v)) ?bs) = Some (?t, map (\<lambda>m. (im_media_type m, im_data m)) (rq_images req))"
    by (simp add: read_blocks_def option_all_Cons oc_text_reads comp_def)
  then have "read_prompt For_Opencode l = Some (?t, map (\<lambda>m. (im_media_type m, im_data m)) (rq_images req))"
    using l(2) by (simp add: read_prompt_def reads)
  moreover have "oc_prompt_call sid respond req = OcCall ''session/prompt'' ?p"
    by (simp add: oc_prompt_call_def prompt_text_def)
  ultimately show ?thesis using l(1) i by (simp add: prompt_line_def oc_encode_def)
qed



section \<open>What Pi's extension reads of an answer\<close>

definition pi_read_answer :: "string \<Rightarrow> (string option \<times> string option) option" where
  "pi_read_answer line = do {
     ms \<leftarrow> unmarshal_struct line;
     v \<leftarrow> str_field ''value'' ms;
     a \<leftarrow> unmarshal_struct v;
     r \<leftarrow> opt_str_field ''result'' a;
     e \<leftarrow> opt_str_field ''error'' a;
     Some (r, e) }"

definition pi_text_answer :: "string option \<Rightarrow> string option \<Rightarrow> pi_bridge_answer" where
  "pi_text_answer r e = \<lparr>pa_result = r, pa_error = e, pa_schema = None\<rparr>"

lemma pi_text_answer_reads:
  obtains l where "pi_reply req (PiText (pi_render (pi_text_answer r e))) = Inr l" "pi_read_answer l = Some (r, e)"
proof -
  let ?v = "pi_answer_val (pi_text_answer r e)"
  have "plain_val ?v" by (auto simp: pi_answer_val_def pi_text_answer_def split: option.splits)
  then obtain x where x: "marshal ?v = Some x" "json_parse x = Some (jval ?v)" using plain_marshals marshal_parse by blast
  let ?w = "GStruct [(''type'', GStr ''extension_ui_response''), (''id'', GStr (hq_id req)), (''value'', GStr x)]"
  have "plain_val ?w" by simp
  then obtain l where l: "json_line ?w = Inr l" "json_parse l = Some (jval ?w)" by (rule plain_line)
  have "pi_read_answer l = Some (r, e)"
    using l(2) x(2)
    by (auto simp: pi_read_answer_def reads opt_str_field_def pi_answer_val_def pi_text_answer_def split: option.splits)
  moreover have "pi_reply req (PiText (pi_render (pi_text_answer r e))) = Inr l"
    using l(1) x(1) by (simp add: pi_reply_def pi_render_def)
  ultimately show ?thesis using that by blast
qed


definition echo_tool :: tool where
  "echo_tool = \<lparr>tl_name = ''echo'', tl_description = ''says it back'', tl_schema = [], tl_handler = Some (\<lambda>args. Inr args)\<rparr>"


section \<open>The contexts of the tool calls\<close>

text \<open>
  A call between the operations \<open>before\<close> and \<open>after\<close> has outlived its run: one came after it, or it
  came when the last one had already ended the run without opening another.
\<close>

definition outlived :: "('o \<Rightarrow> bool) \<Rightarrow> 'o list \<Rightarrow> 'o list \<Rightarrow> bool" where
  "outlived is_prompt before after = (if after = [] then before \<noteq> [] \<and> \<not> is_prompt (last before) else True)"

locale call_contexts =
  fixes step :: "'o \<Rightarrow> 'c \<Rightarrow> 'c"
    and is_prompt :: "'o \<Rightarrow> bool"
    and runs_of :: "'c \<Rightarrow> runs"
  assumes step_runs: "runs_of (step x c) = (if is_prompt x then next_run (runs_of c) else end_run (runs_of c))"
begin

lemma ended_bound:
  "\<forall>n \<in> ru_ended (runs_of c). n \<le> ru_now (runs_of c) \<Longrightarrow>
     \<forall>n \<in> ru_ended (runs_of (fold step xs c)). n \<le> ru_now (runs_of (fold step xs c))"
  by (induction xs rule: rev_induct) (auto simp: step_runs next_run_def end_run_def)

lemma ended_kept: "ru_ended (runs_of c) \<subseteq> ru_ended (runs_of (fold step xs c))"
  by (induction xs rule: rev_induct) (auto simp: step_runs next_run_def end_run_def)

lemma ended_after: "xs \<noteq> [] \<Longrightarrow> ru_now (runs_of c) \<in> ru_ended (runs_of (fold step xs c))"
proof (cases xs)
  case (Cons x ys)
  have "ru_now (runs_of c) \<in> ru_ended (runs_of (step x c))" by (simp add: step_runs next_run_def end_run_def)
  then show ?thesis using ended_kept[of "step x c" ys] Cons by auto
qed simp

lemma ended_iff:
  assumes "runs_of c = new_runs"
  shows "ru_now (runs_of (fold step before c)) \<in> ru_ended (runs_of (fold step (before @ after) c))
           \<longleftrightarrow> outlived is_prompt before after"
proof -
  have "ru_now (runs_of (fold step before c)) \<in> ru_ended (runs_of (fold step before c))
           \<longleftrightarrow> before \<noteq> [] \<and> \<not> is_prompt (last before)"
  proof (cases before rule: rev_cases)
    case (snoc ys y)
    have "\<forall>n \<in> ru_ended (runs_of (fold step ys c)). n \<le> ru_now (runs_of (fold step ys c))"
      by (rule ended_bound) (simp add: assms new_runs_def)
    then show ?thesis using snoc by (auto simp: step_runs next_run_def end_run_def)
  qed (simp add: assms new_runs_def)
  then show ?thesis using ended_after[of after "fold step before c"] by (cases "after = []") (auto simp: outlived_def)
qed

end

datatype pi_conn_op =
    is_pi_prompt: PiPrompt request
  | PiCancel "pi_command \<Rightarrow> err option"
  | PiClose "err option" "err option"

definition pi_conn_step :: "pi_conn_op \<Rightarrow> pi_conn \<Rightarrow> pi_conn" where
  "pi_conn_step x c =
     (case x of PiPrompt req \<Rightarrow> fst (pi_prompt req c) | PiCancel answer \<Rightarrow> fst (pi_cancel answer c)
      | PiClose client removed \<Rightarrow> fst (pi_close client removed c))"

interpretation pi_contexts: call_contexts pi_conn_step is_pi_prompt pn_runs
  by unfold_locales (simp add: pi_conn_step_def pi_prompt_def pi_cancel_def pi_close_def split: pi_conn_op.split)

datatype claude_conn_op =
    is_claude_prompt: ClaudePrompt "err option" request
  | ClaudeCancel "claude_control \<Rightarrow> err option"
  | ClaudeClose "err \<Rightarrow> int option" "err option" "err option" "err option"

definition claude_conn_step ::
  "'v sdk \<Rightarrow> (string \<Rightarrow> err + 'r) \<Rightarrow> claude_conn_op \<Rightarrow> claude_conn \<times> ('r, 'v) mcp_bridge \<Rightarrow> claude_conn \<times> ('r, 'v) mcp_bridge" where
  "claude_conn_step sdk js x s =
     (case x of
        ClaudePrompt waited req \<Rightarrow> fst (claude_prompt sdk js waited req s)
      | ClaudeCancel answer \<Rightarrow> (fst (claude_cancel answer (fst s)), snd s)
      | ClaudeClose exit_code client tunnel removed \<Rightarrow> (fst (claude_close exit_code client tunnel removed (fst s)), snd s))"

interpretation claude_contexts: call_contexts "claude_conn_step sdk js" is_claude_prompt "\<lambda>s. cn_runs (fst s)" for sdk js
  by unfold_locales
    (auto simp: claude_conn_step_def claude_prompt_def claude_cancel_def claude_close_def Let_def split: claude_conn_op.split prod.splits option.splits)


end
