(* ===== verification/Catalog.thy ===== *)
theory Catalog
  imports Filestores "HOL-Library.Multiset"
begin

text \<open>
  The catalogs of command tools and skills (harness/catalog). What the operating system answers is
  an argument; a file system is the list of its files. The lemmas say what a load gives: tools and
  skills the harness accepts, none left out, and of a call all its output or an error.
\<close>

section \<open>Paths\<close>

fun split_on :: "char \<Rightarrow> string \<Rightarrow> string list" where
  "split_on c [] = [[]]"
| "split_on c (d # s) =
     (if d = c then [] # split_on c s
      else case split_on c s of w # ws \<Rightarrow> (d # w) # ws | [] \<Rightarrow> [[d]])"

text \<open>filepath.Clean's elements, the last first: dots go, and two dots take the element before them.\<close>

definition clean_elem :: "bool \<Rightarrow> string list \<Rightarrow> string \<Rightarrow> string list" where
  "clean_elem rooted ws w =
     (if w = [] \<or> w = ''.'' then ws
      else if w \<noteq> ''..'' then w # ws
      else case ws of
        v # vs \<Rightarrow> if v = ''..'' then w # ws else vs
      | [] \<Rightarrow> if rooted then [] else [w])"

definition is_abs :: "string \<Rightarrow> bool" where
  "is_abs p \<longleftrightarrow> has_prefix p ''/''"

definition clean_path :: "string \<Rightarrow> string" where
  "clean_path p =
     (let ws = join ''/'' (rev (foldl (clean_elem (is_abs p)) [] (split_on (CHR ''/'') p))) in
      if is_abs p then ''/'' @ ws else if ws = [] then ''.'' else ws)"

definition path_join :: "string list \<Rightarrow> string" where
  "path_join ps =
     (let qs = filter (\<lambda>p. p \<noteq> []) ps in if qs = [] then [] else clean_path (join ''/'' qs))"

section \<open>Command tools\<close>

definition tool_file :: string where
  "tool_file = ''tool.json''"

definition max_output :: nat where
  "max_output = 2 ^ 20"

definition tool_stderr_tail :: nat where
  "tool_stderr_tail = 4 * 2 ^ 10"

definition ErrOutputTooLarge :: err where
  "ErrOutputTooLarge = Sentinel ''output exceeds 1 MiB''"

record tool_manifest =
  mf_name :: string
  mf_description :: string
  mf_schema :: string
  mf_command :: "string list"

definition tool_manifest_of :: "members \<Rightarrow> tool_manifest option" where
  "tool_manifest_of ms = do {
     n \<leftarrow> str_field ''name'' ms;
     d \<leftarrow> str_field ''description'' ms;
     es \<leftarrow> list_field ''command'' ms;
     c \<leftarrow> option_all (\<lambda>e. decode_str [e] []) es;
     Some \<lparr>mf_name = n, mf_description = d, mf_schema = raw_field ''inputSchema'' ms, mf_command = c\<rparr> }"

definition manifest_validate :: "tool_manifest \<Rightarrow> err option" where
  "manifest_validate m =
     (if trim_space (mf_description m) = [] then Some (Msg ''description is empty'')
      else if mf_schema m = [] then Some (Msg ''inputSchema is missing'')
      else if mf_command m = [] \<or> hd (mf_command m) = [] then Some (Msg ''command is empty'')
      else map_option (wrap ''inputSchema'') (validate_schema (mf_schema m)))"

record tool_command =
  tc_name :: string
  tc_dir :: string
  tc_path :: string
  tc_args :: "string list"

text \<open>
  A call of a command as the operating system runs it: whether it starts, the pieces its pipes are
  read in, what waiting for it answers, and the cause of the call's context when that has ended.
\<close>

record tool_process =
  tp_start :: "err option"
  tp_stdout :: "string list"
  tp_stderr :: "string list"
  tp_wait :: "err option"
  tp_cause :: "err option"

text \<open>limited.Write, with whether it refuses the write, and drain over it.\<close>

definition limited_write :: "nat \<Rightarrow> string \<Rightarrow> string \<times> bool \<Rightarrow> (string \<times> bool) \<times> bool" where
  "limited_write bound p l =
     (if bound < length (fst l) + length p then ((fst l, True), True) else ((fst l @ p, snd l), False))"

fun drain_limited :: "nat \<Rightarrow> string list \<Rightarrow> string \<times> bool \<Rightarrow> string \<times> bool" where
  "drain_limited bound [] l = l"
| "drain_limited bound (p # ps) l =
     (case limited_write bound p l of (l', refused) \<Rightarrow> if refused then l' else drain_limited bound ps l')"

text \<open>tail.Write.\<close>

definition tail_keep :: "nat \<Rightarrow> string \<Rightarrow> string \<Rightarrow> string" where
  "tail_keep bound p buf =
     (let buf = buf @ p; over = length buf - bound in if over > 0 then drop over buf else buf)"

definition drain_tail :: "nat \<Rightarrow> string list \<Rightarrow> string" where
  "drain_tail bound ps = fold (tail_keep bound) ps []"

definition command_run :: "(tool_command \<Rightarrow> string \<Rightarrow> tool_process) \<Rightarrow> tool_command \<Rightarrow> string \<Rightarrow> err + string" where
  "command_run exec c args =
     (let p = exec c args; failed = wrap (''catalog: tool '' @ quote (tc_name c)) in
      case tp_start p of
        Some e \<Rightarrow> Inl (failed e)
      | None \<Rightarrow>
          (let out = drain_limited max_output (tp_stdout p) ([], False) in
           case tp_cause p of
             Some e \<Rightarrow> Inl (failed e)
           | None \<Rightarrow>
               if snd out then Inl (failed ErrOutputTooLarge)
               else (case tp_wait p of
                   Some e \<Rightarrow>
                     (let msg = trim_space (drain_tail tool_stderr_tail (tp_stderr p)) in
                      Inl (if msg = [] then failed e
                           else Errorf (''catalog: tool '' @ quote (tc_name c) @ '': '' @ err_text e @ '': '' @ msg) [e]))
                 | None \<Rightarrow> Inr (fst out))))"

text \<open>CommandTool: \<open>absolute\<close> is filepath.Abs, \<open>read\<close> os.ReadFile.\<close>

definition command_tool ::
  "(string \<Rightarrow> err + string) \<Rightarrow> (string \<Rightarrow> err + string) \<Rightarrow> (tool_command \<Rightarrow> string \<Rightarrow> tool_process) \<Rightarrow> string
    \<Rightarrow> err + tool" where
  "command_tool absolute read exec dir =
     (case absolute dir of
        Inl e \<Rightarrow> Inl (wrap ''catalog'' e)
      | Inr dir \<Rightarrow>
          (let file = path_join [dir, tool_file]; failed = wrap (''catalog: '' @ file) in
           case read file of
             Inl e \<Rightarrow> Inl (wrap ''catalog'' e)
           | Inr data \<Rightarrow>
               (case unmarshal_struct data \<bind> tool_manifest_of of
                  None \<Rightarrow> Inl (failed json_err)
                | Some m \<Rightarrow>
                    (case manifest_validate m of
                       Some e \<Rightarrow> Inl (failed e)
                     | None \<Rightarrow>
                         (case json_compact (mf_schema m) of
                            None \<Rightarrow> Inl (wrap (''catalog: '' @ file @ '': inputSchema'') json_err)
                          | Some schema \<Rightarrow>
                              (let path = hd (mf_command m);
                                   path = if CHR ''/'' \<in> set path \<and> \<not> is_abs path then path_join [dir, path] else path;
                                   c = \<lparr>tc_name = mf_name m, tc_dir = dir, tc_path = path, tc_args = tl (mf_command m)\<rparr>;
                                   t = \<lparr>tl_name = mf_name m, tl_description = mf_description m, tl_schema = schema,
                                        tl_handler = Some (command_run exec c)\<rparr> in
                               case tool_validate t of
                                 Some e \<Rightarrow> Inl (failed e)
                               | None \<Rightarrow> Inr t))))))"

text \<open>An entry of a directory, with what os.Stat answers for the file that would make it a tool or a skill.\<close>

record entry =
  en_name :: string
  en_dir :: bool
  en_stat :: "err option"

definition ErrNotExist :: err where
  "ErrNotExist = Sentinel ''file does not exist''"

text \<open>Tools' loop; \<open>seen\<close> has where each name was met.\<close>

fun tools_from :: "(string \<Rightarrow> err + tool) \<Rightarrow> string \<Rightarrow> (string \<rightharpoonup> string) \<Rightarrow> entry list \<Rightarrow> err + tool list" where
  "tools_from load dir seen [] = Inr []"
| "tools_from load dir seen (e # es) =
     (if \<not> en_dir e then tools_from load dir seen es
      else
        let tool_dir = path_join [dir, en_name e] in
        case en_stat e of
          Some er \<Rightarrow> if err_is er ErrNotExist then tools_from load dir seen es else Inl (wrap ''catalog'' er)
        | None \<Rightarrow>
            (case load tool_dir of
               Inl er \<Rightarrow> Inl er
             | Inr t \<Rightarrow>
                 (case seen (tl_name t) of
                    Some prev \<Rightarrow>
                      Inl (Msg (''catalog: '' @ prev @ '' and '' @ tool_dir @ '' both name the tool '' @ quote (tl_name t)))
                  | None \<Rightarrow> map_sum id ((#) t) (tools_from load dir (seen(tl_name t \<mapsto> tool_dir)) es))))"

definition catalog_tools :: "(string \<Rightarrow> err + tool) \<Rightarrow> string \<Rightarrow> err + entry list \<Rightarrow> err + tool list" where
  "catalog_tools load dir entries =
     (case entries of
        Inl e \<Rightarrow> Inl (wrap ''catalog'' e)
      | Inr es \<Rightarrow> map_sum id (sort_key tl_name) (tools_from load dir Map.empty es))"

section \<open>Skills\<close>

definition skill_file :: string where
  "skill_file = ''SKILL.md''"

definition lower_alnum :: "char \<Rightarrow> bool" where
  "lower_alnum c \<longleftrightarrow> (CHR ''a'' \<le> c \<and> c \<le> CHR ''z'') \<or> (CHR ''0'' \<le> c \<and> c \<le> CHR ''9'')"

text \<open>The regular expression of a skill's name: runs of lower-case letters and digits between hyphens.\<close>

definition skill_name_ok :: "string \<Rightarrow> bool" where
  "skill_name_ok n \<longleftrightarrow> list_all (\<lambda>w. w \<noteq> [] \<and> list_all lower_alnum w) (split_on (CHR ''-'') n)"

definition trim_right :: "string \<Rightarrow> string" where
  "trim_right s = rev (dropWhile (\<lambda>c. c \<in> {CHR '' '', CHR 0x09, CHR 0x0D}) (rev s))"

text \<open>strings.Cut at a colon, and the text before a comment.\<close>

definition cut_colon :: "string \<Rightarrow> (string \<times> string) option" where
  "cut_colon l =
     (if CHR '':'' \<in> set l
      then Some (takeWhile (\<lambda>c. c \<noteq> CHR '':'') l, drop 1 (dropWhile (\<lambda>c. c \<noteq> CHR '':'') l)) else None)"

fun before_comment :: "string \<Rightarrow> string option" where
  "before_comment [] = None"
| "before_comment (c # s) = (if has_prefix (c # s) '' #'' then Some [] else map_option ((#) c) (before_comment s))"

definition scalar :: "string \<Rightarrow> err + string" where
  "scalar v =
     (case v of
        [] \<Rightarrow> Inr []
      | q # s \<Rightarrow>
          if q = CHR 0x22 \<or> q = CHR 0x27 then
            (if q \<in> set s then Inr (rev (drop 1 (dropWhile (\<lambda>c. c \<noteq> q) (rev s)))) else Inl (Msg ''quoted value isn't closed''))
          else if q = CHR ''|'' \<or> q = CHR ''>'' then
            Inl (Msg ''block scalars aren't supported; write the value on one line'')
          else Inr (case before_comment v of Some w \<Rightarrow> trim_space w | None \<Rightarrow> v))"

definition scan_bound :: nat where
  "scan_bound = 2 ^ 16"

fun frontmatter_from :: "(string \<rightharpoonup> string) \<Rightarrow> bool \<Rightarrow> string list \<Rightarrow> err + (string \<rightharpoonup> string)" where
  "frontmatter_from fs long [] =
     Inl (if long then ErrTooLong else Msg ''frontmatter isn't closed by a --- line'')"
| "frontmatter_from fs long (l # ls) =
     (let line = trim_right l in
      if line = ''---'' then Inr fs
      else if line = [] \<or> hd line \<in> {CHR ''#'', CHR '' '', CHR 0x09} then frontmatter_from fs long ls
      else case cut_colon line of
        None \<Rightarrow> frontmatter_from fs long ls
      | Some (k, v) \<Rightarrow>
          (let key = trim_space k in
           case scalar (trim_space v) of
             Inl e \<Rightarrow>
               if key = ''name'' \<or> key = ''description''
               then Inl (wrap (''frontmatter key '' @ quote key) e)
               else frontmatter_from fs long ls
           | Inr value \<Rightarrow> frontmatter_from (fs(key \<mapsto> value)) long ls))"

definition frontmatter :: "string \<Rightarrow> err + (string \<rightharpoonup> string)" where
  "frontmatter data =
     (let (ts, long) = scan_tokens scan_bound data in
      case map fst ts of
        [] \<Rightarrow> Inl (Msg ''no frontmatter: the first line isn't ---'')
      | l # ls \<Rightarrow>
          if trim_right l \<noteq> ''---'' then Inl (Msg ''no frontmatter: the first line isn't ---'')
          else frontmatter_from Map.empty long ls)"

definition read_skill :: "err + string \<Rightarrow> err + string" where
  "read_skill file =
     (case file of
        Inl e \<Rightarrow> Inl e
      | Inr data \<Rightarrow>
          (case frontmatter data of
             Inl e \<Rightarrow> Inl e
           | Inr fs \<Rightarrow>
               (let name = case_option [] id (fs ''name''); description = case_option [] id (fs ''description'') in
                if name = [] then Inl (Msg ''frontmatter has no name'')
                else if 64 < length name \<or> \<not> skill_name_ok name then
                  Inl (Msg (''name '' @ quote name @ '' isn't 1 to 64 lowercase letters and digits in hyphen-separated runs''))
                else if description = [] then Inl (Msg ''frontmatter has no description'')
                else Inr name)))"

text \<open>A file system: its files, or the error reading one of them gives.\<close>

type_synonym files = "(string \<times> string) list"

definition read_file :: "files \<Rightarrow> string \<Rightarrow> err + string" where
  "read_file fs p = (case map_of fs p of None \<Rightarrow> Inl ErrNotExist | Some d \<Rightarrow> Inr d)"

definition catalog_skill :: "files \<Rightarrow> err + skill" where
  "catalog_skill fs =
     (case read_skill (read_file fs skill_file) of
        Inl e \<Rightarrow> Inl (wrap (''catalog: '' @ skill_file) e)
      | Inr name \<Rightarrow> Inr \<lparr>sk_name = name, sk_files = fs, sk_dir = []\<rparr>)"

text \<open>Skills' loop; \<open>sub\<close> is fs.Sub.\<close>

fun skills_from :: "(string \<Rightarrow> err + files) \<Rightarrow> entry list \<Rightarrow> err + skill list" where
  "skills_from sub [] = Inr []"
| "skills_from sub (e # es) =
     (if \<not> en_dir e then skills_from sub es
      else
        let file = path_join [en_name e, skill_file] in
        case en_stat e of
          Some er \<Rightarrow> if err_is er ErrNotExist then skills_from sub es else Inl (wrap ''catalog'' er)
        | None \<Rightarrow>
            (case sub (en_name e) of
               Inl er \<Rightarrow> Inl (wrap (''catalog: '' @ en_name e) er)
             | Inr fs \<Rightarrow>
                 (case read_skill (read_file fs skill_file) of
                    Inl er \<Rightarrow> Inl (wrap (''catalog: '' @ file) er)
                  | Inr name \<Rightarrow>
                      if name \<noteq> en_name e
                      then Inl (Msg (''catalog: '' @ file @ '': name '' @ quote name @ '' differs from its directory's''))
                      else map_sum id ((#) \<lparr>sk_name = name, sk_files = fs, sk_dir = []\<rparr>) (skills_from sub es))))"

definition catalog_skills :: "(string \<Rightarrow> err + files) \<Rightarrow> err + entry list \<Rightarrow> err + skill list" where
  "catalog_skills sub entries =
     (case entries of
        Inl e \<Rightarrow> Inl (wrap ''catalog'' e)
      | Inr es \<Rightarrow> skills_from sub es)"

definition skill_dir :: "(string \<Rightarrow> err + string) \<Rightarrow> (string \<Rightarrow> files) \<Rightarrow> string \<Rightarrow> err + skill" where
  "skill_dir absolute at dir =
     (case absolute dir of
        Inl e \<Rightarrow> Inl (wrap ''catalog'' e)
      | Inr a \<Rightarrow> map_sum id (\<lambda>s. s\<lparr>sk_dir := a\<rparr>) (catalog_skill (at a)))"

definition skills_dir :: "(string \<Rightarrow> err + string) \<Rightarrow> (string \<Rightarrow> string \<Rightarrow> err + files) \<Rightarrow> (string \<Rightarrow> err + entry list) \<Rightarrow> string
    \<Rightarrow> err + skill list" where
  "skills_dir absolute sub entries dir =
     (case absolute dir of
        Inl e \<Rightarrow> Inl (wrap ''catalog'' e)
      | Inr a \<Rightarrow>
          map_sum id (map (\<lambda>s. s\<lparr>sk_dir := path_join [a, sk_name s]\<rparr>)) (catalog_skills (sub a) (entries a)))"

section \<open>Output and its bounds\<close>

lemma drain_limited_pieces:
  assumes "length acc \<le> bound"
  shows "drain_limited bound ps (acc, False)
     = (if length (acc @ concat ps) \<le> bound then (acc @ concat ps, False) else (fst (drain_limited bound ps (acc, False)), True))"
  using assms
proof (induction ps arbitrary: acc)
  case (Cons p ps)
  then show ?case using Cons.IH[of "acc @ p"] by (auto simp: limited_write_def)
qed simp

text \<open>
  A command tool's call returns text exactly when its command started, ended well before its
  context did and wrote at most a mebibyte, and then the text is all it wrote, however the pipe was
  read; every other call fails.
\<close>

theorem command_output:
  "command_run exec c args = Inr s \<longleftrightarrow>
     (let p = exec c args in
      tp_start p = None \<and> tp_cause p = None \<and> tp_wait p = None
      \<and> length (concat (tp_stdout p)) \<le> max_output \<and> s = concat (tp_stdout p))"
proof -
  let ?p = "exec c args" let ?out = "drain_limited max_output (tp_stdout ?p) ([], False)" let ?all = "concat (tp_stdout ?p)"
  have "?out = (if length ?all \<le> max_output then (?all, False) else (fst ?out, True))"
    by (rule drain_limited_pieces[of "[]", unfolded append_Nil]) simp
  then consider "length ?all \<le> max_output" "fst ?out = ?all" "\<not> snd ?out" | "\<not> length ?all \<le> max_output" "snd ?out"
    by (metis fst_conv snd_conv)
  then show ?thesis
    by cases (auto simp: command_run_def Let_def split: option.splits)
qed

lemma stderr_tail_end: "drain_tail n ps = drop (length (concat ps) - n) (concat ps)"
proof -
  have "fold (tail_keep n) ps (drop (length s - n) s) = drop (length (s @ concat ps) - n) (s @ concat ps)" for s
  proof (induction ps arbitrary: s)
    case (Cons p ps)
    have "tail_keep n p (drop (length s - n) s) = drop (length (s @ p) - n) (s @ p)"
      by (cases "n \<le> length s") (auto simp: tail_keep_def Let_def add.commute)
    then show ?case using Cons.IH[of "s @ p"] by simp
  qed simp
  from this[of "[]"] show ?thesis by (simp add: drain_tail_def)
qed

section \<open>What the catalogs load\<close>

lemma compact_nonempty: "json_compact s = Some t \<Longrightarrow> t \<noteq> []"
proof -
  have "compact_from False s = [] \<Longrightarrow> skip_ws s = []" for s
    by (induction s) (auto simp: skip_ws_def split: if_splits)
  moreover assume "json_compact s = Some t"
  ultimately show "t \<noteq> []"
    by (auto simp: json_compact_def json_valid_def json_parse_def json_fuel_def split: if_splits)
qed

definition usable_tool :: "tool \<Rightarrow> bool" where
  "usable_tool t \<longleftrightarrow> tool_validate t = None \<and> trim_space (tl_description t) \<noteq> []
     \<and> validate_schema (tl_schema t) = None \<and> LF \<notin> set (tl_schema t)"

lemma command_tool_usable:
  assumes "command_tool absolute read exec dir = Inr t"
  shows "usable_tool t"
  using assms compact_nonempty
  by (auto simp: command_tool_def manifest_validate_def usable_tool_def tool_validate_def Let_def
      split: sum.splits option.splits if_splits dest: json_compact_line)

lemma tools_from_loads:
  "tools_from load dir seen es = Inr ts \<Longrightarrow>
     map Inr ts = map (\<lambda>e. load (path_join [dir, en_name e])) (filter (\<lambda>e. en_dir e \<and> en_stat e = None) es)
     \<and> distinct (map tl_name ts) \<and> (\<forall>t \<in> set ts. seen (tl_name t) = None)"
proof (induction es arbitrary: seen ts)
  case (Cons e es)
  show ?case
  proof (cases "en_dir e \<and> en_stat e = None")
    case True
    then obtain t ts' where t: "load (path_join [dir, en_name e]) = Inr t" "seen (tl_name t) = None" "ts = t # ts'"
        "tools_from load dir (seen(tl_name t \<mapsto> path_join [dir, en_name e])) es = Inr ts'"
      using Cons.prems by (auto simp: Let_def map_sum_Inr split: sum.splits option.splits)
    from Cons.IH[OF t(4)] show ?thesis using t True by (auto split: if_splits)
  next
    case False
    then have "tools_from load dir seen es = Inr ts" using Cons.prems by (auto simp: Let_def split: if_splits option.splits)
    then show ?thesis using Cons.IH[of seen ts] False by auto
  qed
qed simp


text \<open>
  C28: the tools a directory gives are sorted by their names, which are distinct; each is the tool of a
  subdirectory that holds a tool.json, with none left out, and each one is a tool the harness accepts
  as it is: a valid name, a description, a handler and an object schema on one line.
\<close>

theorem catalog_tools_usable:
  assumes "catalog_tools (command_tool absolute read exec) dir (Inr es) = Inr ts"
  shows "sorted (map tl_name ts) \<and> distinct (map tl_name ts) \<and> list_all usable_tool ts
     \<and> mset (map Inr ts)
         = mset (map (\<lambda>e. command_tool absolute read exec (path_join [dir, en_name e])) (filter (\<lambda>e. en_dir e \<and> en_stat e = None) es))"
proof -
  let ?load = "command_tool absolute read exec"
  obtain us where us: "tools_from ?load dir Map.empty es = Inr us" "ts = sort_key tl_name us"
    using assms by (auto simp: catalog_tools_def map_sum_Inr)
  have l: "map Inr us = map (\<lambda>e. ?load (path_join [dir, en_name e])) (filter (\<lambda>e. en_dir e \<and> en_stat e = None) es)"
    "distinct (map tl_name us)"
    using tools_from_loads[OF us(1)] by blast+
  have "usable_tool t" if "t \<in> set us" for t
  proof -
    have "(Inr t :: err + tool) \<in> set (map Inr us)" using that by simp
    from this[unfolded l(1) set_map] show ?thesis
      by (rule imageE) (rule command_tool_usable, rule sym)
  qed
  moreover have "mset (map Inr ts)
      = mset (map (\<lambda>e. ?load (path_join [dir, en_name e])) (filter (\<lambda>e. en_dir e \<and> en_stat e = None) es))"
    unfolding l(1)[symmetric] us(2) by simp
  moreover have "distinct (map tl_name ts)"
    using l(2) us(2) by (metis distinct_map distinct_sort inj_on_cong set_sort)
  ultimately show ?thesis using us(2) by (simp add: list_all_iff del: mset_map)
qed

lemma split_on_chars: "d \<in> set s \<Longrightarrow> d = c \<or> (\<exists>w \<in> set (split_on c s). d \<in> set w)"
  by (induction c s rule: split_on.induct) (auto split: list.splits if_splits)

lemma skill_name_chars:
  assumes "skill_name_ok n"
  shows "n \<noteq> []" "d \<in> set n \<Longrightarrow> lower_alnum d \<or> d = CHR ''-''"
  using assms split_on_chars[of d n "CHR ''-''"] by (auto simp: skill_name_ok_def list_all_iff)

lemma skill_name_validates: "skill_name_ok n \<Longrightarrow> skill_validate \<lparr>sk_name = n, sk_files = fs, sk_dir = d\<rparr> = None"
proof -
  assume ok: "skill_name_ok n"
  have c: "\<not> lower_alnum CHR ''/'' \<and> \<not> lower_alnum CHR 0x5C \<and> \<not> lower_alnum CHR ''.''"
    by (simp add: lower_alnum_def less_eq_char_def)
  then have "CHR ''/'' \<notin> set n" "CHR 0x5C \<notin> set n" "CHR ''.'' \<notin> set n"
    using skill_name_chars(2)[OF ok] by fastforce+
  then show ?thesis using skill_name_chars(1)[OF ok] by (auto simp: skill_validate_def)
qed

lemma read_skill_name: "read_skill file = Inr n \<Longrightarrow> skill_name_ok n \<and> length n \<le> 64 \<and> (\<exists>data. file = Inr data)"
  by (auto simp: read_skill_def Let_def split: sum.splits if_splits)

lemma skills_from_names:
  "skills_from sub es = Inr ss \<Longrightarrow>
     map sk_name ss = map en_name (filter (\<lambda>e. en_dir e \<and> en_stat e = None) es)
     \<and> (\<forall>s \<in> set ss. skill_name_ok (sk_name s) \<and> length (sk_name s) \<le> 64 \<and> skill_validate s = None
          \<and> sub (sk_name s) = Inr (sk_files s) \<and> sk_dir s = [])"
proof (induction es arbitrary: ss)
  case (Cons e es)
  show ?case
  proof (cases "en_dir e \<and> en_stat e = None")
    case True
    then obtain fs ss' where t: "sub (en_name e) = Inr fs" "read_skill (read_file fs skill_file) = Inr (en_name e)"
        "ss = \<lparr>sk_name = en_name e, sk_files = fs, sk_dir = []\<rparr> # ss'" "skills_from sub es = Inr ss'"
      using Cons.prems by (auto simp: Let_def map_sum_Inr split: sum.splits if_splits)
    then have "map sk_name ss' = map en_name (filter (\<lambda>e. en_dir e \<and> en_stat e = None) es)
     \<and> (\<forall>s \<in> set ss'. skill_name_ok (sk_name s) \<and> length (sk_name s) \<le> 64 \<and> skill_validate s = None
          \<and> sub (sk_name s) = Inr (sk_files s) \<and> sk_dir s = [])"
      using Cons.IH[OF t(4)] by simp
    then show ?thesis using t True read_skill_name[OF t(2)] skill_name_validates by simp
  next
    case False
    then have "skills_from sub es = Inr ss" using Cons.prems by (auto simp: Let_def split: if_splits option.splits)
    then show ?thesis using Cons.IH[of ss] False by auto
  qed
qed simp


text \<open>
  The skills a file system gives are named as their directories, in the order of the directory's
  entries and so sorted, none left out; each is a skill the harness accepts, under a name of at most 64
  lower-case letters and digits in runs between hyphens, and holds its directory's files.
\<close>

theorem catalog_skills_usable:
  assumes "catalog_skills sub (Inr es) = Inr ss" "sorted_wrt (<) (map en_name es)"
  shows "sorted_wrt (<) (map sk_name ss)
     \<and> map sk_name ss = map en_name (filter (\<lambda>e. en_dir e \<and> en_stat e = None) es)
     \<and> (\<forall>s \<in> set ss. skill_name_ok (sk_name s) \<and> length (sk_name s) \<le> 64 \<and> skill_validate s = None
          \<and> sub (sk_name s) = Inr (sk_files s) \<and> sk_dir s = [])"
proof -
  have "sorted_wrt (<) (map en_name (filter (\<lambda>e. en_dir e \<and> en_stat e = None) es))"
    using assms(2) by (simp add: sorted_wrt_map sorted_wrt_filter)
  then show ?thesis using skills_from_names[of sub es ss] assms(1) by (simp add: catalog_skills_def)
qed

definition review_md :: string where
  "review_md = ''---'' @ [LF] @ ''name: '' @ [CHR 0x27] @ ''review'' @ [CHR 0x27, LF] @ ''description: \"Reviews: # all\" # y'' @ [LF] @ ''---'' @ [LF] @ ''# Body'' @ [LF]"

lemma catalog_skills_usable_witness:
  "sorted_wrt (<) (map sk_name [\<lparr>sk_name = ''review'', sk_files = [(''SKILL.md'', review_md)], sk_dir = []\<rparr>])
     \<and> skill_validate \<lparr>sk_name = ''review'', sk_files = [(''SKILL.md'', review_md)], sk_dir = []\<rparr> = None"
proof -
  let ?sub = "\<lambda>d. Inr [(''SKILL.md'', review_md)]"
  let ?es = "[\<lparr>en_name = ''notes'', en_dir = True, en_stat = Some ErrNotExist\<rparr>, \<lparr>en_name = ''review'', en_dir = True, en_stat = None\<rparr>,
    \<lparr>en_name = ''todo.md'', en_dir = False, en_stat = None\<rparr>]"
  have "scan_tokens scan_bound review_md
      = ([(''---'', False), (''name: '' @ [CHR 0x27] @ ''review'' @ [CHR 0x27], False),
          (''description: \"Reviews: # all\" # y'', False), (''---'', False), (''# Body'', False)], False)"
    by (simp add: review_md_def scan_bound_def scan_tokens.simps drop_cr_def Let_def)
  moreover have "frontmatter_from Map.empty False [''name: '' @ [CHR 0x27] @ ''review'' @ [CHR 0x27],
      ''description: \"Reviews: # all\" # y'', ''---'', ''# Body'']
    = Inr [''name'' \<mapsto> ''review'', ''description'' \<mapsto> ''Reviews: # all'']"
  proof -
    let ?n = "''name: '' @ [CHR 0x27] @ ''review'' @ [CHR 0x27]" and ?d = "''description: \"Reviews: # all\" # y''"
    have "trim_right ?n = ?n" "trim_right ?d = ?d" "trim_right ''---'' = ''---''"
      by (simp_all add: trim_right_def)
    moreover have "cut_colon ?n = Some (''name'', '' '' @ [CHR 0x27] @ ''review'' @ [CHR 0x27])"
      "cut_colon ?d = Some (''description'', '' \"Reviews: # all\" # y'')"
      by (simp_all add: cut_colon_def)
    moreover have "scalar (trim_space ('' '' @ [CHR 0x27] @ ''review'' @ [CHR 0x27])) = Inr ''review''"
      "scalar (trim_space '' \"Reviews: # all\" # y'') = Inr ''Reviews: # all''"
      "trim_space ''name'' = ''name''" "trim_space ''description'' = ''description''"
      by (simp_all add: trim_space_blank trim_space_printable printable_def scalar_def)
    ultimately show ?thesis by simp
  qed
  moreover have "skill_name_ok ''review''" "trim_right ''---'' = ''---''" by code_simp+
  ultimately have "read_skill (Inr review_md) = Inr ''review''"
    by (simp add: read_skill_def frontmatter_def)
  then have "catalog_skills ?sub (Inr ?es) = Inr [\<lparr>sk_name = ''review'', sk_files = [(''SKILL.md'', review_md)], sk_dir = []\<rparr>]"
    "sorted_wrt (<) (map en_name ?es)"
    by (simp add: catalog_skills_def skill_file_def read_file_def ErrNotExist_def) code_simp
  from catalog_skills_usable[OF this] show ?thesis by simp
qed

definition echo_dir :: "string \<Rightarrow> err + string" where
  "echo_dir p = (if p = ''/tools/echo/tool.json''
     then Inr ''{\"name\":\"echo\",\"description\":\"Says it back\",\"inputSchema\":{ \"type\": \"object\" },\"command\":[\"./run.sh\"]}'' else Inl ErrNotExist)"

definition echo_exec :: "tool_command \<Rightarrow> string \<Rightarrow> tool_process" where
  "echo_exec c args = \<lparr>tp_start = None, tp_stdout = [tc_path c, args], tp_stderr = [], tp_wait = None, tp_cause = None\<rparr>"

lemma catalog_tools_usable_witness:
  "\<exists>t. catalog_tools (command_tool Inr echo_dir echo_exec) ''/tools'' (Inr [\<lparr>en_name = ''echo'', en_dir = True, en_stat = None\<rparr>]) = Inr [t]
     \<and> usable_tool t \<and> the (tl_handler t) ''hi'' = Inr ''/tools/echo/run.shhi''"
proof -
  let ?es = "[\<lparr>en_name = ''echo'', en_dir = True, en_stat = None\<rparr>]"
  let ?c = "\<lparr>tc_name = ''echo'', tc_dir = ''/tools/echo'', tc_path = ''/tools/echo/run.sh'', tc_args = []\<rparr>"
  let ?t = "\<lparr>tl_name = ''echo'', tl_description = ''Says it back'', tl_schema = ''{\"type\":\"object\"}'', tl_handler = Some (command_run echo_exec ?c)\<rparr>"
  let ?json = "''{\"name\":\"echo\",\"description\":\"Says it back\",\"inputSchema\":{ \"type\": \"object\" },\"command\":[\"./run.sh\"]}''"
  have p: "path_join [''/tools'', ''echo''] = ''/tools/echo''" "path_join [''/tools/echo'', tool_file] = ''/tools/echo/tool.json''"
    "path_join [''/tools/echo'', ''./run.sh''] = ''/tools/echo/run.sh''"
    by code_simp+
  have m: "unmarshal_struct ?json \<bind> tool_manifest_of = Some
      \<lparr>mf_name = ''echo'', mf_description = ''Says it back'', mf_schema = ''{ \"type\": \"object\" }'', mf_command = [''./run.sh'']\<rparr>"
    by code_simp
  have w: "trim_space ''Says it back'' \<noteq> []" by (simp add: trim_space_printable printable_def)
  have o: "trim_space ''\"object\"'' = ''\"object\"''" by (simp add: trim_space_printable printable_def)
  have "map_option (raw_field ''type'') (unmarshal_struct ''{ \"type\": \"object\" }'') = Some ''\"object\"''"
    "map_option (raw_field ''type'') (unmarshal_struct ''{\"type\":\"object\"}'') = Some ''\"object\"''"
    by code_simp+
  with o have u: "validate_schema ''{ \"type\": \"object\" }'' = None" "validate_schema ''{\"type\":\"object\"}'' = None"
    by (auto simp: validate_schema_None)
  have v: "manifest_validate
      \<lparr>mf_name = ''echo'', mf_description = ''Says it back'', mf_schema = ''{ \"type\": \"object\" }'', mf_command = [''./run.sh'']\<rparr> = None"
    using w u by (simp add: manifest_validate_def)
  have x: "json_compact ''{ \"type\": \"object\" }'' = Some ''{\"type\":\"object\"}''" "tool_name_ok ''echo''"
    by code_simp+
  have "command_tool Inr echo_dir echo_exec ''/tools/echo'' = Inr ?t"
    using m v x u by (simp add: command_tool_def p echo_dir_def is_abs_def has_prefix_def tool_validate_def Let_def)
  then have t: "catalog_tools (command_tool Inr echo_dir echo_exec) ''/tools'' (Inr ?es) = Inr [?t]"
    by (simp add: catalog_tools_def p)
  have "usable_tool ?t" using catalog_tools_usable[OF t] by simp
  moreover have "command_run echo_exec ?c ''hi'' = Inr ''/tools/echo/run.shhi''"
    by (simp add: command_run_def echo_exec_def limited_write_def max_output_def)
  ultimately show ?thesis using t by auto
qed

end
