(* ===== verification/Cache.thy ===== *)
theory Cache
  imports Catalog Sha256
begin

text \<open>
  The cache of the files a driver loads into a harness (harness/cache): the digest that names a
  directory, and Dir as a step relation over any number of writers of one directory, with what the
  operating system answers left open. A file system is the list of its regular files in the order
  fs.WalkDir walks them.
\<close>

section \<open>Digests\<close>

definition hash_file :: "string \<Rightarrow> string \<Rightarrow> string" where
  "hash_file p data = p @ [CHR 0x00] @ nat_text (length data) @ [CHR 0x00] @ data"

definition tree_bytes :: "files \<Rightarrow> string" where
  "tree_bytes fs = concat (map (\<lambda>(p, data). hash_file p data) fs)"

definition digest_of :: "string \<Rightarrow> string" where
  "digest_of bytes = take 12 (hex_text (sha256 (map of_char bytes)))"

definition tree_digest :: "err + files \<Rightarrow> err + string" where
  "tree_digest fs = map_sum id (\<lambda>fs. digest_of (tree_bytes fs)) fs"

definition file_digest :: "string \<Rightarrow> string \<Rightarrow> string" where
  "file_digest p data = digest_of (hash_file p data)"

text \<open>FS: \<open>dir\<close> is Dir under the root and the name, with the copy of the files as its write.\<close>

definition cache_files :: "(string \<Rightarrow> err + string) \<Rightarrow> err + files \<Rightarrow> err + string" where
  "cache_files dir fs = (case tree_digest fs of Inl e \<Rightarrow> Inl e | Inr d \<Rightarrow> dir d)"

definition cache_path :: "string \<Rightarrow> string \<Rightarrow> string \<Rightarrow> string" where
  "cache_path root name digest = path_join [root, name @ ''-'' @ digest]"

section \<open>Private directories\<close>

text \<open>A mode's permission bits as FileMode prints them.\<close>

definition perm_text :: "nat \<Rightarrow> string" where
  "perm_text perm = CHR ''-'' # map (\<lambda>i. if odd (perm div 2 ^ (8 - i)) then ''rwxrwxrwx'' ! i else CHR ''-'') [0..<9]"

text \<open>Private on Unix: what Stat answers, the owner and the permission bits, for the user \<open>me\<close>.\<close>

definition cache_private :: "string \<Rightarrow> int \<Rightarrow> err + int \<times> nat \<Rightarrow> err option" where
  "cache_private dir me stat =
     (case stat of
        Inl e \<Rightarrow> Some e
      | Inr (uid, perm) \<Rightarrow>
          if uid \<noteq> me then Some (Msg (''cache: '' @ dir @ '' belongs to another user''))
          else if odd (perm div 16) \<or> odd (perm div 2)
          then Some (Msg (''cache: '' @ dir @ '' is writable by others ('' @ perm_text perm @ '')''))
          else None)"

section \<open>Dir\<close>

text \<open>
  Where a writer is: at the root's checks, the Stat of the directory, its digest, its removal, the
  temporary directory, the write, the rename, or the Stat after a rename that failed.
\<close>

datatype cache_pc =
    CacheRoot
  | CacheStat
  | CacheDigest
  | CacheRemove
  | CacheTemp
  | CacheWrite
  | CacheRename
  | CacheLost err
  | CacheDone "err option"

text \<open>The directory's files, when it is there, and every writer.\<close>

record cache_state =
  ca_dir :: "files option"
  ca_pc :: "nat \<Rightarrow> cache_pc"

definition cache_at :: "nat \<Rightarrow> cache_pc \<Rightarrow> cache_state \<Rightarrow> cache_state" where
  "cache_at i pc s = s\<lparr>ca_pc := (ca_pc s)(i := pc)\<rparr>"

text \<open>
  One writer's next step. \<open>flaky\<close> is whether reading files that are there may fail; \<open>made\<close> is what
  the write puts in the staged directory. RemoveAll takes the files one by one.
\<close>

inductive cache_step :: "bool \<Rightarrow> files \<Rightarrow> string \<Rightarrow> cache_state \<Rightarrow> cache_state \<Rightarrow> bool" for flaky made digest where
  root: "ca_pc s i = CacheRoot \<Longrightarrow> cache_step flaky made digest s (cache_at i CacheStat s)"
| root_fails: "ca_pc s i = CacheRoot \<Longrightarrow> cache_step flaky made digest s (cache_at i (CacheDone (Some e)) s)"
| found: "ca_pc s i = CacheStat \<Longrightarrow> ca_dir s \<noteq> None \<Longrightarrow> cache_step flaky made digest s (cache_at i CacheDigest s)"
| missing: "ca_pc s i = CacheStat \<Longrightarrow> ca_dir s = None \<or> flaky \<Longrightarrow> cache_step flaky made digest s (cache_at i CacheTemp s)"
| same: "ca_pc s i = CacheDigest \<Longrightarrow> ca_dir s = Some fs \<Longrightarrow> tree_digest (Inr fs) = Inr digest \<Longrightarrow>
    cache_step flaky made digest s (cache_at i (CacheDone None) s)"
| differs: "ca_pc s i = CacheDigest \<Longrightarrow> flaky \<or> (\<forall>fs. ca_dir s = Some fs \<longrightarrow> tree_digest (Inr fs) \<noteq> Inr digest) \<Longrightarrow>
    cache_step flaky made digest s (cache_at i CacheRemove s)"
| remove_file: "ca_pc s i = CacheRemove \<Longrightarrow> ca_dir s = Some fs \<Longrightarrow>
    cache_step flaky made digest s (s\<lparr>ca_dir := Some (filter (\<lambda>f. f \<noteq> g) fs)\<rparr>)"
| removed: "ca_pc s i = CacheRemove \<Longrightarrow> cache_step flaky made digest s ((cache_at i CacheTemp s)\<lparr>ca_dir := None\<rparr>)"
| remove_fails: "ca_pc s i = CacheRemove \<Longrightarrow> cache_step flaky made digest s (cache_at i (CacheDone (Some e)) s)"
| temp: "ca_pc s i = CacheTemp \<Longrightarrow> cache_step flaky made digest s (cache_at i CacheWrite s)"
| temp_fails: "ca_pc s i = CacheTemp \<Longrightarrow> cache_step flaky made digest s (cache_at i (CacheDone (Some e)) s)"
| written: "ca_pc s i = CacheWrite \<Longrightarrow> cache_step flaky made digest s (cache_at i CacheRename s)"
| write_fails: "ca_pc s i = CacheWrite \<Longrightarrow> cache_step flaky made digest s (cache_at i (CacheDone (Some e)) s)"
| rename: "ca_pc s i = CacheRename \<Longrightarrow> ca_dir s = None \<or> ca_dir s = Some [] \<Longrightarrow>
    cache_step flaky made digest s ((cache_at i (CacheDone None) s)\<lparr>ca_dir := Some made\<rparr>)"
| rename_fails: "ca_pc s i = CacheRename \<Longrightarrow> cache_step flaky made digest s (cache_at i (CacheLost e) s)"
| lost_race: "ca_pc s i = CacheLost e \<Longrightarrow> ca_dir s \<noteq> None \<Longrightarrow> cache_step flaky made digest s (cache_at i (CacheDone None) s)"
| lost: "ca_pc s i = CacheLost e \<Longrightarrow> ca_dir s = None \<or> flaky \<Longrightarrow> cache_step flaky made digest s (cache_at i (CacheDone (Some e)) s)"

inductive_cases cache_stepE: "cache_step flaky made digest s s'"

definition cache_start :: "files option \<Rightarrow> cache_state" where
  "cache_start dir = \<lparr>ca_dir = dir, ca_pc = \<lambda>_. CacheRoot\<rparr>"

definition cache_reach :: "bool \<Rightarrow> files \<Rightarrow> string \<Rightarrow> files option \<Rightarrow> cache_state \<Rightarrow> bool" where
  "cache_reach flaky made digest dir s \<longleftrightarrow> (cache_step flaky made digest)\<^sup>*\<^sup>* (cache_start dir) s"

section \<open>Digests tell trees apart\<close>

text \<open>The bytes hashed are those of one tree alone.\<close>

lemma hash_file_inj:
  assumes "hash_file p d @ x = hash_file q e @ y" "CHR 0x00 \<notin> set p" "CHR 0x00 \<notin> set q"
  shows "p = q \<and> d = e \<and> x = y"
proof -
  have cut: "u = v \<and> r = t"
    if "u @ CHR 0x00 # r = v @ CHR 0x00 # t" "CHR 0x00 \<notin> set u" "CHR 0x00 \<notin> set v" for u v r t :: string
    using that by (auto simp: append_eq_append_conv2 append_eq_Cons_conv Cons_eq_append_conv)
  have digits: "CHR 0x00 \<notin> set (nat_text n)" for n
    using nat_text_read(2)[of n] by (auto simp: list_all_iff is_digit_def less_eq_char_def)
  have p: "p = q" "nat_text (length d) @ CHR 0x00 # d @ x = nat_text (length e) @ CHR 0x00 # e @ y"
    using cut[of p _ q] assms by (auto simp: hash_file_def)
  have d: "nat_text (length d) = nat_text (length e)" "d @ x = e @ y" using cut[OF p(2) digits digits] by auto
  have "length d = length e" using d(1) nat_text_read(1) by metis
  then show ?thesis using p d(2) by simp
qed

text \<open>
  The bytes a digest is taken of tell the tree: two trees that give the same ones have the same
  files, paths and contents, so none hashes alike by moving bytes between files.
\<close>

theorem tree_bytes_inj:
  assumes "\<forall>f \<in> set fs \<union> set gs. CHR 0x00 \<notin> set (fst f)" "tree_bytes fs = tree_bytes gs"
  shows "fs = gs"
  using assms
proof (induction fs arbitrary: gs)
  case Nil
  then show ?case by (cases gs) (auto simp: tree_bytes_def hash_file_def)
next
  case (Cons f fs)
  obtain g gs' where gs: "gs = g # gs'" using Cons.prems(2) by (cases gs) (auto simp: tree_bytes_def hash_file_def case_prod_unfold)
  have "hash_file (fst f) (snd f) @ tree_bytes fs = hash_file (fst g) (snd g) @ tree_bytes gs'"
    using Cons.prems(2) gs by (simp add: tree_bytes_def case_prod_unfold)
  from hash_file_inj[OF this] have "f = g" "tree_bytes fs = tree_bytes gs'" using Cons.prems(1) gs by (auto simp: prod_eq_iff)
  then show ?case using Cons.IH[of gs'] Cons.prems(1) gs by simp
qed

lemma tree_bytes_inj_witness:
  "[(''a'', ''1''), (''b'', [])] = [(''a'', ''1''), (''b'', [] :: string)] \<and> tree_bytes [(''a'', ''1'')] = ''a'' @ [CHR 0x00] @ ''1'' @ [CHR 0x00] @ ''1''"
proof -
  have "\<forall>f \<in> set [(''a'', ''1''), (''b'', [])] \<union> set [(''a'', ''1''), (''b'', [] :: string)]. CHR 0x00 \<notin> set (fst f)" by simp
  from tree_bytes_inj[OF this refl] show ?thesis by (simp add: tree_bytes_def hash_file_def) code_simp
qed

section \<open>What Dir returns\<close>

text \<open>The directory is missing or has its digest, and no writer is about to remove it.\<close>

definition cache_good :: "string \<Rightarrow> files option \<Rightarrow> bool" where
  "cache_good digest dir \<longleftrightarrow> (case dir of None \<Rightarrow> True | Some fs \<Rightarrow> tree_digest (Inr fs) = Inr digest)"

definition cache_inv :: "string \<Rightarrow> cache_state \<Rightarrow> bool" where
  "cache_inv digest s \<longleftrightarrow> cache_good digest (ca_dir s)
     \<and> (\<forall>i. ca_pc s i \<noteq> CacheRemove
          \<and> (ca_pc s i \<in> {CacheDigest, CacheDone None} \<longrightarrow> ca_dir s \<noteq> None))"

lemma cache_inv_step:
  assumes "cache_step False made digest s s'" "cache_inv digest s" "tree_digest (Inr made) = Inr digest"
  shows "cache_inv digest s'"
  using assms by (cases rule: cache_step.cases) (auto simp: cache_inv_def cache_at_def cache_good_def split: if_splits)

lemma cache_inv_reach:
  assumes "(cache_step False made digest)\<^sup>*\<^sup>* s s'" "cache_inv digest s" "tree_digest (Inr made) = Inr digest"
  shows "cache_inv digest s'"
  using assms by (induction rule: rtranclp_induct) (auto intro: cache_inv_step)


text \<open>A writer that takes a step.\<close>

lemma cache_move: "cache_reach flaky made digest dir s \<Longrightarrow> cache_step flaky made digest s s' \<Longrightarrow> cache_reach flaky made digest dir s'"
  by (simp add: cache_reach_def)

text \<open>A writer of a missing directory, alone: it makes the directory.\<close>

lemma cache_fresh:
  assumes "cache_reach flaky made digest dir s" "ca_pc s i = CacheTemp" "ca_dir s = None"
  shows "cache_reach flaky made digest dir (s\<lparr>ca_pc := (ca_pc s)(i := CacheDone None), ca_dir := Some made\<rparr>)"
proof -
  let ?s = "\<lambda>pc. s\<lparr>ca_pc := (ca_pc s)(i := pc)\<rparr>"
  have "cache_reach flaky made digest dir (?s CacheWrite)"
    using cache_move[OF assms(1) cache_step.temp[OF assms(2)]] by (simp add: cache_at_def)
  from cache_move[OF this cache_step.written[of _ i]] have "cache_reach flaky made digest dir (?s CacheRename)"
    by (simp add: cache_at_def)
  from cache_move[OF this cache_step.rename[of _ i]] assms(3) show ?thesis by (simp add: cache_at_def)
qed


text \<open>
  A directory that a crash cut short: a lone writer makes it whole. Of two writers, one that saw the
  damage before the other mended it removes what the other has returned.
\<close>

definition cache_alone :: "string \<Rightarrow> nat \<Rightarrow> cache_state \<Rightarrow> bool" where
  "cache_alone digest i s \<longleftrightarrow> (\<forall>j. j \<noteq> i \<longrightarrow> ca_pc s j = CacheRoot) \<longrightarrow>
     (case ca_pc s i of
        CacheTemp \<Rightarrow> ca_dir s = None | CacheWrite \<Rightarrow> ca_dir s = None | CacheRename \<Rightarrow> ca_dir s = None
      | CacheLost e \<Rightarrow> ca_dir s = None
      | CacheDone None \<Rightarrow> (\<exists>fs. ca_dir s = Some fs \<and> tree_digest (Inr fs) = Inr digest)
      | _ \<Rightarrow> True)"

lemma cache_root_first: "cache_step flaky made digest s s' \<Longrightarrow> ca_pc s' j = CacheRoot \<Longrightarrow> ca_pc s j = CacheRoot"
  by (erule cache_stepE) (auto simp: cache_at_def split: if_splits)

lemma cache_alone_step:
  assumes "cache_step False made digest s s'" "cache_alone digest i s" "tree_digest (Inr made) = Inr digest"
  shows "cache_alone digest i s'"
  using assms cache_root_first[OF assms(1)]
proof (cases rule: cache_step.cases)
  case (remove_file j fs g)
  then show ?thesis using assms(2) by (cases "j = i") (auto simp: cache_alone_def)
qed (auto simp: cache_alone_def cache_at_def split: cache_pc.splits option.splits if_splits)

lemma cache_alone_whole:
  assumes "cache_reach False made digest dir s" "tree_digest (Inr made) = Inr digest"
    and "ca_pc s i = CacheDone None" "\<forall>j. j \<noteq> i \<longrightarrow> ca_pc s j = CacheRoot"
  shows "\<exists>fs. ca_dir s = Some fs \<and> tree_digest (Inr fs) = Inr digest"
proof -
  have "cache_alone digest i (cache_start dir)" by (simp add: cache_alone_def cache_start_def)
  with assms(1)[unfolded cache_reach_def] have "cache_alone digest i s"
    by (induction rule: rtranclp_induct) (auto intro: cache_alone_step[OF _ _ assms(2)])
  then show ?thesis using assms(3,4) by (simp add: cache_alone_def)
qed

text \<open>Two writers' places, for the example.\<close>

definition cache_two :: "files option \<Rightarrow> cache_pc \<Rightarrow> cache_pc \<Rightarrow> cache_state" where
  "cache_two dir a b = \<lparr>ca_dir = dir, ca_pc = \<lambda>i. if i = 0 then a else if i = 1 then b else CacheRoot\<rparr>"

lemma cache_two_simps:
  "ca_pc (cache_two dir a b) 0 = a" "ca_pc (cache_two dir a b) 1 = b" "ca_dir (cache_two dir a b) = dir"
  "cache_at 0 c (cache_two dir a b) = cache_two dir c b" "cache_at 1 c (cache_two dir a b) = cache_two dir a c"
  "(cache_two dir a b)\<lparr>ca_dir := d\<rparr> = cache_two d a b"
  "(cache_two dir a b)\<lparr>ca_pc := (ca_pc (cache_two dir a b))(0 := c), ca_dir := d\<rparr> = cache_two d c b"
  "cache_start dir = cache_two dir CacheRoot CacheRoot"
  by (auto simp: cache_two_def cache_at_def cache_start_def fun_eq_iff)

lemma cache_race:
  assumes "tree_digest (Inr bad) \<noteq> Inr digest"
  shows "\<exists>s. cache_reach False made digest (Some bad) s \<and> ca_pc s 0 = CacheDone None \<and> ca_dir s = None"
proof -
  let ?r = "cache_reach False made digest (Some bad)"
  note go = cache_move[of False made digest "Some bad"]
  have "?r (cache_two (Some bad) CacheRoot CacheRoot)" by (simp add: cache_reach_def flip: cache_two_simps(8))
  from go[OF this cache_step.root[of _ 0]] have "?r (cache_two (Some bad) CacheStat CacheRoot)" by (simp only: cache_two_simps)
  from go[OF this cache_step.root[of _ 1]] have "?r (cache_two (Some bad) CacheStat CacheStat)" by (simp only: cache_two_simps)
  from go[OF this cache_step.found[of _ 0]] have "?r (cache_two (Some bad) CacheDigest CacheStat)"
    by (simp only: cache_two_simps option.distinct simp_thms)
  from go[OF this cache_step.found[of _ 1]] have "?r (cache_two (Some bad) CacheDigest CacheDigest)"
    by (simp only: cache_two_simps option.distinct simp_thms)
  from go[OF this cache_step.differs[of _ 0]] assms have "?r (cache_two (Some bad) CacheRemove CacheDigest)"
    by (simp only: cache_two_simps option.inject simp_thms)
  from go[OF this cache_step.differs[of _ 1]] assms have "?r (cache_two (Some bad) CacheRemove CacheRemove)"
    by (simp only: cache_two_simps option.inject simp_thms)
  from go[OF this cache_step.removed[of _ 0]] have "?r (cache_two None CacheTemp CacheRemove)" by (simp only: cache_two_simps)
  from cache_fresh[OF this, of 0] have "?r (cache_two (Some made) (CacheDone None) CacheRemove)" by (simp only: cache_two_simps)
  from go[OF this cache_step.removed[of _ 1]] have "?r (cache_two None (CacheDone None) CacheTemp)" by (simp only: cache_two_simps)
  then show ?thesis using cache_two_simps(1,3) by blast
qed

end
