(* ===== verification/Tunnel.thy ===== *)
theory Tunnel
  imports Json_Encode Go_Errors Sha256
begin

text \<open>
  The tunnel (mcpbridge/tunnel.go): Deliver hands the server the harness's messages and waits for its
  responses. The state is that of tunnelConn and of every Deliver; each critical section, channel
  operation and select is a step, and the go-sdk's server reads and writes as it likes. The
  endpoint's check of its token (mcpbridge/http.go) is at the end. JSON-RPC's encoding is the
  go-sdk's: \<open>decode\<close> and \<open>encode\<close> are arguments.
\<close>

section \<open>Messages\<close>

datatype rpc_id = IdNum int | IdText string

definition rpc_id_val :: "rpc_id \<Rightarrow> goval" where
  "rpc_id_val i = (case i of IdNum n \<Rightarrow> GInt n | IdText s \<Rightarrow> GStr s)"

definition rpc_id_text :: "rpc_id \<Rightarrow> string" where
  "rpc_id_text i = (case i of IdNum n \<Rightarrow> int_text n | IdText s \<Rightarrow> s)"

datatype rpc =
    RpcCall rpc_id string string
  | RpcNotify string string
  | RpcReply rpc_id string

definition ErrTunnelClosed :: err where
  "ErrTunnelClosed = Sentinel ''mcpbridge: tunnel is closed''"

definition call_open :: "rpc_id \<Rightarrow> err" where
  "call_open i = Msg (''mcpbridge: request '' @ rpc_id_text i @ '' is already open'')"

text \<open>cancel's notification; text always marshals, so there is one.\<close>

definition cancelled_note :: "rpc_id \<Rightarrow> err option \<Rightarrow> rpc" where
  "cancelled_note i cause =
     RpcNotify ''notifications/cancelled''
       (the (marshal (GMap ([(''requestId'', rpc_id_val i)]
          @ (case cause of None \<Rightarrow> [] | Some e \<Rightarrow> [(''reason'', GStr (err_text e))])))))"

section \<open>State\<close>

text \<open>
  A Deliver: not started; pushing a call that await has registered; giving a call up whose push
  failed; waiting for its response; past forget after its context ended; pushing another message;
  returned.
\<close>

datatype deliver_pc =
    DeliverIdle
  | DeliverPush rpc_id rpc
  | DeliverUnpush rpc_id err
  | DeliverWait rpc_id
  | DeliverCancel rpc_id err
  | DeliverOther rpc
  | DeliverDone "err + string option"

text \<open>
  \<open>tn_waiting\<close> is the map \<open>waiting\<close>, to the number of the Deliver whose channel it holds, and
  \<open>tn_replies\<close> what that channel has buffered. \<open>tn_writing\<close> are the messages of Write calls past
  their check that the tunnel is open, \<open>tn_cancels\<close> the goroutines of cancel, \<open>tn_read\<close> what the
  server has read and \<open>tn_outbound\<close> what outbound was called with. \<open>tn_calls\<close> and \<open>tn_written\<close>
  record, for the properties, the id of each Deliver's call and every response the server wrote.
\<close>

record tunnel =
  tn_waiting :: "rpc_id \<rightharpoonup> nat"
  tn_replies :: "nat \<rightharpoonup> rpc_id \<times> string"
  tn_closed :: bool
  tn_pc :: "nat \<Rightarrow> deliver_pc"
  tn_cancels :: "rpc list"
  tn_writing :: "rpc list"
  tn_read :: "rpc list"
  tn_outbound :: "string list"
  tn_calls :: "nat \<rightharpoonup> rpc_id"
  tn_written :: "(rpc_id \<times> string) set"

definition new_tunnel :: tunnel where
  "new_tunnel =
     \<lparr>tn_waiting = Map.empty, tn_replies = Map.empty, tn_closed = False, tn_pc = \<lambda>_. DeliverIdle, tn_cancels = [],
      tn_writing = [], tn_read = [], tn_outbound = [], tn_calls = Map.empty, tn_written = {}\<rparr>"

definition deliver_at :: "nat \<Rightarrow> deliver_pc \<Rightarrow> tunnel \<Rightarrow> tunnel" where
  "deliver_at k pc t = t\<lparr>tn_pc := (tn_pc t)(k := pc)\<rparr>"

section \<open>Operations\<close>

text \<open>Deliver up to its first select: decoding, and await for a call.\<close>

definition deliver_start :: "(string \<Rightarrow> err + rpc) \<Rightarrow> nat \<Rightarrow> string \<Rightarrow> tunnel \<Rightarrow> tunnel" where
  "deliver_start decode k msg t =
     (case decode msg of
        Inl e \<Rightarrow> deliver_at k (DeliverDone (Inl (wrap ''mcpbridge: decode the message'' e))) t
      | Inr m \<Rightarrow>
          (case m of
             RpcCall i _ _ \<Rightarrow>
               (if tn_waiting t i \<noteq> None then deliver_at k (DeliverDone (Inl (call_open i))) t
                else deliver_at k (DeliverPush i m)
                  (t\<lparr>tn_waiting := (tn_waiting t)(i \<mapsto> k), tn_calls := (tn_calls t)(k \<mapsto> i)\<rparr>))
           | _ \<Rightarrow> deliver_at k (DeliverOther m) t))"

text \<open>push, when the server takes the message and when it doesn't.\<close>

definition push_taken :: "nat \<Rightarrow> tunnel \<Rightarrow> tunnel" where
  "push_taken k t =
     (case tn_pc t k of
        DeliverPush i m \<Rightarrow> deliver_at k (DeliverWait i) (t\<lparr>tn_read := tn_read t @ [m]\<rparr>)
      | DeliverOther m \<Rightarrow> deliver_at k (DeliverDone (Inr None)) (t\<lparr>tn_read := tn_read t @ [m]\<rparr>)
      | _ \<Rightarrow> t)"

definition push_fails :: "err \<Rightarrow> nat \<Rightarrow> tunnel \<Rightarrow> tunnel" where
  "push_fails e k t =
     (case tn_pc t k of
        DeliverPush i m \<Rightarrow> deliver_at k (DeliverUnpush i e) t
      | DeliverOther m \<Rightarrow> deliver_at k (DeliverDone (Inl e)) t
      | _ \<Rightarrow> t)"

definition tunnel_forget :: "rpc_id \<Rightarrow> tunnel \<Rightarrow> tunnel" where
  "tunnel_forget i t = t\<lparr>tn_waiting := (tn_waiting t)(i := None)\<rparr>"

text \<open>Deliver's select: a response, the end of its context, the end of the tunnel.\<close>

definition deliver_reply :: "(rpc \<Rightarrow> err + string) \<Rightarrow> nat \<Rightarrow> rpc_id \<times> string \<Rightarrow> tunnel \<Rightarrow> tunnel" where
  "deliver_reply encode k r t =
     deliver_at k
       (DeliverDone (case encode (RpcReply (fst r) (snd r)) of
          Inl e \<Rightarrow> Inl (wrap ''mcpbridge: encode the response'' e)
        | Inr out \<Rightarrow> Inr (Some out)))
       (t\<lparr>tn_replies := (tn_replies t)(k := None)\<rparr>)"

definition deliver_forget :: "err \<Rightarrow> nat \<Rightarrow> rpc_id \<Rightarrow> tunnel \<Rightarrow> tunnel" where
  "deliver_forget e k i t = deliver_at k (DeliverCancel i e) (tunnel_forget i t)"

definition deliver_cancel :: "err option \<Rightarrow> err \<Rightarrow> nat \<Rightarrow> rpc_id \<Rightarrow> tunnel \<Rightarrow> tunnel" where
  "deliver_cancel cause e k i t =
     deliver_at k (DeliverDone (Inl e)) (t\<lparr>tn_cancels := tn_cancels t @ [cancelled_note i cause]\<rparr>)"

text \<open>Write: the check, then a response to its Deliver and any other message to outbound.\<close>

definition write_check :: "rpc \<Rightarrow> tunnel \<Rightarrow> tunnel" where
  "write_check m t =
     t\<lparr>tn_writing := tn_writing t @ [m],
       tn_written := (case m of RpcReply i s \<Rightarrow> insert (i, s) (tn_written t) | _ \<Rightarrow> tn_written t)\<rparr>"

definition write_go :: "(rpc \<Rightarrow> err + string) \<Rightarrow> bool \<Rightarrow> rpc \<Rightarrow> tunnel \<Rightarrow> tunnel" where
  "write_go encode outbound m t =
     (let t = t\<lparr>tn_writing := remove1 m (tn_writing t)\<rparr> in
      case m of
        RpcReply i s \<Rightarrow>
          (case tn_waiting t i of
             None \<Rightarrow> t
           | Some k \<Rightarrow> t\<lparr>tn_waiting := (tn_waiting t)(i := None), tn_replies := (tn_replies t)(k \<mapsto> (i, s))\<rparr>)
      | _ \<Rightarrow>
          if \<not> outbound then t
          else case encode m of Inl e \<Rightarrow> t | Inr out \<Rightarrow> t\<lparr>tn_outbound := tn_outbound t @ [out]\<rparr>)"

inductive tunnel_step ::
  "(string \<Rightarrow> err + rpc) \<Rightarrow> (rpc \<Rightarrow> err + string) \<Rightarrow> bool \<Rightarrow> tunnel \<Rightarrow> tunnel \<Rightarrow> bool" for decode encode outbound where
  start: "tn_pc t k = DeliverIdle \<Longrightarrow> tunnel_step decode encode outbound t (deliver_start decode k msg t)"
| taken: "tunnel_step decode encode outbound t (push_taken k t)"
| push_ends: "tunnel_step decode encode outbound t (push_fails e k t)"
| push_closed: "tn_closed t \<Longrightarrow> tunnel_step decode encode outbound t (push_fails ErrTunnelClosed k t)"
| unpush: "tn_pc t k = DeliverUnpush i e \<Longrightarrow>
    tunnel_step decode encode outbound t (deliver_at k (DeliverDone (Inl e)) (tunnel_forget i t))"
| replied: "tn_pc t k = DeliverWait i \<Longrightarrow> tn_replies t k = Some r \<Longrightarrow>
    tunnel_step decode encode outbound t (deliver_reply encode k r t)"
| ends: "tn_pc t k = DeliverWait i \<Longrightarrow> tunnel_step decode encode outbound t (deliver_forget e k i t)"
| cancels: "tn_pc t k = DeliverCancel i e \<Longrightarrow> tunnel_step decode encode outbound t (deliver_cancel cause e k i t)"
| wait_closed: "tn_pc t k = DeliverWait i \<Longrightarrow> tn_closed t \<Longrightarrow>
    tunnel_step decode encode outbound t (deliver_at k (DeliverDone (Inl ErrTunnelClosed)) t)"
| cancel_taken: "m \<in> set (tn_cancels t) \<Longrightarrow>
    tunnel_step decode encode outbound t (t\<lparr>tn_cancels := remove1 m (tn_cancels t), tn_read := tn_read t @ [m]\<rparr>)"
| cancel_closed: "m \<in> set (tn_cancels t) \<Longrightarrow> tn_closed t \<Longrightarrow>
    tunnel_step decode encode outbound t (t\<lparr>tn_cancels := remove1 m (tn_cancels t)\<rparr>)"
| writes: "\<not> tn_closed t \<Longrightarrow> tunnel_step decode encode outbound t (write_check m t)"
| write_goes: "m \<in> set (tn_writing t) \<Longrightarrow> tunnel_step decode encode outbound t (write_go encode outbound m t)"
| closes: "tunnel_step decode encode outbound t (t\<lparr>tn_closed := True\<rparr>)"

inductive_cases tunnel_stepE: "tunnel_step decode encode outbound t t'"

text \<open>Close, run once: the session's error, and a tunnel whose connection is closed.\<close>

definition tunnel_close :: "err option \<Rightarrow> tunnel \<Rightarrow> tunnel \<times> err option" where
  "tunnel_close session_err t = (if tn_closed t then (t, None) else (t\<lparr>tn_closed := True\<rparr>, session_err))"

section \<open>The endpoint\<close>

text \<open>Listen's address and its token, from the address the system picked and 32 random bytes.\<close>

definition new_token :: "nat list \<Rightarrow> string" where
  "new_token bs = hex_text bs"

definition endpoint_url :: "string \<Rightarrow> string" where
  "endpoint_url addr = ''http://'' @ addr @ ''/mcp''"

text \<open>requireToken: a request goes on only with the token, and is refused otherwise.\<close>

definition http_unauthorized :: nat where
  "http_unauthorized = 401"

definition require_token :: "string \<Rightarrow> (string \<Rightarrow> 'a) \<Rightarrow> (nat \<Rightarrow> 'a) \<Rightarrow> string \<Rightarrow> 'a" where
  "require_token token serve refuse authorization =
     (if authorization \<noteq> ''Bearer '' @ token then refuse http_unauthorized else serve authorization)"

text \<open>Endpoint.Close, run once, from what closing the sessions and the HTTP server answers.\<close>

definition endpoint_close :: "err option list \<Rightarrow> err option \<Rightarrow> err option" where
  "endpoint_close sessions http = errors_join (sessions @ [http])"

section \<open>Responses reach their calls\<close>

definition tunnel_reach :: "(string \<Rightarrow> err + rpc) \<Rightarrow> (rpc \<Rightarrow> err + string) \<Rightarrow> bool \<Rightarrow> tunnel \<Rightarrow> bool" where
  "tunnel_reach decode encode outbound t \<longleftrightarrow> (tunnel_step decode encode outbound)\<^sup>*\<^sup>* new_tunnel t"

lemma tunnel_induct [consumes 1, case_names new step]:
  assumes "tunnel_reach decode encode outbound t" "P new_tunnel"
    and "\<And>t t'. tunnel_reach decode encode outbound t \<Longrightarrow> P t \<Longrightarrow> tunnel_step decode encode outbound t t' \<Longrightarrow> P t'"
  shows "P t"
  using assms(1)[unfolded tunnel_reach_def] by (induction rule: rtranclp_induct) (auto intro: assms(2,3) simp: tunnel_reach_def)

lemma tunnel_move: "tunnel_reach decode encode outbound t \<Longrightarrow> tunnel_step decode encode outbound t t' \<Longrightarrow> tunnel_reach decode encode outbound t'"
  by (simp add: tunnel_reach_def)

text \<open>The id a Deliver's place names.\<close>

fun pc_id :: "deliver_pc \<Rightarrow> rpc_id option" where
  "pc_id (DeliverPush i m) = Some i"
| "pc_id (DeliverUnpush i e) = Some i"
| "pc_id (DeliverWait i) = Some i"
| "pc_id (DeliverCancel i e) = Some i"
| "pc_id _ = None"

definition tunnel_inv :: "(rpc \<Rightarrow> err + string) \<Rightarrow> tunnel \<Rightarrow> bool" where
  "tunnel_inv encode t \<longleftrightarrow>
     (\<forall>i k. tn_waiting t i = Some k \<longrightarrow> tn_calls t k = Some i)
     \<and> (\<forall>k i s. tn_replies t k = Some (i, s) \<longrightarrow> tn_calls t k = Some i \<and> (i, s) \<in> tn_written t)
     \<and> (\<forall>i s. RpcReply i s \<in> set (tn_writing t) \<longrightarrow> (i, s) \<in> tn_written t)
     \<and> (\<forall>k. tn_pc t k = DeliverIdle \<longrightarrow> tn_calls t k = None)
     \<and> (\<forall>k i. pc_id (tn_pc t k) = Some i \<longrightarrow> tn_calls t k = Some i)
     \<and> (\<forall>k out. tn_pc t k = DeliverDone (Inr (Some out)) \<longrightarrow>
          (\<exists>i s. tn_calls t k = Some i \<and> (i, s) \<in> tn_written t \<and> encode (RpcReply i s) = Inr out))"

lemmas tunnel_defs = deliver_at_def deliver_start_def push_taken_def push_fails_def tunnel_forget_def deliver_reply_def
  deliver_forget_def deliver_cancel_def write_check_def write_go_def Let_def

lemma tunnel_inv_step:
  assumes "tunnel_step decode encode outbound t t'" "tunnel_inv encode t"
  shows "tunnel_inv encode t'"
  using assms
proof (cases rule: tunnel_step.cases)
  case (start k msg)
  then show ?thesis using assms(2) unfolding tunnel_inv_def
    by (auto simp: tunnel_defs split: sum.splits rpc.splits)
next
  case (taken k)
  then show ?thesis using assms(2) unfolding tunnel_inv_def
    by (auto simp: tunnel_defs split: deliver_pc.splits)
next
  case (push_ends e k)
  then show ?thesis using assms(2) unfolding tunnel_inv_def
    by (auto simp: tunnel_defs split: deliver_pc.splits)
next
  case (push_closed k)
  then show ?thesis using assms(2) unfolding tunnel_inv_def
    by (auto simp: tunnel_defs split: deliver_pc.splits)
next
  case (replied k i r)
  obtain a b where r: "r = (a, b)" by (cases r)
  then have "(a, b) \<in> tn_written t" "tn_calls t k = Some a" using assms(2) replied by (auto simp: tunnel_inv_def)
  then show ?thesis using assms(2) replied r unfolding tunnel_inv_def
    by (auto simp: tunnel_defs split: sum.splits intro: exI[of _ b])
next
  case (write_goes m)
  then show ?thesis using assms(2) unfolding tunnel_inv_def
    by (cases m) (auto simp: tunnel_defs split: sum.splits option.splits dest: notin_set_remove1 in_set_remove1[THEN iffD1, rotated])
next
  case (writes m)
  have same: "tn_waiting t' = tn_waiting t" "tn_replies t' = tn_replies t" "tn_pc t' = tn_pc t" "tn_calls t' = tn_calls t"
    using writes by (simp_all add: write_check_def)
  have more: "tn_written t \<subseteq> tn_written t'" using writes by (cases m) (auto simp: write_check_def)
  have "\<forall>i s. RpcReply i s \<in> set (tn_writing t') \<longrightarrow> (i, s) \<in> tn_written t'"
    using assms(2) writes by (cases m) (auto simp: tunnel_inv_def write_check_def)
  then show ?thesis using assms(2) more unfolding tunnel_inv_def same by (meson subsetD)
qed (use assms(2) in \<open>auto simp: tunnel_inv_def tunnel_defs\<close>)

lemma tunnel_inv_reach: "tunnel_reach decode encode outbound t \<Longrightarrow> tunnel_inv encode t"
proof (induction rule: tunnel_induct)
  case new
  then show ?case by (simp add: tunnel_inv_def new_tunnel_def)
qed (rule tunnel_inv_step)

text \<open>
  C16: whatever the harness and the server do, and in whatever order, what Deliver returns for a request
  is a response the server wrote to that request's own id, encoded, and never another request's.
\<close>

theorem tunnel_answers:
  assumes "tunnel_reach decode encode outbound t" "tn_pc t k = DeliverDone (Inr (Some out))"
  shows "\<exists>i s. tn_calls t k = Some i \<and> (i, s) \<in> tn_written t \<and> encode (RpcReply i s) = Inr out"
  using tunnel_inv_reach[OF assms(1)] assms(2) by (simp add: tunnel_inv_def)

section \<open>No response is lost\<close>

text \<open>The harness uses no id twice, as MCP requires of a session.\<close>

definition ids_once :: "tunnel \<Rightarrow> bool" where
  "ids_once t \<longleftrightarrow> (\<forall>k k' i. tn_calls t k = Some i \<longrightarrow> tn_calls t k' = Some i \<longrightarrow> k = k')"

lemma calls_kept: "tunnel_step decode encode outbound t t' \<Longrightarrow> tunnel_inv encode t \<Longrightarrow> tn_calls t k = Some i \<Longrightarrow> tn_calls t' k = Some i"
  by (erule tunnel_stepE)
    (auto simp: tunnel_defs tunnel_inv_def split: sum.splits rpc.splits deliver_pc.splits option.splits)

lemma ids_once_before:
  assumes "tunnel_step decode encode outbound t t'" "tunnel_inv encode t" "ids_once t'"
  shows "ids_once t"
  using assms(3) calls_kept[OF assms(1,2)] unfolding ids_once_def by metis

fun pc_waits :: "deliver_pc \<Rightarrow> rpc_id option" where
  "pc_waits (DeliverPush i m) = Some i"
| "pc_waits (DeliverWait i) = Some i"
| "pc_waits _ = None"

lemma pc_waits_id: "pc_waits pc = Some i \<Longrightarrow> pc_id pc = Some i"
  by (cases pc) auto

text \<open>A Deliver that pushes or waits is registered, or has its response.\<close>

definition tunnel_waits :: "tunnel \<Rightarrow> bool" where
  "tunnel_waits t \<longleftrightarrow> (\<forall>k i. pc_waits (tn_pc t k) = Some i \<longrightarrow> tn_waiting t i = Some k \<or> tn_replies t k \<noteq> None)"

lemma waits_forget:
  assumes "tunnel_waits t" "\<And>k'. pc_id (tn_pc t k') = Some i \<Longrightarrow> k' = k" "pc_waits pc = None"
  shows "tunnel_waits (deliver_at k pc (tunnel_forget i t))"
  unfolding tunnel_waits_def
proof (intro allI impI)
  let ?t = "deliver_at k pc (tunnel_forget i t)"
  fix k' i' assume w: "pc_waits (tn_pc ?t k') = Some i'"
  then have k: "k' \<noteq> k" using assms(3) by (auto simp: deliver_at_def tunnel_forget_def)
  then have pc: "pc_waits (tn_pc t k') = Some i'" using w by (simp add: deliver_at_def tunnel_forget_def)
  then have "i' \<noteq> i" using assms(2)[of k'] pc_waits_id k by auto
  then show "tn_waiting ?t i' = Some k' \<or> tn_replies ?t k' \<noteq> None"
    using assms(1) pc by (simp add: tunnel_waits_def deliver_at_def tunnel_forget_def)
qed

lemma tunnel_waits_reach: "tunnel_reach decode encode outbound t \<Longrightarrow> ids_once t \<Longrightarrow> tunnel_waits t"
proof (induction rule: tunnel_induct)
  case new
  then show ?case by (simp add: tunnel_waits_def new_tunnel_def)
next
  case (step t t')
  have inv: "tunnel_inv encode t" using tunnel_inv_reach[OF step.hyps(1)] .
  then have once: "ids_once t" "tunnel_waits t" using ids_once_before[OF step.hyps(2) inv step.prems] step.IH by auto
  have own: "k' = k" if "pc_id (tn_pc t k) = Some i" "pc_id (tn_pc t k') = Some i" for k k' i
    using inv once(1) that unfolding tunnel_inv_def ids_once_def by blast
  from step.hyps(2) show ?case
  proof (cases rule: tunnel_step.cases)
    case (unpush k i e)
    then show ?thesis using waits_forget[OF once(2) own[of k i]] by simp
  next
    case (ends k i e)
    then show ?thesis using waits_forget[OF once(2) own[of k i]] by (simp add: deliver_forget_def)
  next
    case (start k msg)
    then show ?thesis using once(2)
      by (auto simp: tunnel_waits_def tunnel_defs simp del: not_None_eq split: sum.splits rpc.splits)
        (metis option.distinct(1) option.exhaust prod.exhaust)
  next
    case (write_goes m)
    then show ?thesis using once(2)
      by (cases m) (auto simp: tunnel_waits_def tunnel_defs simp del: not_None_eq split: sum.splits option.splits,
        metis option.distinct(1) option.exhaust option.inject prod.exhaust)
  qed (use once(2) in \<open>auto simp: tunnel_waits_def tunnel_defs simp del: not_None_eq split: deliver_pc.splits\<close>)
qed



section \<open>Examples\<close>

text \<open>A message is the id of a call or of a reply, one character.\<close>

definition ex_decode :: "string \<Rightarrow> err + rpc" where
  "ex_decode s = Inr (RpcCall (IdText s) ''tools/list'' [])"

definition ex_encode :: "rpc \<Rightarrow> err + string" where
  "ex_encode m = (case m of RpcReply i s \<Rightarrow> Inr (rpc_id_text i @ '': '' @ s) | _ \<Rightarrow> Inr [])"

abbreviation ex_reach :: "tunnel \<Rightarrow> bool" where
  "ex_reach \<equiv> tunnel_reach ex_decode ex_encode False"

text \<open>A Deliver from idle to its wait, and a response written while the tunnel is open.\<close>

lemma ex_wait:
  assumes "ex_reach t" "tn_pc t k = DeliverIdle" "tn_waiting t (IdText i) = None"
  shows "ex_reach (t\<lparr>tn_waiting := (tn_waiting t)(IdText i \<mapsto> k), tn_calls := (tn_calls t)(k \<mapsto> IdText i),
    tn_read := tn_read t @ [RpcCall (IdText i) ''tools/list'' []], tn_pc := (tn_pc t)(k := DeliverWait (IdText i))\<rparr>)"
  using tunnel_move[OF tunnel_move[OF assms(1) tunnel_step.start[OF assms(2), of _ _ _ i]] tunnel_step.taken[of _ _ _ _ k]] assms(3)
  by (simp add: tunnel_defs ex_decode_def)

lemma ex_write:
  assumes "ex_reach t" "\<not> tn_closed t"
  shows "ex_reach (t\<lparr>tn_writing := tn_writing t @ [RpcReply i s], tn_written := insert (i, s) (tn_written t)\<rparr>)"
  using tunnel_move[OF assms(1) tunnel_step.writes[OF assms(2), of _ _ _ "RpcReply i s"]] by (simp add: write_check_def)

lemma ex_new: "ex_reach new_tunnel"
  by (simp add: tunnel_reach_def)


lemma tunnel_answers_witness:
  "\<exists>t. ex_reach t \<and> tn_pc t 0 = DeliverDone (Inr (Some ''1: ok'')) \<and> (IdText ''1'', ''ok'') \<in> tn_written t
     \<and> (\<exists>i s. tn_calls t 0 = Some i \<and> (i, s) \<in> tn_written t \<and> ex_encode (RpcReply i s) = Inr ''1: ok'')"
proof -
  let ?w = "RpcReply (IdText ''1'') ''ok''"
  from ex_wait[OF ex_new, of 0 "''1''"] have "ex_reach (new_tunnel\<lparr>tn_waiting := [IdText ''1'' \<mapsto> 0], tn_calls := [0 \<mapsto> IdText ''1''],
      tn_read := [RpcCall (IdText ''1'') ''tools/list'' []], tn_pc := (\<lambda>_. DeliverIdle)(0 := DeliverWait (IdText ''1''))\<rparr>)"
    by (simp add: new_tunnel_def)
  from ex_write[OF this, of "IdText ''1''" "''ok''"] obtain t where t: "ex_reach t" "tn_pc t 0 = DeliverWait (IdText ''1'')"
      "tn_waiting t = [IdText ''1'' \<mapsto> 0]" "?w \<in> set (tn_writing t)" "(IdText ''1'', ''ok'') \<in> tn_written t"
    by (force simp: new_tunnel_def)
  have "ex_reach (write_go ex_encode False ?w t)" by (rule tunnel_move[OF t(1) tunnel_step.write_goes[OF t(4)]])
  from tunnel_move[OF this tunnel_step.replied[of _ 0 "IdText ''1''" "(IdText ''1'', ''ok'')"]] t
  have "ex_reach (deliver_reply ex_encode 0 (IdText ''1'', ''ok'') (write_go ex_encode False ?w t))"
    by (simp add: write_go_def)
  moreover have "tn_pc (deliver_reply ex_encode 0 (IdText ''1'', ''ok'') (write_go ex_encode False ?w t)) 0 = DeliverDone (Inr (Some ''1: ok''))"
    "(IdText ''1'', ''ok'') \<in> tn_written (deliver_reply ex_encode 0 (IdText ''1'', ''ok'') (write_go ex_encode False ?w t))"
    using t by (simp_all add: deliver_reply_def deliver_at_def ex_encode_def rpc_id_text_def write_go_def)
  ultimately show ?thesis using tunnel_answers by blast
qed

text \<open>
  await refuses an id whose first request is open, but a request is no longer registered once its
  response is written, before its Deliver returns: a second one under its id is taken, and the first
  one, whose context ends, takes the second's registration with it, which then waits in vain.
\<close>

lemma tunnel_id_reused:
  "\<exists>t. ex_reach t \<and> tn_pc t 1 = DeliverWait (IdText ''1'') \<and> tn_waiting t (IdText ''1'') = None \<and> tn_replies t 1 = None"
proof -
  let ?i = "IdText ''1''" let ?w = "RpcReply (IdText ''1'') ''ok''"
  from ex_wait[OF ex_new, of 0 "''1''"] have "ex_reach (new_tunnel\<lparr>tn_waiting := [?i \<mapsto> 0], tn_calls := [0 \<mapsto> ?i],
      tn_read := [RpcCall ?i ''tools/list'' []], tn_pc := (\<lambda>_. DeliverIdle)(0 := DeliverWait ?i)\<rparr>)"
    by (simp add: new_tunnel_def)
  from ex_write[OF this, of ?i "''ok''"] obtain t where t: "ex_reach t" "tn_pc t = (\<lambda>_. DeliverIdle)(0 := DeliverWait ?i)"
      "tn_waiting t = [?i \<mapsto> 0]" "?w \<in> set (tn_writing t)" "tn_replies t = Map.empty"
    by (force simp: new_tunnel_def)
  have "ex_reach (write_go ex_encode False ?w t)" by (rule tunnel_move[OF t(1) tunnel_step.write_goes[OF t(4)]])
  moreover have w: "tn_pc (write_go ex_encode False ?w t) = (\<lambda>_. DeliverIdle)(0 := DeliverWait ?i)"
      "tn_waiting (write_go ex_encode False ?w t) = Map.empty" "tn_replies (write_go ex_encode False ?w t) = [0 \<mapsto> (?i, ''ok'')]"
    using t by (auto simp: write_go_def)
  ultimately obtain u where u: "ex_reach u" "tn_pc u 0 = DeliverWait ?i" "tn_pc u 1 = DeliverWait ?i"
      "tn_waiting u = [?i \<mapsto> 1]" "tn_replies u 1 = None"
    using ex_wait[of "write_go ex_encode False ?w t" 1 "''1''"] by force
  have "ex_reach (deliver_forget ErrTunnelClosed 0 ?i u)" by (rule tunnel_move[OF u(1) tunnel_step.ends[OF u(2)]])
  then show ?thesis using u
    by (intro exI[of _ "deliver_forget ErrTunnelClosed 0 ?i u"]) (simp add: deliver_forget_def tunnel_forget_def deliver_at_def)
qed

end
