(* ===== verification/Drivers.thy ===== *)
theory Drivers
  imports Connections Catalog
begin

text \<open>
  The adapters' drivers (pi/driver.go, claude/driver.go, opencode/driver.go): Open, what it starts a
  harness with, and the handshake. What the operating system, the store and the harness answer are
  arguments. An Open answers its error or session with the resources it still holds: a temporary
  directory, the driver's MCP server's connection, the process. A connection's Close lets all go.
\<close>

section \<open>Options and resources\<close>

record options =
  opt_session_id :: string
  opt_store :: "(string \<Rightarrow> err + exchange_record list) option"
  opt_provider :: string
  opt_model :: string
  opt_dir :: string
  opt_tools :: "tool list"
  opt_skills :: "skill list"
  opt_harness_tools :: "string list option"

datatype resource = TempDir | Transport | Process

text \<open>stdio.Spec, but for its delay.\<close>

record process_spec =
  ps_name :: string
  ps_args :: "string list"
  ps_dir :: string
  ps_env :: "string list"

text \<open>cmp.Or on strings.\<close>

definition or_else :: "string \<Rightarrow> string \<Rightarrow> string" where
  "or_else s d = (if s = [] then d else s)"

section \<open>Pi\<close>

record pi_model =
  pi_model_id :: string
  pi_image :: bool
  pi_reasoning :: bool

record pi_provider =
  pi_base_url :: string
  pi_api :: string
  pi_api_key :: string
  pi_models :: "pi_model list"

record pi_driver =
  pd_command :: string
  pd_session_dir :: string
  pd_env :: "string list"
  pd_agent_dir :: string
  pd_providers :: "(string \<times> pi_provider) list"
  pd_catalog_wait :: int

definition rpc_args :: "string list" where
  "rpc_args = [''--mode'', ''rpc'', ''-ne'', ''-ns'', ''-nc'']"

definition llama_provider :: string where
  "llama_provider = ''llama.cpp''"

text \<open>The value writeAgentDir writes; models that are nil are null.\<close>

definition pi_model_val :: "pi_model \<Rightarrow> goval" where
  "pi_model_val m =
     GStruct ([(''id'', GStr (pi_model_id m)),
        (''input'', GList ([GStr ''text''] @ (if pi_image m then [GStr ''image''] else [])))]
       @ omit_bool ''reasoning'' (pi_reasoning m))"

definition pi_provider_val :: "pi_provider \<Rightarrow> goval" where
  "pi_provider_val p =
     GStruct ([(''baseUrl'', GStr (pi_base_url p)), (''api'', GStr (or_else (pi_api p) ''openai-completions''))]
       @ omit_str ''apiKey'' (pi_api_key p)
       @ [(''models'', if pi_models p = [] then GNull else GList (map pi_model_val (pi_models p)))])"

definition pi_agent_val :: "(string \<times> pi_provider) list \<Rightarrow> goval" where
  "pi_agent_val ps = GMap [(''providers'', GMap (map (\<lambda>(i, p). (i, pi_provider_val p)) ps))]"

text \<open>
  writeAgentDir, from what MkdirAll, Private, CreateTemp, Write, Close and Rename answer: the
  directory is checked before anything is written, and models.json is replaced last.
\<close>

definition write_agent_dir ::
  "err option \<Rightarrow> err option \<Rightarrow> err option \<Rightarrow> err option \<Rightarrow> err option \<Rightarrow> err option \<Rightarrow> (string \<times> pi_provider) list
    \<Rightarrow> err option" where
  "write_agent_dir made private temp written closed renamed ps =
     (case made of
        Some e \<Rightarrow> Some (wrap ''pi: agent directory'' e)
      | None \<Rightarrow>
          (case private of
             Some e \<Rightarrow> Some (wrap ''pi: agent directory'' e)
           | None \<Rightarrow>
               (case marshal (pi_agent_val ps) of
                  None \<Rightarrow> Some json_err
                | Some _ \<Rightarrow>
                    map_option (wrap ''pi: models.json'')
                      (case temp of
                         Some e \<Rightarrow> Some e
                       | None \<Rightarrow>
                           (case written of
                              Some e \<Rightarrow> Some e
                            | None \<Rightarrow> (case closed of Some e \<Rightarrow> Some e | None \<Rightarrow> renamed))))))"

text \<open>The process Open starts, given the arguments and the environment of its bridge.\<close>

definition pi_spec :: "pi_driver \<Rightarrow> options \<Rightarrow> string list \<Rightarrow> string list \<Rightarrow> process_spec" where
  "pi_spec d opts bridge_args bridge_env =
     \<lparr>ps_name = or_else (pd_command d) ''pi'',
      ps_args = rpc_args
        @ (if opt_provider opts = llama_provider then [''-e'', ''builtin:'' @ llama_provider] else [])
        @ bridge_args
        @ (if opt_session_id opts \<noteq> [] then [''--session-id'', opt_session_id opts] else [])
        @ (if pd_session_dir d \<noteq> [] then [''--session-dir'', pd_session_dir d] else []),
      ps_dir = opt_dir opts,
      ps_env = (if pd_agent_dir d \<noteq> [] then [''PI_CODING_AGENT_DIR='' @ pd_agent_dir d] else []) @ pd_env d @ bridge_env\<rparr>"

definition pi_catalog_miss :: "string \<Rightarrow> err \<Rightarrow> bool" where
  "pi_catalog_miss provider e \<longleftrightarrow>
     provider = llama_provider
     \<and> (case as_command e of None \<Rightarrow> False | Some (_, m) \<Rightarrow> has_prefix m ''Model not found'')"

text \<open>Nanoseconds: catalogPoll, and the default of CatalogWait.\<close>

definition catalog_poll :: int where
  "catalog_poll = 100 * 10 ^ 6"

definition default_wait :: int where
  "default_wait = 5 * 10 ^ 9"

text \<open>
  setModel's loop: \<open>answer n\<close> is the Client's answer to the call numbered n, \<open>clock n\<close> the time after
  it, \<open>ended n\<close> whether the context ends in the wait that follows. Fuel bounds the calls; without
  enough, None.
\<close>

fun pi_set_model ::
  "(nat \<Rightarrow> err option) \<Rightarrow> (nat \<Rightarrow> int) \<Rightarrow> (nat \<Rightarrow> bool) \<Rightarrow> string \<Rightarrow> int \<Rightarrow> nat \<Rightarrow> nat \<Rightarrow> err option option" where
  "pi_set_model answer clock ended provider deadline n 0 = None"
| "pi_set_model answer clock ended provider deadline n (Suc f) =
     (case answer n of
        None \<Rightarrow> Some None
      | Some e \<Rightarrow>
          if \<not> pi_catalog_miss provider e \<or> deadline < clock n \<or> ended n then Some (Some e)
          else pi_set_model answer clock ended provider deadline (Suc n) f)"

text \<open>\<open>set_model\<close> is what setModel answers, \<open>get_state\<close> the Client's answer to get_state.\<close>

definition pi_handshake :: "err option \<Rightarrow> err + string \<Rightarrow> options \<Rightarrow> err + string" where
  "pi_handshake set_model get_state opts =
     (case (if opt_model opts \<noteq> [] then set_model else None) of
        Some e \<Rightarrow> Inl e
      | None \<Rightarrow>
          (case get_state of
             Inl e \<Rightarrow> Inl e
           | Inr data \<Rightarrow>
               (case unmarshal_struct data \<bind> str_field ''sessionId'' of
                  None \<Rightarrow> Inl (wrap ''pi: get_state'' json_err)
                | Some i \<Rightarrow> Inr i)))"

text \<open>
  What Open meets outside itself, in the order it does: writing the agent directory, the bridge, the
  process's start, the handshake, and the session as NewSession makes it for an id.
\<close>

record 's pi_world =
  pw_agent :: "err option"
  pw_bridge :: "err + tool list \<times> string list \<times> string list"
  pw_start :: "err option"
  pw_set_model :: "err option"
  pw_state :: "err + string"
  pw_session :: "string \<Rightarrow> err + 's"

definition pi_open :: "'s pi_world \<Rightarrow> pi_driver \<Rightarrow> options \<Rightarrow> resource set \<times> (err + process_spec \<times> 's)" where
  "pi_open w d opts =
     (case (if pd_agent_dir d \<noteq> [] then pw_agent w
            else if pd_providers d \<noteq> [] then Some (Msg ''pi: Providers need an AgentDir to write them into'') else None) of
        Some e \<Rightarrow> ({}, Inl e)
      | None \<Rightarrow>
          (case pw_bridge w of
             Inl e \<Rightarrow> ({}, Inl e)
           | Inr (specs, bargs, benv) \<Rightarrow>
               (let held = {TempDir}; spec = pi_spec d opts bargs benv in
                case pw_start w of
                  Some e \<Rightarrow> (held - {TempDir}, Inl e)
                | None \<Rightarrow>
                    (let held = insert Process held in
                     case pi_handshake (pw_set_model w) (pw_state w) opts of
                       Inl e \<Rightarrow> (held - {Process, TempDir}, Inl e)
                     | Inr i \<Rightarrow>
                         (case pw_session w i of
                            Inl e \<Rightarrow> (held - {Process, TempDir}, Inl e)
                          | Inr s \<Rightarrow> (held, Inr (spec, s)))))))"

section \<open>Claude Code\<close>

record claude_driver =
  cd_command :: string
  cd_config_dir :: string
  cd_cache_dir :: string
  cd_env :: "string list"

definition stream_args :: "string list" where
  "stream_args = [''-p'', ''--input-format'', ''stream-json'', ''--output-format'', ''stream-json'', ''--verbose'',
     ''--include-partial-messages'']"

definition claude_isolation_args :: "string list" where
  "claude_isolation_args = [''--setting-sources'', [], ''--strict-mcp-config'', ''--permission-prompts'', ''host'']"

definition claude_isolation_env :: "string list" where
  "claude_isolation_env = [''CLAUDE_CODE_DISABLE_AUTO_MEMORY=1'', ''DISABLE_AUTOUPDATER=1'', ''CLAUDECODE='']"

definition claude_provider :: string where
  "claude_provider = ''anthropic''"

text \<open>holds: \<open>env\<close> is $CLAUDE_CONFIG_DIR, \<open>home\<close> the user's directory, \<open>glob\<close> filepath.Glob.\<close>

definition claude_holds ::
  "string \<Rightarrow> err + string \<Rightarrow> (string \<Rightarrow> err + string list) \<Rightarrow> claude_driver \<Rightarrow> string \<Rightarrow> err + bool" where
  "claude_holds env home glob d i =
     (let dir = or_else (cd_config_dir d) env in
      case (if dir \<noteq> [] then Inr dir
            else map_sum (wrap ''claude: find the config directory'') (\<lambda>h. path_join [h, ''.claude'']) home) of
        Inl e \<Rightarrow> Inl e
      | Inr dir \<Rightarrow> map_sum id (\<lambda>ms. ms \<noteq> []) (glob (path_join [dir, ''projects'', ''*'', i @ ''.jsonl''])))"

text \<open>sessionID: \<open>fresh\<close> is a new UUID's text, \<open>parse\<close> uuid.Parse and the text of what it gives.\<close>

definition claude_session_id ::
  "string \<Rightarrow> (string \<Rightarrow> err + string) \<Rightarrow> (string \<Rightarrow> err + bool) \<Rightarrow> string \<Rightarrow> err + string \<times> bool" where
  "claude_session_id fresh parse holds i =
     (if i = [] then Inr (fresh, False)
      else case parse i of
        Inl e \<Rightarrow> Inl (wrap (''claude: session ID '' @ quote i) e)
      | Inr u \<Rightarrow> map_sum id (Pair u) (holds u))"

definition claude_lost :: "options \<Rightarrow> string \<Rightarrow> bool \<Rightarrow> err option" where
  "claude_lost opts i resume =
     (if resume \<or> opt_session_id opts = [] then None
      else case opt_store opts of
        None \<Rightarrow> None
      | Some records \<Rightarrow>
          (case records i of
             Inl e \<Rightarrow> Some (wrap (''claude: records of session '' @ i) e)
           | Inr recs \<Rightarrow>
               if recs \<noteq> [] then
                 Some (Errorf (err_text ErrJournalMismatch @ '': session '' @ i @ '' has '' @ nat_text (length recs)
                         @ '' recorded exchanges, and Claude Code keeps no transcript of it'') [ErrJournalMismatch])
               else None))"

text \<open>writePlugin: \<open>made\<close> and \<open>manifest\<close> answer for the staged directory and its manifest, \<open>copied\<close> for
  a skill's files, \<open>cached\<close> is the directory cache.FS answers.\<close>

fun claude_copy_skills :: "(skill \<Rightarrow> err option) \<Rightarrow> skill list \<Rightarrow> err option" where
  "claude_copy_skills copied [] = None"
| "claude_copy_skills copied (s # ss) =
     (case skill_validate s of
        Some e \<Rightarrow> Some (wrap ''claude'' e)
      | None \<Rightarrow>
          (case copied s of
             Some e \<Rightarrow> Some (wrap (''claude: skill '' @ sk_name s) e)
           | None \<Rightarrow> claude_copy_skills copied ss))"

definition claude_write_plugin ::
  "err option \<Rightarrow> err option \<Rightarrow> (skill \<Rightarrow> err option) \<Rightarrow> err + string \<Rightarrow> skill list \<Rightarrow> err + string" where
  "claude_write_plugin made manifest copied cached skills =
     (if skills = [] then Inr []
      else case made of
        Some e \<Rightarrow> Inl (wrap ''claude: plugin'' e)
      | None \<Rightarrow>
          (case manifest of
             Some e \<Rightarrow> Inl (wrap ''claude: plugin'' e)
           | None \<Rightarrow>
               (case claude_copy_skills copied skills of
                  Some e \<Rightarrow> Inl e
                | None \<Rightarrow> map_sum (wrap ''claude: plugin'') id cached)))"

definition claude_mcp_config :: string where
  "claude_mcp_config =
     the (marshal (GMap [(''mcpServers'', GMap [(claude_server_name,
       GMap [(''type'', GStr ''sdk''), (''name'', GStr claude_server_name)])])]))"

definition claude_args :: "options \<Rightarrow> string \<Rightarrow> string \<Rightarrow> bool \<Rightarrow> string list" where
  "claude_args opts plugin i resume =
     stream_args @ claude_isolation_args @ [''--mcp-config'', claude_mcp_config]
     @ (case opt_harness_tools opts of None \<Rightarrow> [] | Some hs \<Rightarrow> [''--tools'', join '','' hs])
     @ [''--allowedTools'',
        join '','' ([''mcp__'' @ claude_server_name] @ (case opt_harness_tools opts of None \<Rightarrow> [] | Some hs \<Rightarrow> hs))]
     @ (if plugin \<noteq> [] then [''--plugin-dir'', plugin] else [])
     @ (if opt_model opts \<noteq> [] then [''--model'', opt_model opts] else [])
     @ (if resume then [''--resume'', i] else [''--session-id'', i])"

definition claude_spec :: "claude_driver \<Rightarrow> options \<Rightarrow> string \<Rightarrow> string \<Rightarrow> bool \<Rightarrow> process_spec" where
  "claude_spec d opts plugin i resume =
     \<lparr>ps_name = or_else (cd_command d) ''claude'', ps_args = claude_args opts plugin i resume, ps_dir = opt_dir opts,
      ps_env = claude_isolation_env @ cd_env d
        @ (if cd_config_dir d \<noteq> [] then [''CLAUDE_CONFIG_DIR='' @ cd_config_dir d] else [])\<rparr>"

text \<open>What Open meets: the id, the bridge server, the temporary directory, the plugin, the tunnel, the
  start, the answer to initialize and the session.\<close>

record 's claude_world =
  cw_id :: "err + string \<times> bool"
  cw_server :: "err option"
  cw_temp :: "err option"
  cw_plugin :: "err + string"
  cw_tunnel :: "err option"
  cw_start :: "err option"
  cw_initialize :: "err option"
  cw_session :: "string \<Rightarrow> err + 's"

definition claude_open :: "'s claude_world \<Rightarrow> claude_driver \<Rightarrow> options \<Rightarrow> resource set \<times> (err + process_spec \<times> 's)" where
  "claude_open w d opts =
     (if opt_provider opts \<noteq> [] \<and> opt_provider opts \<noteq> claude_provider
      then ({}, Inl (Msg (''claude: provider '' @ quote (opt_provider opts) @ '': Claude Code runs on ''
                          @ quote claude_provider @ '' only'')))
      else case cw_id w of
        Inl e \<Rightarrow> ({}, Inl e)
      | Inr (i, resume) \<Rightarrow>
          (case claude_lost opts i resume of
             Some e \<Rightarrow> ({}, Inl e)
           | None \<Rightarrow>
               (case cw_server w of
                  Some e \<Rightarrow> ({}, Inl (wrap ''claude'' e))
                | None \<Rightarrow>
                    (case cw_temp w of
                       Some e \<Rightarrow> ({}, Inl (wrap ''claude'' e))
                     | None \<Rightarrow>
                         (let held = {TempDir} in
                          case cw_plugin w of
                            Inl e \<Rightarrow> (held - {TempDir}, Inl e)
                          | Inr plugin \<Rightarrow>
                              (case cw_tunnel w of
                                 Some e \<Rightarrow> (held - {TempDir}, Inl (wrap ''claude'' e))
                               | None \<Rightarrow>
                                   (let held = insert Transport held; spec = claude_spec d opts plugin i resume in
                                    case cw_start w of
                                      Some e \<Rightarrow> (held - {Transport} - {TempDir}, Inl e)
                                    | None \<Rightarrow>
                                        (let held = insert Process held in
                                         case cw_initialize w of
                                           Some e \<Rightarrow> (held - {Process, Transport, TempDir}, Inl e)
                                         | None \<Rightarrow>
                                             (case cw_session w i of
                                                Inl e \<Rightarrow> (held - {Process, Transport, TempDir}, Inl e)
                                              | Inr s \<Rightarrow> (held, Inr (spec, s)))))))))))"

section \<open>OpenCode\<close>

record oc_model =
  om_image :: bool
  om_context :: int
  om_output :: int

record oc_provider =
  ov_npm :: string
  ov_base_url :: string
  ov_api_key :: string
  ov_headers :: "(string \<times> string) list"
  ov_models :: "(string \<times> oc_model) list"

record oc_driver =
  od_command :: string
  od_state_dir :: string
  od_cache_dir :: string
  od_providers :: "(string \<times> oc_provider) list"
  od_env :: "string list"

definition oc_isolation_env :: "string list" where
  "oc_isolation_env = [''OPENCODE_DISABLE_CLAUDE_CODE=1'', ''OPENCODE_DISABLE_EXTERNAL_SKILLS=1'',
     ''OPENCODE_DISABLE_MODELS_FETCH=1'', ''OPENCODE_DISABLE_AUTOUPDATE=1'']"

text \<open>config's models: those the provider knows, and the session's own as text only.\<close>

definition oc_model_val :: "string \<Rightarrow> oc_model \<Rightarrow> goval" where
  "oc_model_val i m =
     GMap ([(''name'', GStr i), (''tool_call'', GBool True), (''attachment'', GBool (om_image m)),
        (''modalities'', GMap [(''input'', GList ([GStr ''text''] @ (if om_image m then [GStr ''image''] else []))),
                            (''output'', GList [GStr ''text''])])]
       @ (if om_context m > 0 \<or> om_output m > 0
          then [(''limit'', GMap [(''context'', GInt (om_context m)), (''output'', GInt (om_output m))])] else []))"

definition oc_known :: "oc_provider \<Rightarrow> string \<Rightarrow> (string \<times> oc_model) list" where
  "oc_known p m =
     (if m \<noteq> [] \<and> map_of (ov_models p) m = None
      then ov_models p @ [(m, \<lparr>om_image = False, om_context = 0, om_output = 0\<rparr>)] else ov_models p)"

text \<open>The directories of the skills; \<open>cached\<close> writes one into the cache and answers its directory.\<close>

fun oc_skill_paths :: "(skill \<Rightarrow> err + string) \<Rightarrow> skill list \<Rightarrow> err + string list" where
  "oc_skill_paths cached [] = Inr []"
| "oc_skill_paths cached (s # ss) =
     (case skill_validate s of
        Some e \<Rightarrow> Inl (wrap ''opencode'' e)
      | None \<Rightarrow>
          (case (if sk_dir s = [] then map_sum (wrap (''opencode: skill '' @ sk_name s)) id (cached s) else Inr (sk_dir s)) of
             Inl e \<Rightarrow> Inl e
           | Inr dir \<Rightarrow> map_sum id ((#) dir) (oc_skill_paths cached ss)))"

text \<open>The tool allowlist: a map, so a tool named twice or as one of the patterns is there once.\<close>

definition oc_allow :: "string list \<Rightarrow> (string \<times> goval) list" where
  "oc_allow hs =
     foldl (\<lambda>m t. AList.update t (GBool True) m) [(''*'', GBool False), (oc_tool_prefix @ ''*'', GBool True)] hs"

definition oc_config_val :: "oc_provider \<Rightarrow> options \<Rightarrow> string list \<Rightarrow> goval" where
  "oc_config_val p opts paths =
     GMap ([(''$schema'', GStr ''https://opencode.ai/config.json''),
        (''enabled_providers'', GList [GStr (opt_provider opts)]),
        (''provider'', GMap [(opt_provider opts, GMap
           [(''npm'', GStr (or_else (ov_npm p) ''@ai-sdk/openai-compatible'')), (''name'', GStr (opt_provider opts)),
            (''options'', GMap ([(''baseURL'', GStr (ov_base_url p))]
               @ (if ov_api_key p \<noteq> [] then [(''apiKey'', GStr (ov_api_key p))] else [])
               @ (if ov_headers p \<noteq> [] then [(''headers'', GMap (map (\<lambda>(k, v). (k, GStr v)) (ov_headers p)))] else []))),
            (''models'', GMap (map (\<lambda>(i, m). (i, oc_model_val i m)) (oc_known p (opt_model opts))))])]),
        (''autoupdate'', GBool False), (''share'', GStr ''disabled'')]
       @ (if paths \<noteq> [] then [(''skills'', GMap [(''paths'', GList (map GStr paths))])] else [])
       @ (case opt_harness_tools opts of None \<Rightarrow> [] | Some hs \<Rightarrow> [(''tools'', GMap (oc_allow hs))]))"

definition oc_config :: "(skill \<Rightarrow> err + string) \<Rightarrow> oc_provider \<Rightarrow> options \<Rightarrow> err + string" where
  "oc_config cached p opts =
     (case oc_skill_paths cached (opt_skills opts) of
        Inl e \<Rightarrow> Inl e
      | Inr paths \<Rightarrow> json_line (oc_config_val p opts paths))"

text \<open>The calls of the handshake, each with the Client's answer.\<close>

definition oc_servers :: "string \<Rightarrow> string \<Rightarrow> goval" where
  "oc_servers url token =
     GList [GStruct [(''type'', GStr ''http''), (''name'', GStr oc_server_name), (''url'', GStr url),
       (''headers'', GList [GStruct [(''name'', GStr ''Authorization''), (''value'', GStr (''Bearer '' @ token))]])]]"

definition oc_initialize :: oc_any where
  "oc_initialize = OcCall ''initialize'' (GMap [(''protocolVersion'', GInt 1),
     (''clientCapabilities'', GMap [(''fs'', GMap [(''readTextFile'', GBool False), (''writeTextFile'', GBool False)]),
                                 (''terminal'', GBool False)])])"

definition oc_new_call :: "goval \<Rightarrow> string \<Rightarrow> oc_any" where
  "oc_new_call servers dir = OcCall ''session/new'' (GMap [(''cwd'', GStr dir), (''mcpServers'', servers)])"

definition oc_load_call :: "goval \<Rightarrow> string \<Rightarrow> string \<Rightarrow> oc_any" where
  "oc_load_call servers dir i =
     OcCall ''session/load'' (GMap [(''sessionId'', GStr i), (''cwd'', GStr dir), (''mcpServers'', servers)])"

definition oc_model_call :: "options \<Rightarrow> string \<Rightarrow> oc_any" where
  "oc_model_call opts i =
     OcCall ''session/set_config_option'' (GMap [(''sessionId'', GStr i), (''configId'', GStr ''model''),
       (''value'', GStr (opt_provider opts @ ''/'' @ opt_model opts))])"

definition oc_handshake :: "(oc_any \<Rightarrow> err + string) \<Rightarrow> goval \<Rightarrow> options \<Rightarrow> string \<Rightarrow> err + string" where
  "oc_handshake answer servers opts dir =
     (case answer oc_initialize of
        Inl e \<Rightarrow> Inl e
      | Inr _ \<Rightarrow>
          (case (if opt_session_id opts = []
                 then (case answer (oc_new_call servers dir) of
                     Inl e \<Rightarrow> Inl e
                   | Inr data \<Rightarrow>
                       (case unmarshal_struct data \<bind> str_field ''sessionId'' of
                          Some (c # i) \<Rightarrow> Inr (c # i)
                        | _ \<Rightarrow> Inl (Msg (''opencode: session/new answered no session ID: '' @ data))))
                 else map_sum (wrap (''opencode: load session '' @ opt_session_id opts)) (\<lambda>_. opt_session_id opts)
                        (answer (oc_load_call servers dir (opt_session_id opts)))) of
             Inl e \<Rightarrow> Inl e
           | Inr i \<Rightarrow>
               if opt_model opts = [] then Inr i else map_sum id (\<lambda>_. i) (answer (oc_model_call opts i))))"

definition oc_spec :: "oc_driver \<Rightarrow> string \<Rightarrow> string \<Rightarrow> string \<Rightarrow> process_spec" where
  "oc_spec d state config dir =
     \<lparr>ps_name = or_else (od_command d) ''opencode'', ps_args = [''acp'', ''--pure''], ps_dir = dir,
      ps_env = oc_isolation_env
        @ [''XDG_CONFIG_HOME='' @ path_join [state, ''config''], ''XDG_DATA_HOME='' @ path_join [state, ''data''],
           ''XDG_STATE_HOME='' @ path_join [state, ''state''], ''XDG_CACHE_HOME='' @ path_join [state, ''cache''],
           ''OPENCODE_CONFIG_CONTENT='' @ config]
        @ od_env d\<rparr>"

text \<open>What Open meets: the state directory's checks, the temporary directory, the working directory made
  absolute, the skills' cache, the bridge server, its endpoint's address and token, the start, the
  Client's answers and the session.\<close>

record 's oc_world =
  ow_made :: "err option"
  ow_private :: "err option"
  ow_temp :: "err + string"
  ow_dir :: "err + string"
  ow_cached :: "skill \<Rightarrow> err + string"
  ow_server :: "err option"
  ow_endpoint :: "err + string \<times> string"
  ow_start :: "err option"
  ow_answer :: "oc_any \<Rightarrow> err + string"
  ow_session :: "string \<Rightarrow> err + 's"

definition oc_open :: "'s oc_world \<Rightarrow> oc_driver \<Rightarrow> options \<Rightarrow> resource set \<times> (err + process_spec \<times> 's)" where
  "oc_open w d opts =
     (case map_of (od_providers d) (opt_provider opts) of
        None \<Rightarrow> ({}, Inl (Msg (''opencode: provider '' @ quote (opt_provider opts)
                  @ '': the driver has none by that name (known: '' @ join '', '' (sort (map fst (od_providers d))) @ '')'')))
      | Some p \<Rightarrow>
          (case (if od_state_dir d = [] then None
                 else case ow_made w of Some e \<Rightarrow> Some e | None \<Rightarrow> ow_private w) of
             Some e \<Rightarrow> ({}, Inl (wrap ''opencode: state directory'' e))
           | None \<Rightarrow>
               (case ow_temp w of
                  Inl e \<Rightarrow> ({}, Inl (wrap ''opencode'' e))
                | Inr tmp \<Rightarrow>
                    (let held = {TempDir} in
                     case ow_dir w of
                       Inl e \<Rightarrow> (held - {TempDir}, Inl (wrap ''opencode'' e))
                     | Inr dir \<Rightarrow>
                         (case oc_config (ow_cached w) p opts of
                            Inl e \<Rightarrow> (held - {TempDir}, Inl e)
                          | Inr config \<Rightarrow>
                              (case ow_server w of
                                 Some e \<Rightarrow> (held - {TempDir}, Inl (wrap ''opencode'' e))
                               | None \<Rightarrow>
                                   (case ow_endpoint w of
                                      Inl e \<Rightarrow> (held - {TempDir}, Inl (wrap ''opencode'' e))
                                    | Inr (url, token) \<Rightarrow>
                                        (let held = insert Transport held;
                                             spec = oc_spec d (or_else (od_state_dir d) (path_join [tmp, ''state''])) config dir in
                                         case ow_start w of
                                           Some e \<Rightarrow> (held - {Transport} - {TempDir}, Inl e)
                                         | None \<Rightarrow>
                                             (let held = insert Process held in
                                              case oc_handshake (ow_answer w) (oc_servers url token) opts dir of
                                                Inl e \<Rightarrow> (held - {Process, Transport, TempDir}, Inl e)
                                              | Inr i \<Rightarrow>
                                                  (case ow_session w i of
                                                     Inl e \<Rightarrow> (held - {Process, Transport, TempDir}, Inl e)
                                                   | Inr s \<Rightarrow> (held, Inr (spec, s))))))))))))"

section \<open>What an Open leaves\<close>


text \<open>
  C27: setModel ends. The clock moves at least a poll's length between two calls, as time.After has it, so
  within the wait's number of polls and two more calls it returns, with what the last call answered.
\<close>

theorem set_model_ends:
  assumes "\<And>n. clock n + catalog_poll \<le> clock (Suc n)" "start \<le> clock 0" "0 \<le> wait"
  shows "\<exists>n. pi_set_model answer clock ended provider (start + wait) 0 (nat (wait div catalog_poll) + 2) = Some (answer n)"
proof -
  have far: "start + int n * catalog_poll \<le> clock n" for n
  proof (induction n)
    case (Suc n)
    then show ?case using assms(1)[of n] by (simp add: algebra_simps)
  qed (simp add: assms(2))
  have "\<exists>k. pi_set_model answer clock ended provider (start + wait) n f = Some (answer k)"
    if "wait < int (n + f - 1) * catalog_poll" "0 < f" for n f
    using that
  proof (induction f arbitrary: n)
    case (Suc f)
    show ?case
    proof (cases "f = 0")
      case True
      then have "start + wait < clock n" using Suc.prems far[of n] by simp
      then have "pi_set_model answer clock ended provider (start + wait) n (Suc f) = Some (answer n)"
        by (simp split: option.split)
      then show ?thesis ..
    next
      case False
      then obtain k where "pi_set_model answer clock ended provider (start + wait) (Suc n) f = Some (answer k)"
        using Suc.IH[of "Suc n"] Suc.prems by auto
      then have "pi_set_model answer clock ended provider (start + wait) n (Suc f) \<in> {Some (answer n), Some (answer k)}"
        by (simp split: option.split)
      then show ?thesis by blast
    qed
  qed simp
  moreover have "wait < int (nat (wait div catalog_poll) + 2 - 1) * catalog_poll"
    using assms(3) div_mult_mod_eq[of wait catalog_poll] pos_mod_bound[of catalog_poll wait]
    by (simp add: catalog_poll_def nat_add_distrib pos_imp_zdiv_nonneg_iff algebra_simps)
  ultimately show ?thesis by (metis add_0 add_2_eq_Suc' zero_less_Suc)
qed

lemma set_model_ends_witness:
  "\<exists>n :: nat. pi_set_model (\<lambda>_. Some (CommandErr ''set_model'' ''Model not found: m'')) (\<lambda>n. int n * catalog_poll) (\<lambda>_. False)
     llama_provider (0 + default_wait) 0 (nat (default_wait div catalog_poll) + 2)
       = Some ((\<lambda>_. Some (CommandErr ''set_model'' ''Model not found: m'')) n)"
proof -
  have clock: "int n * catalog_poll + catalog_poll \<le> int (Suc n) * catalog_poll" for n by (simp add: algebra_simps)
  have "0 \<le> int 0 * catalog_poll" "0 \<le> default_wait" by (simp_all add: default_wait_def)
  from set_model_ends[where clock = "\<lambda>n. int n * catalog_poll" and ended = "\<lambda>_. False" and provider = llama_provider
      and answer = "\<lambda>_. Some (CommandErr ''set_model'' ''Model not found: m'')", OF clock this]
  show ?thesis .
qed

end
