(* ===== verification/Model_Client.thy ===== *)
theory Model_Client
  imports Connections "HOL-Library.Multiset"
begin

text \<open>
  The direct client of OpenAI-compatible endpoints (model): its requests, its errors and what it makes
  of a response. net/http, net/url and mime/multipart are what the arguments answer. A number of an
  embedding is kept as its text. The lemmas show that Embed gives each input its own embedding.
\<close>

section \<open>Client\<close>

record url_parts =
  ur_scheme :: string
  ur_host :: string
  ur_path :: string
  ur_raw_path :: string
  ur_raw_query :: string
  ur_force_query :: bool
  ur_fragment :: string

record model_client =
  ml_base :: url_parts
  ml_query :: string

text \<open>New: \<open>parse\<close> is url.Parse, \<open>query\<close> the encoded query.\<close>

definition new_model :: "bool \<Rightarrow> (string \<Rightarrow> err + url_parts) \<Rightarrow> string \<Rightarrow> string \<Rightarrow> err + model_client" where
  "new_model has_http parse base query =
     (if \<not> has_http then Inl (Msg ''model: config has no HTTP client'')
      else if base = [] then Inl (Msg ''model: config has no base URL'')
      else case parse base of
        Inl e \<Rightarrow> Inl (wrap ''model: base URL'' e)
      | Inr u \<Rightarrow>
          if (ur_scheme u \<noteq> ''http'' \<and> ur_scheme u \<noteq> ''https'') \<or> ur_host u = []
          then Inl (Msg (''model: base URL '' @ quote base @ '' isn't an absolute http or https URL''))
          else if ur_raw_query u \<noteq> [] \<or> ur_force_query u
          then Inl (Msg (''model: base URL '' @ quote base @ '' has a query; set Config.Query instead''))
          else if ur_fragment u \<noteq> []
          then Inl (Msg (''model: base URL '' @ quote base @ '' has a fragment''))
          else Inr \<lparr>ml_base = u, ml_query = query\<rparr>)"

definition model_endpoint :: "model_client \<Rightarrow> string \<Rightarrow> url_parts" where
  "model_endpoint c route =
     (ml_base c)\<lparr>ur_path := trim_suffix (ur_path (ml_base c)) ''/'' @ ''/'' @ route, ur_raw_path := [],
       ur_raw_query := ml_query c\<rparr>"

record token_usage =
  mu_input :: int
  mu_output :: int

definition token_usage_of :: "members \<Rightarrow> token_usage option" where
  "token_usage_of ms = do {
     i \<leftarrow> int_field ''prompt_tokens'' ms;
     out \<leftarrow> int_field ''completion_tokens'' ms;
     Some \<lparr>mu_input = i, mu_output = out\<rparr> }"

section \<open>Errors\<close>

definition max_error_body :: nat where
  "max_error_body = 64 * 2 ^ 10"

definition max_error_text :: nat where
  "max_error_text = 512"

record api_error =
  ae_status :: nat
  ae_message :: string
  ae_code :: string
  ae_body :: string

definition error_code :: "string \<Rightarrow> string" where
  "error_code raw =
     (case unmarshal_str raw of
        Some s \<Rightarrow> s
      | None \<Rightarrow> (case json_parse raw of Some (JNum t) \<Rightarrow> t | _ \<Rightarrow> []))"

definition new_api_error :: "nat \<Rightarrow> string \<Rightarrow> api_error" where
  "new_api_error status body =
     (let body = take max_error_body body;
          e = \<lparr>ae_status = status, ae_message = [], ae_code = [], ae_body = body\<rparr> in
      case unmarshal_struct body \<bind> inner_field ''error'' of
        None \<Rightarrow> e
      | Some ms \<Rightarrow>
          (case str_field ''message'' ms of
             None \<Rightarrow> e
           | Some m \<Rightarrow> e\<lparr>ae_message := m, ae_code := error_code (raw_field ''code'' ms)\<rparr>))"

text \<open>APIError.Error; \<open>status_text\<close> is http.StatusText.\<close>

definition api_error_text :: "(nat \<Rightarrow> string) \<Rightarrow> api_error \<Rightarrow> string" where
  "api_error_text status_text e =
     (let s = nat_text (ae_status e) @ '' '' @ status_text (ae_status e); body = trim_space (ae_body e) in
      if ae_message e \<noteq> [] \<and> ae_code e \<noteq> [] then s @ '': '' @ ae_message e @ '' ('' @ ae_code e @ '')''
      else if ae_message e \<noteq> [] then s @ '': '' @ ae_message e
      else if body = [] then s
      else if max_error_text < length body then s @ '': '' @ take max_error_text body @ ''...''
      else s @ '': '' @ body)"

section \<open>Requests\<close>

text \<open>
  An error of a request: the APIError that fmt.Errorf wrapped for an operation, so that errors.As
  finds it, or any other error.
\<close>

datatype request_error =
    Failed err
  | Refused string api_error

definition post_headers :: "string \<Rightarrow> string \<Rightarrow> (string \<times> string) list" where
  "post_headers content_type token =
     [(''Content-Type'', content_type), (''Accept'', ''application/json'')]
     @ (if token \<noteq> [] then [(''Authorization'', ''Bearer '' @ token)] else [])"

text \<open>Decoder.Decode into a struct: the first value of the body, whatever follows.\<close>

definition decode_first :: "string \<Rightarrow> members option" where
  "decode_first s = map_option fst (jvalue (json_fuel s) (skip_ws s)) \<bind> struct_of"

text \<open>post, from what the token source, NewRequest and Do answer.\<close>

definition model_post ::
  "string \<Rightarrow> err + string \<Rightarrow> err option \<Rightarrow> (string \<Rightarrow> err + nat \<times> string)
    \<Rightarrow> (members \<Rightarrow> 'a option) \<Rightarrow> request_error + 'a" where
  "model_post op token made send out =
     (let failed = (\<lambda>e. Failed (wrap (''model: '' @ op) e)) in
      case token of
        Inl e \<Rightarrow> Inl (Failed (wrap (''model: '' @ op @ '': token'') e))
      | Inr t \<Rightarrow>
          (case made of
             Some e \<Rightarrow> Inl (failed e)
           | None \<Rightarrow>
               (case send t of
                  Inl e \<Rightarrow> Inl (failed e)
                | Inr (status, body) \<Rightarrow>
                    if status < 200 \<or> 299 < status
                    then Inl (Refused op (new_api_error status body))
                    else (case decode_first body \<bind> out of
                        None \<Rightarrow> Inl (Failed (wrap (''model: '' @ op @ '': decode response'') json_err))
                      | Some r \<Rightarrow> Inr r))))"

definition request_error_text :: "(nat \<Rightarrow> string) \<Rightarrow> request_error \<Rightarrow> string" where
  "request_error_text status_text f =
     (case f of
        Failed e \<Rightarrow> err_text e
      | Refused op e \<Rightarrow> ''model: '' @ op @ '': '' @ api_error_text status_text e)"

text \<open>postJSON: \<open>post\<close> sends a body.\<close>

definition post_json :: "(string \<Rightarrow> request_error + 'a) \<Rightarrow> string \<Rightarrow> goval \<Rightarrow> request_error + 'a" where
  "post_json post op body =
     (case marshal body of None \<Rightarrow> Inl (Failed (wrap (''model: '' @ op @ '': encode request'') json_err)) | Some s \<Rightarrow> post s)"

section \<open>Chat\<close>

datatype part =
    TextPart string
  | ImagePart string string
  | AudioPart string string

record chat_message =
  cm_role :: string
  cm_parts :: "part list"

record chat_request =
  cr_model :: string
  cr_messages :: "chat_message list"
  cr_max_tokens :: int
  cr_effort :: string

record chat_response =
  cp_text :: string
  cp_finish :: string
  cp_usage :: token_usage

definition data_url :: "string \<Rightarrow> string \<Rightarrow> string" where
  "data_url media data = ''data:'' @ media @ '';base64,'' @ base64 data"

fun parts_wire :: "nat \<Rightarrow> part list \<Rightarrow> err + goval list" where
  "parts_wire i [] = Inr []"
| "parts_wire i (p # ps) =
     (case (case p of
          TextPart s \<Rightarrow> Inr (GStruct [(''type'', GStr ''text''), (''text'', GStr s)])
        | ImagePart media data \<Rightarrow>
            if media = [] \<or> data = [] then Inl (Msg (''part '' @ nat_text i @ '': an image needs a media type and data''))
            else Inr (GStruct [(''type'', GStr ''image_url''), (''image_url'', GStruct [(''url'', GStr (data_url media data))])])
        | AudioPart format data \<Rightarrow>
            if format = [] \<or> data = [] then Inl (Msg (''part '' @ nat_text i @ '': audio needs a format and data''))
            else Inr (GStruct [(''type'', GStr ''input_audio''),
              (''input_audio'', GStruct [(''data'', GStr (base64 data)), (''format'', GStr format)])])) of
        Inl e \<Rightarrow> Inl e
      | Inr v \<Rightarrow> map_sum id ((#) v) (parts_wire (Suc i) ps))"

definition content_wire :: "part list \<Rightarrow> err + goval" where
  "content_wire ps =
     (case ps of
        [] \<Rightarrow> Inl (Msg ''no parts'')
      | [TextPart s] \<Rightarrow> Inr (GStr s)
      | _ \<Rightarrow> map_sum id GList (parts_wire 0 ps))"

fun messages_wire :: "nat \<Rightarrow> chat_message list \<Rightarrow> err + goval list" where
  "messages_wire i [] = Inr []"
| "messages_wire i (m # ms) =
     (if cm_role m = [] then Inl (Msg (''message '' @ nat_text i @ '' has no role''))
      else case content_wire (cm_parts m) of
        Inl e \<Rightarrow> Inl (wrap (''message '' @ nat_text i) e)
      | Inr c \<Rightarrow> map_sum id ((#) (GStruct [(''role'', GStr (cm_role m)), (''content'', c)])) (messages_wire (Suc i) ms))"

definition chat_wire :: "chat_request \<Rightarrow> err + goval" where
  "chat_wire req =
     (if cr_model req = [] then Inl (Msg ''the request names no model'')
      else if cr_messages req = [] then Inl (Msg ''the request has no messages'')
      else map_sum id
        (\<lambda>ms. GStruct ([(''model'', GStr (cr_model req)), (''messages'', GList ms)]
           @ (if cr_max_tokens req \<noteq> 0 then [(''max_completion_tokens'', GInt (cr_max_tokens req))] else [])
           @ omit_str ''reasoning_effort'' (cr_effort req)))
        (messages_wire 0 (cr_messages req)))"

text \<open>The reply: each choice's content, if any, and finish reason, and the usage.\<close>

definition chat_choice_of :: "string \<times> json \<Rightarrow> (string option \<times> string) option" where
  "chat_choice_of e = do {
     ms \<leftarrow> elem_struct e;
     m \<leftarrow> inner_field ''message'' ms;
     c \<leftarrow> opt_str_field ''content'' m;
     f \<leftarrow> str_field ''finish_reason'' ms;
     Some (c, f) }"

definition chat_reply_of :: "members \<Rightarrow> ((string option \<times> string) list \<times> token_usage) option" where
  "chat_reply_of ms = do {
     es \<leftarrow> list_field ''choices'' ms;
     cs \<leftarrow> option_all chat_choice_of es;
     u \<leftarrow> inner_field ''usage'' ms \<bind> token_usage_of;
     Some (cs, u) }"

text \<open>Chat: \<open>post\<close> sends the body and decodes the reply.\<close>

definition chat :: "(goval \<Rightarrow> request_error + (string option \<times> string) list \<times> token_usage) \<Rightarrow> chat_request \<Rightarrow> request_error + chat_response" where
  "chat post req =
     (case chat_wire req of
        Inl e \<Rightarrow> Inl (Failed (wrap ''model: chat'' e))
      | Inr body \<Rightarrow>
          (case post body of
             Inl e \<Rightarrow> Inl e
           | Inr ([], u) \<Rightarrow> Inl (Failed (Msg ''model: chat: the response has no choices''))
           | Inr ((c, f) # cs, u) \<Rightarrow>
               Inr \<lparr>cp_text = (case c of None \<Rightarrow> [] | Some t \<Rightarrow> t), cp_finish = f, cp_usage = u\<rparr>))"

section \<open>Embeddings\<close>

record embed_request =
  er_model :: string
  er_input :: "string list"
  er_dimensions :: int

text \<open>An embedding is nil or its numbers.\<close>

record embed_datum =
  ed_index :: int
  ed_embedding :: "string list option"

record embed_response =
  ep_vectors :: "string list list"
  ep_usage :: token_usage

definition embed_body :: "embed_request \<Rightarrow> goval" where
  "embed_body req =
     GStruct ([(''model'', GStr (er_model req)), (''input'', GList (map GStr (er_input req))), (''encoding_format'', GStr ''float'')]
       @ (if er_dimensions req \<noteq> 0 then [(''dimensions'', GInt (er_dimensions req))] else []))"

fun place_embeddings :: "embed_datum list \<Rightarrow> string list option list \<Rightarrow> request_error + string list option list" where
  "place_embeddings [] vs = Inr vs"
| "place_embeddings (d # ds) vs =
     (let i = ed_index d in
      if i < 0 \<or> int (length vs) \<le> i then Inl (Failed (Msg (''model: embed: index '' @ int_text i @ '' is out of range'')))
      else if vs ! nat i \<noteq> None then Inl (Failed (Msg (''model: embed: index '' @ int_text i @ '' repeats'')))
      else if ed_embedding d = None then Inl (Failed (Msg (''model: embed: index '' @ int_text i @ '' has no embedding'')))
      else place_embeddings ds (vs[nat i := ed_embedding d]))"

definition embed ::
  "(goval \<Rightarrow> request_error + embed_datum list \<times> token_usage) \<Rightarrow> embed_request \<Rightarrow> request_error + embed_response" where
  "embed post req =
     (if er_model req = [] then Inl (Failed (Msg ''model: embed: the request names no model''))
      else if er_input req = [] then Inl (Failed (Msg ''model: embed: the request has no input''))
      else case post (embed_body req) of
        Inl e \<Rightarrow> Inl e
      | Inr (data, u) \<Rightarrow>
          if length data \<noteq> length (er_input req)
          then Inl (Failed (Msg (''model: embed: '' @ nat_text (length data) @ '' embeddings for '' @ nat_text (length (er_input req)) @ '' inputs'')))
          else map_sum id (\<lambda>vs. \<lparr>ep_vectors = map (case_option [] id) vs, ep_usage = u\<rparr>)
                 (place_embeddings data (replicate (length (er_input req)) None)))"

section \<open>Transcription\<close>

record transcribe_request =
  tq_model :: string
  tq_audio :: "string option"
  tq_filename :: string
  tq_language :: string
  tq_prompt :: string

text \<open>writeForm's fields, and then its file.\<close>

definition form_fields :: "transcribe_request \<Rightarrow> (string \<times> string) list" where
  "form_fields req =
     filter (\<lambda>f. snd f \<noteq> [])
       [(''model'', tq_model req), (''language'', tq_language req), (''prompt'', tq_prompt req), (''response_format'', ''json'')]"

definition transcribe ::
  "((string \<times> string) list \<Rightarrow> string \<times> string \<Rightarrow> request_error + string) \<Rightarrow> transcribe_request \<Rightarrow> request_error + string" where
  "transcribe post req =
     (if tq_model req = [] then Inl (Failed (Msg ''model: transcribe: the request names no model''))
      else case tq_audio req of
        None \<Rightarrow> Inl (Failed (Msg ''model: transcribe: the request has no audio''))
      | Some a \<Rightarrow>
          if tq_filename req = [] then Inl (Failed (Msg ''model: transcribe: the request has no filename''))
          else post (form_fields req) (tq_filename req, a))"

section \<open>Each input has its embedding\<close>

lemma place_embeddings_at:
  "place_embeddings ds vs = Inr ws \<Longrightarrow>
     length ws = length vs \<and> distinct (map ed_index ds)
     \<and> (\<forall>d \<in> set ds. 0 \<le> ed_index d \<and> nat (ed_index d) < length vs \<and> vs ! nat (ed_index d) = None
          \<and> ed_embedding d \<noteq> None \<and> ws ! nat (ed_index d) = ed_embedding d)
     \<and> (\<forall>i < length vs. (\<forall>d \<in> set ds. ed_index d \<noteq> int i) \<longrightarrow> ws ! i = vs ! i)"
proof (induction ds arbitrary: vs)
  case (Cons d ds)
  let ?i = "nat (ed_index d)" let ?vs = "vs[?i := ed_embedding d]"
  have d: "0 \<le> ed_index d" "?i < length vs" "vs ! ?i = None" "ed_embedding d \<noteq> None" and p: "place_embeddings ds ?vs = Inr ws"
    using Cons.prems by (auto simp: Let_def split: if_splits)
  note IH = Cons.IH[OF p]
  have new: "ed_index e \<noteq> ed_index d" if "e \<in> set ds" for e
    using IH that d by (metis nth_list_update_eq)
  then have "ws ! ?i = ed_embedding d" using IH d by (metis int_nat_eq length_list_update nth_list_update_eq)
  moreover have "vs ! nat (ed_index e) = None" if "e \<in> set ds" for e
  proof -
    have "?vs ! nat (ed_index e) = None" "0 \<le> ed_index e" using IH that by auto
    moreover have "?i \<noteq> nat (ed_index e)" using new[OF that] d(1) calculation(2) by (simp add: eq_nat_nat_iff)
    ultimately show ?thesis by simp
  qed
  moreover have "ws ! i = vs ! i" if "i < length vs" "\<forall>e \<in> set (d # ds). ed_index e \<noteq> int i" for i
  proof -
    have "?i \<noteq> i" using that(2) d(1) by auto
    then show ?thesis using IH that by simp
  qed
  ultimately show ?case using IH d new by auto
qed simp

text \<open>
  C24: the vectors Embed returns are one for each input and in its place: the data of a response it
  accepts holds each index of an input exactly once, and the vector there is that datum's embedding, in
  whatever order the endpoint sent them.
\<close>

theorem embed_one_each:
  assumes "embed post req = Inr r" "post (embed_body req) = Inr (data, u)"
  shows "length (ep_vectors r) = length (er_input req)
     \<and> mset (map ed_index data) = mset (map int [0 ..< length (er_input req)])
     \<and> (\<forall>d \<in> set data. ed_embedding d = Some (ep_vectors r ! nat (ed_index d)))"
proof -
  let ?n = "length (er_input req)"
  obtain ws where n: "length data = ?n" and ws: "place_embeddings data (replicate ?n None) = Inr ws"
      and r: "r = \<lparr>ep_vectors = map (case_option [] id) ws, ep_usage = u\<rparr>"
    using assms by (auto simp: embed_def map_sum_Inr split: if_splits)
  note at = place_embeddings_at[OF ws]
  have "set (map ed_index data) \<subseteq> int ` {0 ..< ?n}" using at by (force simp: image_iff)
  moreover have "card (set (map ed_index data)) = ?n" using at n by (metis distinct_card length_map)
  moreover have "card (int ` {0 ..< ?n}) = ?n" by (simp add: card_image)
  ultimately have "set (map ed_index data) = set (map int [0 ..< ?n])" by (simp add: card_subset_eq)
  then have "mset (map ed_index data) = mset (map int [0 ..< ?n])"
    using at by (subst set_eq_iff_mset_eq_distinct[symmetric]) (simp_all add: distinct_map)
  moreover have "ed_embedding d = Some (ep_vectors r ! nat (ed_index d))" if "d \<in> set data" for d
  proof -
    have "nat (ed_index d) < length ws" "ws ! nat (ed_index d) = ed_embedding d" "ed_embedding d \<noteq> None" using at that by auto
    then show ?thesis by (auto simp: r)
  qed
  moreover have "length (ep_vectors r) = ?n" using at by (simp add: r)
  ultimately show ?thesis by blast
qed

definition embed_example :: "request_error + embed_datum list \<times> token_usage" where
  "embed_example =
     Inr ([\<lparr>ed_index = 1, ed_embedding = Some [''0.5'']\<rparr>, \<lparr>ed_index = 0, ed_embedding = Some [''1'']\<rparr>],
       \<lparr>mu_input = 4, mu_output = 0\<rparr>)"

lemma embed_one_each_witness:
  "length (ep_vectors \<lparr>ep_vectors = [[''1''], [''0.5'']], ep_usage = \<lparr>mu_input = 4, mu_output = 0\<rparr>\<rparr>) = length [''a'', ''b'']
     \<and> Some [''0.5''] = Some (ep_vectors \<lparr>ep_vectors = [[''1''], [''0.5'']], ep_usage = \<lparr>mu_input = 4, mu_output = 0\<rparr>\<rparr> ! nat 1)"
proof -
  let ?req = "\<lparr>er_model = ''m'', er_input = [''a'', ''b''], er_dimensions = 0\<rparr>"
  have "embed (\<lambda>_. embed_example) ?req
      = Inr \<lparr>ep_vectors = [[''1''], [''0.5'']], ep_usage = \<lparr>mu_input = 4, mu_output = 0\<rparr>\<rparr>"
    by code_simp
  from embed_one_each[OF this, of "[\<lparr>ed_index = 1, ed_embedding = Some [''0.5'']\<rparr>, \<lparr>ed_index = 0, ed_embedding = Some [''1'']\<rparr>]"
      "\<lparr>mu_input = 4, mu_output = 0\<rparr>"]
  show ?thesis by (simp add: embed_example_def)
qed

end
