(* ===== verification/Clutch_Service.thy ===== *)
theory Clutch_Service
  imports Runner_Ops Filestores Drivers
begin

text \<open>
  What clutch, the command line program, makes of the packages: its session service
  (clutch/domain/session/service.go), the HTTP handler over a Runner (clutch/domain/workflow/handler.go)
  and the following of a run (service.go). A reply's JSON stands as what it encodes. The lemmas show
  that an exchange is cancelled at the text delta it asks for, and what a reply tells of the run.
\<close>

section \<open>Sessions\<close>

record session_setup =
  su_model :: string
  su_tools :: "tool list"
  su_skills :: "skill list"
  su_harness_tools :: "string list option"

definition open_options :: "options \<Rightarrow> string \<Rightarrow> session_setup \<Rightarrow> options" where
  "open_options opts sid setup =
     (let opts = opts\<lparr>opt_session_id := sid, opt_tools := opt_tools opts @ su_tools setup,
            opt_skills := opt_skills opts @ su_skills setup\<rparr>;
          opts = (if su_model setup \<noteq> [] then opts\<lparr>opt_model := su_model setup\<rparr> else opts) in
      if su_harness_tools setup \<noteq> None then opts\<lparr>opt_harness_tools := su_harness_tools setup\<rparr> else opts)"

text \<open>OpenWith: \<open>opn\<close> is the Open of the driver the service resolves.\<close>

definition open_with ::
  "err + (options \<Rightarrow> err + 's) \<Rightarrow> options \<Rightarrow> string \<Rightarrow> session_setup \<Rightarrow> err + 's" where
  "open_with driver opts sid setup =
     (case driver of Inl e \<Rightarrow> Inl e | Inr opn \<Rightarrow> opn (open_options opts sid setup))"

text \<open>
  Exchanges: the records, whether the journal was checked, and the error. \<open>recs\<close> is the Exchanges of a
  session, \<open>journaled\<close> its Journaled and \<open>cls\<close> its Close.
\<close>

definition service_exchanges ::
  "(string \<Rightarrow> err + 's) \<Rightarrow> ('s \<Rightarrow> exchange_record list \<times> err option) \<Rightarrow> ('s \<Rightarrow> bool) \<Rightarrow> ('s \<Rightarrow> err option)
    \<Rightarrow> options \<Rightarrow> string \<Rightarrow> bool \<Rightarrow> exchange_record list \<times> bool \<times> err option" where
  "service_exchanges opn recs journaled cls opts sid verify =
     (if \<not> verify then
        (case opt_store opts of
           None \<Rightarrow> ([], False, None)
         | Some store \<Rightarrow> (case store sid of Inl e \<Rightarrow> ([], False, Some e) | Inr rs \<Rightarrow> (rs, False, None)))
      else case opn sid of
        Inl e \<Rightarrow> ([], False, Some e)
      | Inr s \<Rightarrow> (case recs s of (rs, e) \<Rightarrow> (rs, journaled s, errors_join [e, cls s])))"

text \<open>What Run does with each event: it is observed, and the exchange cancelled at the last delta asked for.\<close>

datatype follow_act =
    ObserveSent uuid
  | Observe event
  | Cancelling int
  | CallCancel

fun follow_events :: "int \<Rightarrow> int \<Rightarrow> event list \<Rightarrow> follow_act list" where
  "follow_events limit n [] = []"
| "follow_events limit n (ev # evs) =
     Observe ev #
     (if ev_kind ev \<noteq> EventTextDelta then follow_events limit n evs
      else (if n + 1 = limit then [Cancelling (n + 1), CallCancel] else []) @ follow_events limit (n + 1) evs)"

record service_outcome =
  sv_exchange_id :: uuid
  sv_result :: result
  sv_err :: "err option"

text \<open>Run: \<open>sent\<close> is the exchange Send opened, its events and what its Wait answers.\<close>

definition service_run ::
  "int \<Rightarrow> err + uuid \<times> event list \<times> result \<times> err option \<Rightarrow> follow_act list \<times> (err + service_outcome)" where
  "service_run cancel_after sent =
     (case sent of
        Inl e \<Rightarrow> ([], Inl e)
      | Inr (xid, evs, res, e) \<Rightarrow>
          (ObserveSent xid # follow_events cancel_after 0 evs, Inr \<lparr>sv_exchange_id = xid, sv_result = res, sv_err = e\<rparr>))"

definition deltas :: "event list \<Rightarrow> nat" where
  "deltas evs = length (filter (\<lambda>ev. ev_kind ev = EventTextDelta) evs)"

lemma follow_events_past: "limit \<le> n \<Longrightarrow> follow_events limit n evs = map Observe evs"
  by (induction limit n evs rule: follow_events.induct) auto

lemma follow_events_short: "int (deltas evs) + n < limit \<Longrightarrow> follow_events limit n evs = map Observe evs"
  by (induction limit n evs rule: follow_events.induct) (auto simp: deltas_def)

lemma follow_events_at:
  "n < limit \<Longrightarrow> limit \<le> int (deltas evs) + n \<Longrightarrow>
     \<exists>pre ev post. evs = pre @ ev # post \<and> ev_kind ev = EventTextDelta \<and> int (deltas pre) + n + 1 = limit
       \<and> follow_events limit n evs = map Observe (pre @ [ev]) @ [Cancelling limit, CallCancel] @ map Observe post"
proof (induction limit n evs rule: follow_events.induct)
  case (2 limit n ev evs)
  consider (other) "ev_kind ev \<noteq> EventTextDelta" | (last) "ev_kind ev = EventTextDelta" "n + 1 = limit"
    | (more) "ev_kind ev = EventTextDelta" "n + 1 < limit"
    using "2.prems"(1) by linarith
  then show ?case
  proof cases
    case other
    then obtain pre e post where "evs = pre @ e # post" "ev_kind e = EventTextDelta" "int (deltas pre) + n + 1 = limit"
        "follow_events limit n evs = map Observe (pre @ [e]) @ [Cancelling limit, CallCancel] @ map Observe post"
      using "2.IH"(1) "2.prems" by (auto simp: deltas_def)
    with other show ?thesis by (intro exI[of _ "ev # pre"] exI[of _ e] exI[of _ post]) (simp add: deltas_def)
  next
    case last
    then show ?thesis
      by (intro exI[of _ "[]"] exI[of _ ev] exI[of _ evs]) (simp add: deltas_def follow_events_past)
  next
    case more
    then obtain pre e post where "evs = pre @ e # post" "ev_kind e = EventTextDelta" "int (deltas pre) + (n + 1) + 1 = limit"
        "follow_events limit (n + 1) evs = map Observe (pre @ [e]) @ [Cancelling limit, CallCancel] @ map Observe post"
      using "2.IH"(2) "2.prems" by (auto simp: deltas_def)
    with more show ?thesis by (intro exI[of _ "ev # pre"] exI[of _ e] exI[of _ post]) (simp add: deltas_def)
  qed
qed (simp add: deltas_def)

text \<open>
  Run passes every event on in order, and cancels the exchange once, directly after the text delta
  the caller asked for; it never cancels an exchange that has fewer, nor one run to its end.
\<close>

theorem run_cancels_at:
  "if 0 < limit \<and> limit \<le> int (deltas evs)
   then \<exists>pre ev post. evs = pre @ ev # post \<and> ev_kind ev = EventTextDelta \<and> int (deltas (pre @ [ev])) = limit
     \<and> fst (service_run limit (Inr (xid, evs, res, e))) = ObserveSent xid # map Observe (pre @ [ev]) @ [Cancelling limit, CallCancel] @ map Observe post
   else fst (service_run limit (Inr (xid, evs, res, e))) = ObserveSent xid # map Observe evs"
proof (cases "0 < limit \<and> limit \<le> int (deltas evs)")
  case True
  then obtain pre ev post where "evs = pre @ ev # post" "ev_kind ev = EventTextDelta" "int (deltas pre) + 0 + 1 = limit"
      "follow_events limit 0 evs = map Observe (pre @ [ev]) @ [Cancelling limit, CallCancel] @ map Observe post"
    using follow_events_at[of 0 limit evs] by auto
  moreover have "int (deltas (pre @ [ev])) = limit" using calculation by (simp add: deltas_def)
  ultimately show ?thesis using True by (auto simp: service_run_def)
next
  case False
  then show ?thesis using follow_events_past[of limit 0 evs] follow_events_short[of evs 0 limit]
    by (auto simp: service_run_def not_le)
qed

section \<open>The HTTP handler\<close>

text \<open>Load: \<open>dec\<close> is what decoding the body, cut at its bound, answers.\<close>

definition wf_load :: "'t template_parse \<Rightarrow> err + workflow \<Rightarrow> err + workflow" where
  "wf_load parse dec =
     (case dec of
        Inl e \<Rightarrow> Inl (Errorf (err_text ErrInvalid @ '': '' @ err_text e) [ErrInvalid, e])
      | Inr w \<Rightarrow> (case wf_validate parse w of Some e \<Rightarrow> Inl e | None \<Rightarrow> Inr w))"

datatype http_body =
    EmptyBody
  | ErrorBody string
  | CreatedBody string
  | ListingBody "wstate list" "string list"
  | StateBody wstate

record http_reply =
  hr_status :: nat
  hr_location :: string
  hr_body :: http_body

definition fail_status :: "err \<Rightarrow> nat" where
  "fail_status e =
     (if err_is e ErrUnknownRun then 404
      else if err_is e ErrRunEnded \<or> err_is e ErrRunActive \<or> err_is e ErrSequence then 409
      else if err_is e ErrInvalid then 400
      else if err_is e ErrShutdown then 503
      else 500)"

definition http_fail :: "err \<Rightarrow> http_reply" where
  "http_fail e = \<lparr>hr_status = fail_status e, hr_location = [], hr_body = ErrorBody (err_text e)\<rparr>"

definition post_runs ::
  "'t template_parse \<Rightarrow> err + workflow \<Rightarrow> string \<Rightarrow> time \<Rightarrow> err option \<Rightarrow> runner \<Rightarrow> runner \<times> http_reply" where
  "post_runs parse dec rid now answer r =
     (case wf_load parse dec of
        Inl e \<Rightarrow> (r, \<lparr>hr_status = 400, hr_location = [], hr_body = ErrorBody (err_text e)\<rparr>)
      | Inr w \<Rightarrow>
          (case runner_start parse w rid now answer r of
             (r, Inl e) \<Rightarrow> (r, http_fail e)
           | (r, Inr rid) \<Rightarrow> (r, \<lparr>hr_status = 201, hr_location = ''/runs/'' @ rid, hr_body = CreatedBody rid\<rparr>)))"

text \<open>strings.Split at newlines.\<close>

fun error_lines :: "string \<Rightarrow> string list" where
  "error_lines [] = [[]]"
| "error_lines (c # s) =
     (if c = CHR 0x0A then [] # error_lines s
      else (case error_lines s of [] \<Rightarrow> [[c]] | l # ls \<Rightarrow> (c # l) # ls))"

definition get_runs :: "(err + (string \<times> err option) list) \<Rightarrow> runner \<Rightarrow> http_reply" where
  "get_runs ids r =
     (case runner_runs ids r of
        (ss, e) \<Rightarrow>
          \<lparr>hr_status = 200, hr_location = [],
           hr_body = ListingBody ss (case e of None \<Rightarrow> [] | Some e \<Rightarrow> error_lines (err_text e))\<rparr>)"

definition get_run :: "string \<Rightarrow> err option \<Rightarrow> runner \<Rightarrow> http_reply" where
  "get_run rid reads r =
     (case runner_state rid reads r of
        (_, Some e) \<Rightarrow> http_fail e
      | (s, None) \<Rightarrow> \<lparr>hr_status = 200, hr_location = [], hr_body = StateBody s\<rparr>)"

definition delete_run :: "string \<Rightarrow> time \<Rightarrow> err option \<Rightarrow> err option \<Rightarrow> runner \<Rightarrow> runner \<times> http_reply" where
  "delete_run rid now reads answer r =
     (case runner_cancel rid now reads answer r of
        (r, Some e) \<Rightarrow> (r, http_fail e)
      | (r, None) \<Rightarrow> (r, \<lparr>hr_status = 202, hr_location = [], hr_body = EmptyBody\<rparr>))"

text \<open>
  Follow's error: \<open>wait\<close> is that of Wait, \<open>shut\<close> that of the Shutdown an ended context began, if it
  did, and \<open>ctx\<close> that of the context.
\<close>

definition follow_error :: "string \<Rightarrow> err option \<Rightarrow> err option option \<Rightarrow> err option \<Rightarrow> err option" where
  "follow_error rid wait shut ctx =
     (let e = (case shut of None \<Rightarrow> wait | Some s \<Rightarrow> errors_join [wait, s, ctx]) in
      case e of
        None \<Rightarrow> None
      | Some er \<Rightarrow>
          if err_is er ErrShutdown
          then errors_join [ctx, Some (Msg (''run '' @ rid @ '' stopped unfinished''))]
          else Some er)"

section \<open>What a reply tells\<close>



text \<open>The error a log's fold stops on is none of those a reply has its own status for.\<close>

lemmas run_sentinels = ErrUnknownRun_def ErrRunEnded_def ErrRunActive_def ErrShutdown_def ErrSequence_def ErrInvalid_def ErrLog_def
  ErrCancelled_def

lemma log_fail_status [simp]: "fail_status (log_fail e s) = 500"
  by (simp add: fail_status_def log_fail_def run_sentinels)

lemma apply_error_status: "apply_event s e = Inl er \<Longrightarrow> fail_status er = 500"
  by (auto simp: apply_event_def apply_start_def apply_kind_def Let_def split: if_splits option.splits kind.splits)

lemma fold_from_status: "fold_from s es = (s', Some er) \<Longrightarrow> fail_status er = 500"
  by (induction es arbitrary: s) (auto dest: apply_error_status split: sum.splits)

lemma for_run_status [simp]:
  "fail_status (for_run ErrUnknownRun rid) = 404" "fail_status (for_run ErrRunEnded rid) = 409"
  "fail_status (for_run ErrRunActive rid) = 409"
  by (simp_all add: fail_status_def for_run_def run_sentinels)

lemmas delete_defs = delete_run_def runner_cancel_def runner_fold_def store_log_def http_fail_def

text \<open>
  A DELETE of a run that no runner is running, with a Store that answers, has the status of what its
  log holds.
\<close>

theorem delete_status:
  assumes "rr_runs r rid = None"
  shows "hr_status (snd (delete_run rid now None None r)) =
     (if rr_logs r rid = [] then 404
      else case fold_events (rr_logs r rid) of
        (s, Some e) \<Rightarrow> 500
      | (s, None) \<Rightarrow> if status_ended (ws_status s) then 409 else 202)"
  using assms by (auto simp: delete_defs fold_events_def dest: fold_from_status split: prod.splits option.splits)

text \<open>The event Cancel appends to a log that has not ended ends it.\<close>

lemma cancel_folds:
  assumes "fold_events es = (s, None)" "es \<noteq> []" "\<not> status_ended (ws_status s)" "we_run_id (hd es) = rid"
  shows "\<exists>s'. fold_events (es @ [(ended_event StatusCancelled [])
             \<lparr>we_run_id := rid, we_seq := ws_seq s + 1, we_time := now\<rparr>]) = (s', None)
           \<and> ws_status s' = StatusCancelled"
proof -
  have "ws_seq s \<noteq> 0" "ws_run_id s = rid" using fold_events_ok[OF assms(1)] assms(2,4) by (simp_all add: fold_ok_def)
  then show ?thesis
    using assms by (simp add: fold_events_snoc apply_event_def apply_kind_def logged_def ended_event_def wevent_of_def status_ended_def)
qed

text \<open>
  C25: a DELETE answered 202 has its effect: the run its runner is running is cancelled, so that its
  loop ends it, or the log of a run no runner is running has ended as cancelled.
\<close>

theorem delete_accepted:
  assumes "delete_run rid now reads answer r = (r', reply)" "hr_status reply = 202"
    and "\<forall>e \<in> set (rr_logs r rid). we_run_id e = rid"
  shows "case rr_runs r rid of
       Some rn \<Rightarrow> (\<exists>rn' c. rr_runs r' rid = Some rn' \<and> rn_cause rn' = Some c \<and> err_is c ErrCancelled)
     | None \<Rightarrow> (\<exists>s. runner_state rid None r' = (s, None) \<and> ws_status s = StatusCancelled)"
proof (cases "rr_runs r rid")
  case (Some rn)
  then show ?thesis using assms(1,2)
    by (auto simp: delete_defs Let_def runner_put_def fail_status_def interrupted_def run_cancel_def
        split: if_splits option.splits)
next
  case None
  have no: "fail_status e \<noteq> 202" for e by (simp add: fail_status_def)
  then have "snd (runner_cancel rid now reads answer r) = None" and r': "r' = fst (runner_cancel rid now reads answer r)"
    using assms(1,2) by (auto simp: delete_run_def http_fail_def split: prod.splits option.splits)
  moreover obtain s where s: "fold_events (rr_logs r rid) = (s, None)" "rr_logs r rid \<noteq> []" "\<not> status_ended (ws_status s)"
    using calculation(1) None by (auto simp: runner_cancel_def runner_fold_def store_log_def split: if_splits option.splits prod.splits)
  ultimately have r': "r' = r\<lparr>rr_logs := (rr_logs r)(rid := rr_logs r rid @ [(ended_event StatusCancelled [])
                    \<lparr>we_run_id := rid, we_seq := ws_seq s + 1, we_time := now\<rparr>])\<rparr>"
    using None by (simp add: runner_cancel_def runner_fold_def store_log_def split: option.splits)
  have "we_run_id (hd (rr_logs r rid)) = rid" using assms(3) s(2) by simp
  from cancel_folds[OF s this] show ?thesis
    using None s(2) by (auto simp: r' runner_state_def runner_fold_def store_log_def)
qed

lemma delete_accepted_witness:
  "\<exists>s. runner_state ''r'' None (fst (delete_run ''r'' 9 None None (new_runner (\<lambda>rid. if rid = ''r'' then take 1 demo_log else []) 0))) = (s, None)
     \<and> ws_status s = StatusCancelled"
proof -
  let ?r = "new_runner (\<lambda>rid. if rid = ''r'' then take 1 demo_log else []) 0"
  have log: "rr_logs ?r ''r'' = take 1 demo_log" "rr_runs ?r ''r'' = None" by (simp_all add: new_runner_def)
  have "snd (fold_events (take 1 demo_log)) = None" "\<not> status_ended (ws_status (fst (fold_events (take 1 demo_log))))"
    "take 1 demo_log \<noteq> []" by code_simp+
  then have "hr_status (snd (delete_run ''r'' 9 None None ?r)) = 202"
    by (auto simp: delete_defs log split: prod.splits)
  moreover have "\<forall>e \<in> set (rr_logs ?r ''r''). we_run_id e = ''r''" by (simp add: log demo_log_def)
  ultimately show ?thesis
    using delete_accepted[of "''r''" 9 None None ?r "fst (delete_run ''r'' 9 None None ?r)" "snd (delete_run ''r'' 9 None None ?r)"] log(2)
    by simp
qed

text \<open>A POST answered 201 names a run that its runner runs, with the workflow the body decodes to.\<close>

lemma post_created:
  assumes "post_runs parse dec rid now answer r = (r', reply)" "hr_status reply = 201"
  shows "\<exists>w rn. dec = Inr w \<and> wf_validate parse w = None \<and> rr_runs r' rid = Some rn
     \<and> hr_location reply = ''/runs/'' @ rid \<and> hr_body reply = CreatedBody rid"
proof -
  have "fail_status e \<noteq> 201" for e by (simp add: fail_status_def)
  then show ?thesis using assms
    by (auto simp: post_runs_def wf_load_def runner_start_def log_or_drop_def register_def runner_put_def http_fail_def
        split: if_splits option.splits sum.splits prod.splits)
qed

text \<open>The lines of GET /runs' errors join to the error's text.\<close>

lemma error_lines_not_Nil [simp]: "error_lines s \<noteq> []"
  by (induction s) (auto split: list.splits)

lemma error_lines_join: "join [CHR 0x0A] (error_lines s) = s"
proof (induction s)
  case (Cons c s)
  obtain l ls where "error_lines s = l # ls" by (cases "error_lines s") auto
  then show ?case using Cons by (cases ls) auto
qed simp

end
