(* ===== verification/Conform.thy ===== *)
theory Conform
  imports Clutch_Service Catalog
begin

text \<open>
  clutch's conformance suite (clutch/conform), its printing of events (clutch/output) and the running
  of a scenario (clutch/scenario/scenario.go). \<open>lower\<close> is strings.ToLower. A check takes what the
  sessions it opens and the exchanges it runs answer. The lemmas show what the comparisons accept,
  and which harness a cell runs its capabilities on.
\<close>

section \<open>Comparisons\<close>

definition decode_structured :: "(members \<Rightarrow> 'a option) \<Rightarrow> string \<Rightarrow> err + 'a" where
  "decode_structured out s =
     (if s = [] then Inl (Msg ''the exchange ended without a structured response'')
      else case unmarshal_struct s \<bind> out of
        None \<Rightarrow> Inl (wrap (''decode the structured response '' @ s) json_err)
      | Some v \<Rightarrow> Inr v)"

definition fold_text :: "(string \<Rightarrow> string) \<Rightarrow> string \<Rightarrow> string" where
  "fold_text lower s = join '' '' (Prelude.fields (lower s))"

definition same_value :: "(string \<Rightarrow> string) \<Rightarrow> string \<Rightarrow> string \<Rightarrow> string \<Rightarrow> err option" where
  "same_value lower what got want =
     (if fold_text lower got \<noteq> fold_text lower want
      then Some (Msg (what @ '' is '' @ quote got @ '', want '' @ quote want)) else None)"

text \<open>\<open>words\<close> is scenario.Normalize's split of a lowercased text at what is no letter or digit.\<close>

definition normalize :: "(string \<Rightarrow> string) \<Rightarrow> (string \<Rightarrow> string list) \<Rightarrow> string \<Rightarrow> string" where
  "normalize lower words s = join '' '' (words (lower s))"

definition same_motto :: "(string \<Rightarrow> string) \<Rightarrow> (string \<Rightarrow> string list) \<Rightarrow> string \<Rightarrow> string \<Rightarrow> err option" where
  "same_motto lower words got want =
     (if normalize lower words got \<noteq> normalize lower words want
      then Some (Msg (''the motto is '' @ quote got @ '', want '' @ quote want)) else None)"

definition check_capital :: "(string \<Rightarrow> string) \<Rightarrow> string \<Rightarrow> string \<Rightarrow> err option" where
  "check_capital lower city country =
     errors_join [same_value lower ''the city'' city ''Paris'', same_value lower ''the country'' country ''France'']"

definition primary_colors :: "string list" where
  "primary_colors = [''blue'', ''red'', ''yellow'']"

definition quote_list :: "string list \<Rightarrow> string" where
  "quote_list ss = ''['' @ join '' '' (map quote ss) @ '']''"

definition sorted_set :: "string list \<Rightarrow> string list" where
  "sorted_set ss = remdups_adj (sort ss)"

definition check_colors :: "(string \<Rightarrow> string) \<Rightarrow> int \<Rightarrow> string list \<Rightarrow> err option" where
  "check_colors lower n colors =
     errors_join
       [if n \<noteq> int (length primary_colors)
        then Some (Msg (''count is '' @ int_text n @ '', want '' @ nat_text (length primary_colors))) else None,
        if sorted_set (map (fold_text lower) colors) \<noteq> primary_colors
        then Some (Msg (''the colors are '' @ quote_list colors @ '', want '' @ quote_list primary_colors @ '' as a set''))
        else None]"

definition fixture_shapes :: "string list" where
  "fixture_shapes = [''circle red'', ''square blue'', ''triangle green'']"

definition shape_key :: "(string \<Rightarrow> string) \<Rightarrow> string \<times> string \<Rightarrow> string" where
  "shape_key lower s =
     (let shape = trim_suffix (fold_text lower (fst s)) ''s'';
          shape = (if shape = ''rectangle'' then ''square'' else shape) in
      shape @ '' '' @ fold_text lower (snd s))"

definition check_shapes :: "(string \<Rightarrow> string) \<Rightarrow> (string \<times> string) list \<Rightarrow> err option" where
  "check_shapes lower got =
     (let keys = sorted_set (map (shape_key lower) got); want = sort fixture_shapes in
      if keys = want then None
      else Some (Msg (''the shapes differ from the fixture'' @ [CHR 0x27] @ ''s: missing [''
             @ join ''; '' (filter (\<lambda>w. w \<notin> set keys) want) @ ''], extra [''
             @ join ''; '' (filter (\<lambda>k. k \<notin> set want) keys) @ '']'')))"

definition tool_ran :: "event list \<Rightarrow> string \<Rightarrow> err option" where
  "tool_ran evs name =
     (let ours = filter (\<lambda>ev. case ev_tool ev of None \<Rightarrow> False | Some t \<Rightarrow> te_name t = name) evs in
      if \<not> list_ex (\<lambda>ev. ev_kind ev = EventToolCall) ours
      then Some (Msg (''the model never called the '' @ name @ '' tool''))
      else if \<not> list_ex (\<lambda>ev. ev_kind ev = EventToolResult) ours
      then Some (Msg (''the '' @ name @ '' tool was called but no result came back''))
      else None)"

section \<open>Cutting text\<close>

definition rune_start :: "char \<Rightarrow> bool" where
  "rune_start c \<longleftrightarrow> of_char c < (128 :: nat) \<or> 192 \<le> (of_char c :: nat)"

fun rune_back :: "string \<Rightarrow> nat \<Rightarrow> nat" where
  "rune_back s 0 = 0"
| "rune_back s (Suc n) = (if rune_start (s ! Suc n) then Suc n else rune_back s n)"

definition ellipsis :: string where
  "ellipsis = [CHR 0xE2, CHR 0x80, CHR 0xA6]"

definition cut_text :: "string \<Rightarrow> nat \<Rightarrow> string" where
  "cut_text s n = (if length s \<le> n then s else take (rune_back s n) s @ ellipsis)"

definition truncate_text :: "string \<Rightarrow> nat \<Rightarrow> string" where
  "truncate_text s n = cut_text (join '' '' (Prelude.fields s)) n"

definition short_id :: "string \<Rightarrow> string" where
  "short_id s = (if length s \<le> 8 then s else drop (length s - 8) s)"

definition single_line :: "string \<Rightarrow> string" where
  "single_line s = join '' '' (Prelude.fields s)"

lemma rune_back_le: "rune_back s n \<le> n"
  by (induction s n rule: rune_back.induct) auto

lemma rune_back_start: "rune_back s n = 0 \<or> rune_start (s ! rune_back s n)"
  by (induction s n rule: rune_back.induct) auto

text \<open>
  A cut keeps a prefix within the bound that ends on a whole character: the first byte dropped starts
  one, unless nothing is kept.
\<close>

lemma cut_text_prefix:
  "\<exists>k. k \<le> n \<and> cut_text s n = (if length s \<le> n then s else take k s @ ellipsis) \<and> (rune_start (s ! k) \<or> k = 0)"
  using rune_back_le[of s n] rune_back_start[of s n] by (intro exI[of _ "rune_back s n"]) (auto simp: cut_text_def)

section \<open>The lines clutch prints\<close>

definition compact_or_raw :: "string \<Rightarrow> string" where
  "compact_or_raw s = (case json_compact s of None \<Rightarrow> s | Some t \<Rightarrow> t)"

definition harness_detail :: nat where
  "harness_detail = 80"

text \<open>\<open>percent\<close> formats a utilization above zero, \<open>clock\<close> an instant in the local zone.\<close>

definition limit_detail :: "(string \<Rightarrow> string option) \<Rightarrow> (time \<Rightarrow> string) \<Rightarrow> limit_status \<Rightarrow> string" where
  "limit_detail percent clock l =
     join '' '' ([''status='' @ ls_status l]
       @ (if ls_kind l \<noteq> [] then [ls_kind l] else [])
       @ (case percent (ls_utilization l) of None \<Rightarrow> [] | Some p \<Rightarrow> [p])
       @ (if \<not> is_zero (ls_resets_at l) then [''resets '' @ clock (ls_resets_at l)] else []))"

definition tool_detail :: "event_kind \<Rightarrow> tool_event \<Rightarrow> string" where
  "tool_detail k t =
     (case (if k = EventToolResult then (te_result t, if te_is_error t then '' failed: '' else '' = '')
            else (te_args t, '' '')) of
        (payload, sep) \<Rightarrow>
          if payload = [] then te_name t else te_name t @ sep @ cut_text (compact_or_raw payload) harness_detail)"

definition event_detail :: "(string \<Rightarrow> string option) \<Rightarrow> (time \<Rightarrow> string) \<Rightarrow> event \<Rightarrow> string" where
  "event_detail percent clock ev =
     (if ev_kind ev = EventHarness then cut_text (ev_raw ev) harness_detail
      else if ev_kind ev \<in> {EventMessageEnd, EventEnded, EventCancelled} then ''stop='' @ ev_stop_reason ev
      else if ev_kind ev = EventStructured then cut_text (compact_or_raw (ev_structured ev)) harness_detail
      else if ev_kind ev = EventLimit \<and> ev_limit ev \<noteq> None then limit_detail percent clock (the (ev_limit ev))
      else case ev_err ev of
        Some e \<Rightarrow> err_text e
      | None \<Rightarrow> (case ev_tool ev of Some t \<Rightarrow> tool_detail (ev_kind ev) t | None \<Rightarrow> ev_text ev))"

definition pad_left :: "nat \<Rightarrow> string \<Rightarrow> string" where
  "pad_left n s = replicate (n - length s) (CHR '' '') @ s"

definition pad_right :: "nat \<Rightarrow> string \<Rightarrow> string" where
  "pad_right n s = s @ replicate (n - length s) (CHR '' '')"

definition printed_line :: "(string \<Rightarrow> string option) \<Rightarrow> (time \<Rightarrow> string) \<Rightarrow> event \<Rightarrow> string" where
  "printed_line percent clock ev =
     short_id (ev_session_id ev) @ '' '' @ short_id (uuid_text (ev_exchange_id ev)) @ '' ''
       @ pad_left 4 (nat_text (ev_seq ev)) @ '' '' @ pad_right 14 (event_kind_text (ev_kind ev)) @ '' ''
       @ quote (event_detail percent clock ev)"

text \<open>Event: \<open>every\<close> is whether events with no normalized meaning are printed.\<close>

definition print_event :: "(string \<Rightarrow> string option) \<Rightarrow> (time \<Rightarrow> string) \<Rightarrow> bool \<Rightarrow> event \<Rightarrow> string option" where
  "print_event percent clock every ev =
     (if ev_kind ev = EventHarness \<and> \<not> every then None else Some (printed_line percent clock ev))"

definition result_lines :: "result \<Rightarrow> err option \<Rightarrow> string list" where
  "result_lines res e =
     (let u = rs_usage res in
      [''result: stop='' @ rs_stop_reason res @ '' usage='' @ int_text (us_input u) @ ''/'' @ int_text (us_output u)
         @ '' cache='' @ int_text (us_cache_read u) @ ''/'' @ int_text (us_cache_write u)
         @ '' err='' @ (case e of None \<Rightarrow> ''<nil>'' | Some e \<Rightarrow> err_text e),
       ''  text: '' @ quote (rs_text res)]
      @ (if rs_structured res \<noteq> [] then [''  structured: '' @ compact_or_raw (rs_structured res)] else []))"

section \<open>Scenarios\<close>

text \<open>
  Run: the needs' checks, what building the steps gives, with the cleanup's answer if there is one,
  and each step's intent with the context's error before it and its action's answer. The result is
  the intents narrated and the error.
\<close>

fun run_steps :: "nat \<Rightarrow> string \<Rightarrow> (string \<times> err option \<times> err option) list \<Rightarrow> string list \<times> err option" where
  "run_steps i name [] = ([], None)"
| "run_steps i name ((intent, ctx, action) # steps) =
     (case ctx of
        Some e \<Rightarrow> ([], Some e)
      | None \<Rightarrow>
          (case action of
             Some e \<Rightarrow> ([intent], Some (wrap (name @ '': step '' @ nat_text (Suc i)) e))
           | None \<Rightarrow> (case run_steps (Suc i) name steps of (is, e) \<Rightarrow> (intent # is, e))))"

definition run_scenario ::
  "string \<Rightarrow> (string \<times> err option) list \<Rightarrow> (string \<times> err option \<times> err option) list \<Rightarrow> err option option
    \<Rightarrow> string list \<times> err option" where
  "run_scenario name needs steps cleanup =
     (case find (\<lambda>n. snd n \<noteq> None) needs of
        Some (what, Some e) \<Rightarrow> ([], Some (wrap (name @ '': need '' @ what) e))
      | _ \<Rightarrow>
          (case run_steps 0 name steps of
             (is, e) \<Rightarrow>
               (is, case cleanup of
                      Some (Some c) \<Rightarrow> errors_join [e, Some (wrap (name @ '': cleanup'') c)]
                    | _ \<Rightarrow> e)))"


section \<open>The checks of a capability\<close>

text \<open>A check's answer: a reason it passed, that it does not apply, or an error.\<close>

datatype check_answer =
    Passed string
  | NotApplicable string
  | Broke err

datatype cell_status = CellPass | CellFail | CellNA | CellSkip

fun cell_status_text :: "cell_status \<Rightarrow> string" where
  "cell_status_text CellPass = ''pass''"
| "cell_status_text CellFail = ''FAIL''"
| "cell_status_text CellNA = ''n/a''"
| "cell_status_text CellSkip = ''skip''"

fun capability_execute :: "check_answer \<Rightarrow> cell_status \<times> string" where
  "capability_execute (Passed reason) = (CellPass, reason)"
| "capability_execute (NotApplicable why) = (CellNA, why)"
| "capability_execute (Broke e) = (CellFail, err_text e)"

definition capability_names :: "string list" where
  "capability_names =
     [''exchange'', ''cancel'', ''resume'', ''tool'', ''skill'', ''structured'', ''vision'', ''dropped-image'', ''audio-tool'']"

text \<open>
  open: the error of OpenWith if it fails, what \<open>fn\<close> answers on the session, and the error of its Close.
\<close>

definition env_open :: "err option \<Rightarrow> err + string \<Rightarrow> err option \<Rightarrow> err + string" where
  "env_open opn fn cls =
     (case opn of
        Some e \<Rightarrow> Inl (wrap ''open'' e)
      | None \<Rightarrow>
          (case fn of
             Inl e \<Rightarrow> Inl e
           | Inr reason \<Rightarrow> (case cls of Some e \<Rightarrow> Inl (wrap ''close'' e) | None \<Rightarrow> Inr reason)))"

definition answer_of :: "err + string \<Rightarrow> check_answer" where
  "answer_of r = (case r of Inl e \<Rightarrow> Broke e | Inr reason \<Rightarrow> Passed reason)"

definition exchange_ended :: "service_outcome \<Rightarrow> err option" where
  "exchange_ended out =
     (let stop = rs_stop_reason (sv_result out) in
      case sv_err out of
        Some e \<Rightarrow> Some (wrap ''the exchange ended in error'' e)
      | None \<Rightarrow>
          if stop = ''aborted'' \<or> stop = ''error'' then Some (Msg (''the exchange stopped with '' @ quote stop))
          else None)"

definition env_ask :: "err + service_outcome \<Rightarrow> err + service_outcome" where
  "env_ask sent =
     (case sent of
        Inl e \<Rightarrow> Inl e
      | Inr out \<Rightarrow> (case exchange_ended out of Some e \<Rightarrow> Inl e | None \<Rightarrow> Inr out))"

definition ask_for :: "(members \<Rightarrow> 'a option) \<Rightarrow> err + service_outcome \<Rightarrow> err + 'a" where
  "ask_for get sent =
     (case env_ask sent of Inl e \<Rightarrow> Inl e | Inr out \<Rightarrow> decode_structured get (rs_structured (sv_result out)))"

definition check_exchange :: "err option \<Rightarrow> err + service_outcome \<Rightarrow> err option \<Rightarrow> check_answer" where
  "check_exchange opn sent cls =
     answer_of (env_open opn
       (case env_ask sent of
          Inl e \<Rightarrow> Inl e
        | Inr out \<Rightarrow>
            (let text = rs_text (sv_result out) in
             if trim_space text = [] then Inl (Msg ''the exchange ended with no text'')
             else Inr (''ended with stop reason '' @ quote (rs_stop_reason (sv_result out)) @ '' and ''
               @ nat_text (length text) @ '' characters of text''))) cls)"

definition check_cancel ::
  "err option \<Rightarrow> err + service_outcome \<Rightarrow> err + service_outcome \<Rightarrow> err option \<Rightarrow> check_answer" where
  "check_cancel opn sent follow cls =
     answer_of (env_open opn
       (case sent of
          Inl e \<Rightarrow> Inl e
        | Inr out \<Rightarrow>
            (let stop = rs_stop_reason (sv_result out) in
             if stop \<noteq> ''aborted''
             then Inl (Msg (''cancelled after 5 text deltas, the exchange stopped with '' @ quote stop @ '', want '' @ quote ''aborted''))
             else case env_ask follow of
               Inl e \<Rightarrow> Inl (wrap ''the exchange after the cancellation'' e)
             | Inr f \<Rightarrow>
                 if trim_space (rs_text (sv_result f)) = []
                 then Inl (Msg ''the exchange after the cancellation ended with no text'')
                 else Inr (''aborted after 5 text deltas; the next exchange on the session stopped with ''
                   @ quote (rs_stop_reason (sv_result f))))) cls)"

text \<open>
  The first session has the ID \<open>sid\<close> and is asked to remember \<open>word\<close>; the second is opened as \<open>sid\<close>,
  has the ID \<open>sid'\<close>, and is asked for the word.
\<close>

definition check_resume ::
  "(string \<Rightarrow> string) \<Rightarrow> string \<Rightarrow> string \<Rightarrow> err option \<Rightarrow> err + service_outcome \<Rightarrow> err option
    \<Rightarrow> err option \<Rightarrow> string \<Rightarrow> err + service_outcome \<Rightarrow> err option \<Rightarrow> check_answer" where
  "check_resume lower word sid opn sent cls opn' sid' sent' cls' =
     (case env_open opn (map_sum id (\<lambda>_. []) (env_ask sent)) cls of
        Inl e \<Rightarrow> Broke (wrap ''the first exchange'' e)
      | Inr _ \<Rightarrow>
          (let got = (if sid' \<noteq> sid then Inl (Msg (''resumed session '' @ sid' @ '', want '' @ sid))
                      else ask_for (str_field ''word'') sent') in
           case env_open opn' got cls' of
             Inl e \<Rightarrow> Broke (wrap (''after resuming session '' @ sid) e)
           | Inr w \<Rightarrow>
               (case same_value lower ''the code word'' w word of
                  Some e \<Rightarrow> Broke e
                | None \<Rightarrow> Passed (''session '' @ short_id sid @ '' resumed in a new process, and recalled '' @ quote word))))"

text \<open>What the tool and audio-tool checks share, with the events of the exchange and the calls the handler had.\<close>

definition tool_answer ::
  "(string \<Rightarrow> string) \<Rightarrow> string \<Rightarrow> string \<Rightarrow> err + service_outcome \<Rightarrow> event list \<Rightarrow> nat \<Rightarrow> string \<Rightarrow> err + string" where
  "tool_answer lower name want sent evs calls reason =
     (case ask_for (str_field ''code'') sent of
        Inl e \<Rightarrow> Inl e
      | Inr code \<Rightarrow>
          (case tool_ran evs name of
             Some e \<Rightarrow> Inl e
           | None \<Rightarrow>
               if calls = 0 then Inl (Msg (''the '' @ name @ '' handler never ran''))
               else (case same_value lower ''the access code'' code want of Some e \<Rightarrow> Inl e | None \<Rightarrow> Inr reason)))"

definition lookup_handler :: "string \<Rightarrow> string \<Rightarrow> err + string" where
  "lookup_handler want args =
     (case unmarshal_struct args \<bind> str_field ''name'' of
        None \<Rightarrow> Inl (Msg ''lookup_code: want a name'')
      | Some name \<Rightarrow> if trim_space name = [] then Inl (Msg ''lookup_code: want a name'') else Inr want)"

definition check_tool ::
  "(string \<Rightarrow> string) \<Rightarrow> string \<Rightarrow> err option \<Rightarrow> err + service_outcome \<Rightarrow> event list \<Rightarrow> nat \<Rightarrow> err option \<Rightarrow> check_answer" where
  "check_tool lower want opn sent evs calls cls =
     answer_of (env_open opn
       (tool_answer lower ''lookup_code'' want sent evs calls
         (''the lookup_code handler ran '' @ nat_text calls @ '' time(s), and the structured code was '' @ want)) cls)"

definition check_skill ::
  "(string \<Rightarrow> string) \<Rightarrow> (string \<Rightarrow> string list) \<Rightarrow> string \<Rightarrow> err + string \<Rightarrow> err option \<Rightarrow> err + service_outcome
    \<Rightarrow> err option \<Rightarrow> check_answer" where
  "check_skill lower words skill_tool motto opn sent cls =
     (case motto of
        Inl e \<Rightarrow> Broke e
      | Inr m \<Rightarrow>
          answer_of (env_open opn
            (case ask_for (str_field ''motto'') sent of
               Inl e \<Rightarrow> Inl e
             | Inr got \<Rightarrow>
                 (case same_motto lower words got m of
                    Some e \<Rightarrow> Inl e
                  | None \<Rightarrow> Inr (''the structured motto matched the skill'' @ [CHR 0x27] @ ''s, with only the '' @ skill_tool @ '' tool''))) cls))"

definition capital_of :: "members \<Rightarrow> (string \<times> string) option" where
  "capital_of ms = do { city \<leftarrow> str_field ''city'' ms; country \<leftarrow> str_field ''country'' ms; Some (city, country) }"

definition colors_of :: "members \<Rightarrow> (int \<times> string list) option" where
  "colors_of ms = do {
     n \<leftarrow> int_field ''count'' ms;
     es \<leftarrow> list_field ''colors'' ms;
     cs \<leftarrow> option_all (\<lambda>e. decode_str [e] []) es;
     Some (n, cs) }"

definition shapes_of :: "members \<Rightarrow> (string \<times> string) list option" where
  "shapes_of ms = do {
     es \<leftarrow> list_field ''shapes'' ms;
     option_all (\<lambda>e. do {
       m \<leftarrow> elem_struct e; shape \<leftarrow> str_field ''shape'' m; color \<leftarrow> str_field ''color'' m; Some (shape, color) }) es }"

definition check_structured ::
  "(string \<Rightarrow> string) \<Rightarrow> err option \<Rightarrow> err + service_outcome \<Rightarrow> err + service_outcome \<Rightarrow> err option \<Rightarrow> check_answer" where
  "check_structured lower opn capital colors cls =
     answer_of (env_open opn
       (case ask_for capital_of capital of
          Inl e \<Rightarrow> Inl (wrap ''the capital'' e)
        | Inr (city, country) \<Rightarrow>
            (case check_capital lower city country of
               Some e \<Rightarrow> Inl e
             | None \<Rightarrow>
                 (case ask_for colors_of colors of
                    Inl e \<Rightarrow> Inl (wrap ''the colors'' e)
                  | Inr (n, cs) \<Rightarrow>
                      (case check_colors lower n cs of
                         Some e \<Rightarrow> Inl e
                       | None \<Rightarrow> Inr ''two schemas on one session, both decoded with the expected values'')))) cls)"

definition check_vision ::
  "(string \<Rightarrow> string) \<Rightarrow> string \<Rightarrow> err option \<Rightarrow> err + service_outcome \<Rightarrow> err option \<Rightarrow> check_answer" where
  "check_vision lower vision opn sent cls =
     answer_of (env_open opn
       (case ask_for shapes_of sent of
          Inl e \<Rightarrow> Inl e
        | Inr got \<Rightarrow>
            (case check_shapes lower got of
               Some e \<Rightarrow> Inl e
             | None \<Rightarrow> Inr (nat_text (length got) @ '' shapes, each with its color, on '' @ vision))) cls)"

definition reply_cut :: nat where
  "reply_cut = 60"

definition check_dropped_image ::
  "string \<Rightarrow> bool \<Rightarrow> bool \<Rightarrow> err option \<Rightarrow> err + service_outcome \<Rightarrow> err option \<Rightarrow> check_answer" where
  "check_dropped_image name drops takes_images opn sent cls =
     (if \<not> drops then NotApplicable (name @ '' drops no image: every model it runs takes images'')
      else if takes_images
      then NotApplicable (''the provider'' @ [CHR 0x27] @ ''s default model takes images, so there is no text-only model to drop one'')
      else answer_of (env_open opn
        (case env_ask sent of
           Inl e \<Rightarrow> Inl e
         | Inr out \<Rightarrow>
             Inr (''the exchange ended without error; '' @ name @ '' replied ''
               @ quote (truncate_text (rs_text (sv_result out)) reply_cut))) cls))"

definition check_audio_tool ::
  "(string \<Rightarrow> string) \<Rightarrow> err + string \<Rightarrow> err option \<Rightarrow> err + service_outcome \<Rightarrow> event list \<Rightarrow> nat \<Rightarrow> err option \<Rightarrow> check_answer" where
  "check_audio_tool lower models opn sent evs calls cls =
     (case models of
        Inl e \<Rightarrow> NotApplicable (''no direct model client: '' @ err_text e)
      | Inr target \<Rightarrow>
          answer_of (env_open opn
            (tool_answer lower ''transcribe_recording'' ''7429'' sent evs calls
              (''transcribed through '' @ target @ '', and the structured code was 7429'')) cls))"

section \<open>The suite\<close>

record capability_result =
  kr_capability :: string
  kr_status :: cell_status
  kr_reason :: string

record latency =
  lt_open :: int
  lt_first_text :: int
  lt_turn :: int

record report =
  rt_harness :: string
  rt_provider :: string
  rt_version :: string
  rt_skipped :: string
  rt_results :: "capability_result list"
  rt_latency :: "latency option"

text \<open>A cell, with what its needs' checks and its Version answer.\<close>

record cell =
  ce_harness :: string
  ce_provider :: string
  ce_pinned :: string
  ce_version :: "err + string"
  ce_needs :: "(string \<times> err option) list"

definition matches_pin :: "string \<Rightarrow> string \<Rightarrow> bool" where
  "matches_pin line pinned \<longleftrightarrow> list_ex (\<lambda>w. trim_prefix w ''v'' = pinned) (Prelude.fields line)"

definition display_version :: "string \<Rightarrow> string" where
  "display_version line = (case Prelude.fields line of [] \<Rightarrow> ''unknown'' | w # ws \<Rightarrow> trim_prefix w ''v'')"

definition check_version :: "string \<Rightarrow> string \<Rightarrow> bool \<Rightarrow> err option" where
  "check_version line pinned any_version =
     (if any_version \<or> matches_pin line pinned then None
      else Some (Msg (''version '' @ display_version line @ '', pinned '' @ pinned @ ''; pass --any-version to run anyway'')))"

text \<open>runCapability: the check's answer and the error of its context, if it has run out of time.\<close>

definition run_capability :: "string \<Rightarrow> check_answer \<Rightarrow> err option \<Rightarrow> capability_result" where
  "run_capability name answer ctx =
     (case capability_execute answer of
        (st, reason) \<Rightarrow>
          \<lparr>kr_capability = name, kr_status = st,
           kr_reason = reason @ (case ctx of None \<Rightarrow> [] | Some e \<Rightarrow> if st = CellFail then '' ('' @ err_text e @ '')'' else [])\<rparr>)"

text \<open>runCell: \<open>run\<close> answers each capability's check, \<open>lat\<close> is what the exchange capability measured.\<close>

definition run_cell :: "bool \<Rightarrow> cell \<Rightarrow> (string \<Rightarrow> check_answer \<times> err option) \<Rightarrow> latency \<Rightarrow> report" where
  "run_cell any_version c run lat =
     (let rep = \<lparr>rt_harness = ce_harness c, rt_provider = ce_provider c, rt_version = ''-'', rt_skipped = [],
                 rt_results = [], rt_latency = None\<rparr>;
          go = (\<lambda>version. rep\<lparr>rt_version := version,
                 rt_results := map (\<lambda>name. run_capability name (fst (run name)) (snd (run name))) capability_names,
                 rt_latency := (if lt_turn lat > 0 then Some lat else None)\<rparr>) in
      case find (\<lambda>n. snd n \<noteq> None) (ce_needs c) of
        Some (what, Some e) \<Rightarrow> rep\<lparr>rt_skipped := ''need '' @ what @ '': '' @ err_text e\<rparr>
      | _ \<Rightarrow>
          (case ce_version c of
             Inl e \<Rightarrow>
               if \<not> any_version
               then rep\<lparr>rt_skipped := ''the version of '' @ ce_harness c @ '' isn'' @ [CHR 0x27] @ ''t known ('' @ err_text e
                      @ ''); pass --any-version to run anyway''\<rparr>
               else go ''unknown''
           | Inr line \<Rightarrow>
               (case check_version line (ce_pinned c) any_version of
                  Some e \<Rightarrow> rep\<lparr>rt_version := display_version line, rt_skipped := ce_harness c @ '': '' @ err_text e\<rparr>
                | None \<Rightarrow>
                    go (display_version line
                      @ (if matches_pin line (ce_pinned c) then [] else '' (pinned '' @ ce_pinned c @ '')'')))))"

definition report_label :: "report \<Rightarrow> string" where
  "report_label r = rt_harness r @ ''/'' @ rt_provider r"

definition report_failures :: "report \<Rightarrow> nat" where
  "report_failures r = length (filter (\<lambda>k. kr_status k = CellFail) (rt_results r))"

definition suite_failures :: "report list \<Rightarrow> nat" where
  "suite_failures rs = sum_list (map report_failures rs)"

definition ran_results :: "report list \<Rightarrow> capability_result list" where
  "ran_results rs = concat (map rt_results (filter (\<lambda>r. rt_skipped r = []) rs))"

definition suite_summary :: "report list \<Rightarrow> string" where
  "suite_summary rs =
     (let ran = filter (\<lambda>r. rt_skipped r = []) rs;
          n = (\<lambda>st. nat_text (length (filter (\<lambda>k. kr_status k = st) (ran_results rs)))) in
      nat_text (length ran) @ '' cells ran, '' @ nat_text (length rs - length ran) @ '' skipped; '' @ n CellPass @ '' pass, ''
        @ n CellFail @ '' FAIL, '' @ n CellNA @ '' n/a'')"

text \<open>Render: a row's columns, and the lines of the reasons.\<close>

definition matrix_header :: "string list" where
  "matrix_header = [''HARNESS'', ''PROVIDER'', ''VERSION''] @ capability_names"

definition matrix_row :: "report \<Rightarrow> string list" where
  "matrix_row r =
     [rt_harness r, rt_provider r, rt_version r]
     @ map (\<lambda>i. cell_status_text (if i < length (rt_results r) then kr_status (rt_results r ! i) else CellSkip))
         [0 ..< length capability_names]"

definition reason_lines :: "report \<Rightarrow> string list" where
  "reason_lines r =
     (if rt_skipped r \<noteq> [] then [''  '' @ report_label r @ ''  skip  '' @ single_line (rt_skipped r)] else [])
     @ map (\<lambda>k. ''  '' @ report_label r @ ''  '' @ cell_status_text (kr_status k) @ ''  '' @ kr_capability k @ '': ''
              @ single_line (kr_reason k))
         (filter (\<lambda>k. kr_status k \<noteq> CellPass) (rt_results r))"

text \<open>selectCells, over the table of the harnesses and their providers.\<close>

definition cell_matrix :: "(string \<times> string list) list \<Rightarrow> (string \<times> string) list" where
  "cell_matrix table = concat (map (\<lambda>(h, ps). map (Pair h) ps) table)"

definition lookup_harness :: "(string \<times> string list) list \<Rightarrow> string \<Rightarrow> err option" where
  "lookup_harness table name =
     (if name \<in> set (map fst table) then None
      else Some (Msg (''unknown harness '' @ quote name @ '' (known: '' @ join '', '' (map fst table) @ '')'')))"

definition select_cells ::
  "(string \<times> string list) list \<Rightarrow> string list \<Rightarrow> string list \<Rightarrow> err + (string \<times> string) list" where
  "select_cells table names providers =
     (let every = cell_matrix table; known = set (map snd every) in
      case find (\<lambda>n. lookup_harness table n \<noteq> None) names of
        Some n \<Rightarrow> Inl (wrap ''--harness'' (the (lookup_harness table n)))
      | None \<Rightarrow>
          (case find (\<lambda>p. p \<notin> known) providers of
             Some p \<Rightarrow>
               Inl (Msg (''--provider: unknown provider '' @ quote p @ '' (known: '' @ join '', '' (sort (remdups (map snd every))) @ '')''))
           | None \<Rightarrow>
               (let keys = filter (\<lambda>(h, p). (names = [] \<or> h \<in> set names) \<and> (providers = [] \<or> p \<in> set providers)) every in
                if keys = [] then Inl (Msg (''no cell runs --harness '' @ join '','' names @ '' over --provider '' @ join '','' providers))
                else Inr keys)))"

text \<open>firstLine of what --version prints.\<close>

definition first_line :: "string \<Rightarrow> err + string" where
  "first_line s =
     (case filter (\<lambda>l. l \<noteq> []) (map trim_space (error_lines s)) of
        [] \<Rightarrow> Inl (Msg ''--version printed nothing'')
      | l # ls \<Rightarrow> Inr l)"

section \<open>What the suite accepts\<close>

lemma distinct_adj_sorted: "sorted xs \<Longrightarrow> distinct (remdups_adj xs)"
  by (induction xs rule: remdups_adj.induct) (auto simp: order_less_le)

lemma sorted_set_simps: "sorted (sorted_set ss)" "distinct (sorted_set ss)" "set (sorted_set ss) = set ss"
  by (simp_all add: sorted_set_def sorted_remdups_adj distinct_adj_sorted)

lemma sorted_set_eq: "sorted want \<Longrightarrow> distinct want \<Longrightarrow> sorted_set ss = want \<longleftrightarrow> set ss = set want"
  using sorted_set_simps sorted_distinct_set_unique by metis

lemma primary_sorted: "sorted primary_colors" "distinct primary_colors"
  by code_simp+

lemma fixture_sorted: "sorted fixture_shapes" "distinct fixture_shapes"
  by code_simp+

text \<open>The colors are accepted in any order, any case and any spacing, repeated or not, and nothing else is.\<close>

theorem colors_accepted:
  "check_colors lower n colors = None \<longleftrightarrow>
     n = 3 \<and> fold_text lower ` set colors = {''blue'', ''red'', ''yellow''}"
  using sorted_set_eq[OF primary_sorted, of "map (fold_text lower) colors"]
  by (auto simp: check_colors_def errors_join_None primary_colors_def)

text \<open>The shapes are accepted exactly when each of the fixture's is named and nothing else is.\<close>

theorem shapes_accepted:
  "check_shapes lower got = None \<longleftrightarrow> shape_key lower ` set got = {''circle red'', ''square blue'', ''triangle green''}"
  using sorted_set_eq[OF fixture_sorted, of "map (shape_key lower) got"] sorted_sort_id[OF fixture_sorted(1)]
  by (auto simp: check_shapes_def Let_def fixture_shapes_def)

text \<open>The tool check passes only for a tool that was called, ran here and gave the code the model then named.\<close>

lemma tool_answer_passes:
  "tool_answer lower name want sent evs calls reason = Inr r \<Longrightarrow>
     calls \<noteq> 0 \<and> (\<exists>ev \<in> set evs. ev_kind ev = EventToolCall) \<and> (\<exists>ev \<in> set evs. ev_kind ev = EventToolResult)
     \<and> (\<exists>out code. sent = Inr out \<and> sv_err out = None \<and> unmarshal_struct (rs_structured (sv_result out)) \<bind> str_field ''code'' = Some code
          \<and> fold_text lower code = fold_text lower want)"
  by (auto simp: tool_answer_def ask_for_def env_ask_def exchange_ended_def decode_structured_def tool_ran_def same_value_def
      Let_def list_ex_iff split: sum.splits option.splits if_splits)

lemma run_capability_name [simp]: "kr_capability (run_capability name a ctx) = name"
  by (simp add: run_capability_def split: prod.splits)

text \<open>
  A cell either is skipped, with a reason and no results, or has a result for each capability in the
  matrix's order; without --any-version it runs only a harness whose version has the pinned one as a
  word, and only when every need is met.
\<close>

theorem cell_runs_pinned:
  assumes "rep = run_cell any_version c run lat"
  shows "if rt_skipped rep \<noteq> [] then rt_results rep = []
     else map kr_capability (rt_results rep) = capability_names
       \<and> (\<forall>n \<in> set (ce_needs c). snd n = None)
       \<and> (any_version \<or> (\<exists>line. ce_version c = Inr line \<and> matches_pin line (ce_pinned c)))"
proof (cases "find (\<lambda>n. snd n \<noteq> None) (ce_needs c)")
  case None
  then have "\<forall>n \<in> set (ce_needs c). snd n = None" by (auto simp: find_None_iff)
  then show ?thesis using assms None
    by (cases "ce_version c") (auto simp: run_cell_def Let_def check_version_def o_def)
next
  case (Some n)
  then obtain what e where "n = (what, Some e)" by (cases n) (auto simp: find_Some_iff, metis not_None_eq snd_conv)
  then show ?thesis using assms Some by (simp add: run_cell_def Let_def)
qed

text \<open>The suite fails exactly when a capability of some cell did, whatever was skipped.\<close>

lemma suite_fails_iff: "suite_failures rs = 0 \<longleftrightarrow> (\<forall>r \<in> set rs. \<forall>k \<in> set (rt_results r). kr_status k \<noteq> CellFail)"
  by (auto simp: suite_failures_def report_failures_def filter_empty_conv)

text \<open>Every selected cell is one of the table's, of a named harness and provider where any are named.\<close>

lemma cell_matrix_set: "set (cell_matrix table) = {(h, p). \<exists>ps. (h, ps) \<in> set table \<and> p \<in> set ps}"
  by (induction table) (auto simp: cell_matrix_def)

lemma select_cells_ok:
  "select_cells table names providers = Inr keys \<Longrightarrow>
     keys \<noteq> [] \<and> set keys = {(h, p). (\<exists>ps. (h, ps) \<in> set table \<and> p \<in> set ps)
       \<and> (names = [] \<or> h \<in> set names) \<and> (providers = [] \<or> p \<in> set providers)}"
  by (auto simp: select_cells_def cell_matrix_set Let_def split: option.splits if_splits)

end
