(* ===== verification/Clutch_Config.thy ===== *)
theory Clutch_Config
  imports Conform Model_Client
begin

text \<open>
  What clutch makes of its flags (clutch/internal/app): the harnesses and targets it knows, what
  Validate accepts, the drivers, options, needs and direct clients of a configuration, and the cached
  token of the Azure CLI. \<open>env\<close> is os.Getenv, \<open>look\<close> exec.LookPath's error, \<open>path\<close> filepath.Join. The
  lemmas show that the names a configuration offers are distinct, that a validated one gives Pi no
  key command a shell could read otherwise, and when a token is fetched.
\<close>

section \<open>Harnesses and targets\<close>

record profile =
  pf_name :: string
  pf_skill_tool :: string
  pf_skill_prefix :: string
  pf_drops_image :: bool
  pf_dropped_image :: string

definition profile_pi :: profile where
  "profile_pi =
     \<lparr>pf_name = ''Pi'', pf_skill_tool = ''read'', pf_skill_prefix = ''/skill:'', pf_drops_image = True,
      pf_dropped_image = ''(image omitted: model does not support images)''\<rparr>"

definition profile_claude :: profile where
  "profile_claude =
     \<lparr>pf_name = ''Claude Code'', pf_skill_tool = ''Skill'', pf_skill_prefix = ''/driver:'', pf_drops_image = False,
      pf_dropped_image = []\<rparr>"

definition profile_opencode :: profile where
  "profile_opencode =
     \<lparr>pf_name = ''OpenCode'', pf_skill_tool = ''skill'', pf_skill_prefix = ''/'', pf_drops_image = True,
      pf_dropped_image = ''ERROR: Cannot read image (this model does not support image input). Inform the user.''\<rparr>"

definition provider_azure :: string where
  "provider_azure = ''azure''"

definition azure_model :: string where
  "azure_model = ''gpt-5-mini''"

definition router_vision :: string where
  "router_vision = ''ggml-org/gemma-4-26B-A4B-it-GGUF:Q4_0''"

record harness_spec =
  hs_name :: string
  hs_command :: string
  hs_pinned :: string
  hs_provider :: string
  hs_model :: string
  hs_vision :: string
  hs_providers :: "string list"
  hs_profile :: profile

definition harness_specs :: "harness_spec list" where
  "harness_specs =
     [\<lparr>hs_name = ''pi'', hs_command = ''pi'', hs_pinned = ''0.99.2'', hs_provider = llama_provider,
       hs_model = ''ggml-org/gpt-oss-120b-GGUF:MXFP4'', hs_vision = router_vision,
       hs_providers = [llama_provider, provider_azure], hs_profile = profile_pi\<rparr>,
      \<lparr>hs_name = ''claude'', hs_command = ''claude'', hs_pinned = ''2.1.287'', hs_provider = claude_provider,
       hs_model = ''haiku'', hs_vision = ''haiku'', hs_providers = [claude_provider], hs_profile = profile_claude\<rparr>,
      \<lparr>hs_name = ''opencode'', hs_command = ''opencode'', hs_pinned = ''1.18.34'', hs_provider = llama_provider,
       hs_model = ''ggml-org/gpt-oss-120b-GGUF:MXFP4'', hs_vision = router_vision,
       hs_providers = [llama_provider, provider_azure], hs_profile = profile_opencode\<rparr>]"

definition unknown_name :: "string \<Rightarrow> string \<Rightarrow> string list \<Rightarrow> err" where
  "unknown_name what name known = Msg (''unknown '' @ what @ '' '' @ quote name @ '' (known: '' @ join '', '' known @ '')'')"

definition find_harness :: "string \<Rightarrow> err + harness_spec" where
  "find_harness name =
     (case find (\<lambda>h. hs_name h = name) harness_specs of
        Some h \<Rightarrow> Inr h
      | None \<Rightarrow> Inl (unknown_name ''harness'' name (map hs_name harness_specs)))"

record target =
  tg_name :: string
  tg_vision :: string
  tg_embed :: string
  tg_audio :: string
  tg_audio_in_chat :: bool

definition model_targets :: "target list" where
  "model_targets =
     [\<lparr>tg_name = llama_provider, tg_vision = router_vision, tg_embed = ''ggml-org/embeddinggemma-2-GGUF:Q8_0'',
       tg_audio = ''ggml-org/gemma-4-E4B-it-GGUF:Q8_0'', tg_audio_in_chat = True\<rparr>,
      \<lparr>tg_name = provider_azure, tg_vision = ''gpt-5-mini'', tg_embed = ''text-embedding-3-small'',
       tg_audio = ''gpt-4o-mini-transcribe'', tg_audio_in_chat = False\<rparr>]"

definition find_target :: "string \<Rightarrow> err + target" where
  "find_target name =
     (case find (\<lambda>t. tg_name t = name) model_targets of
        Some t \<Rightarrow> Inr t
      | None \<Rightarrow> Inl (unknown_name ''target'' name (map tg_name model_targets)))"

section \<open>Configuration\<close>

record config =
  cg_harness :: string
  cg_provider :: string
  cg_model :: string
  cg_state :: string
  cg_skills :: "string list"
  cg_tools :: "string list"
  cg_target :: string
  cg_vision_model :: string
  cg_embed_model :: string
  cg_audio_model :: string
  cg_harness_vision :: string
  cg_azure_scope :: string

text \<open>spec: an unknown harness has the zero spec, whose defaults are empty.\<close>

definition no_spec :: harness_spec where
  "no_spec =
     \<lparr>hs_name = [], hs_command = [], hs_pinned = [], hs_provider = [], hs_model = [], hs_vision = [], hs_providers = [],
      hs_profile = \<lparr>pf_name = [], pf_skill_tool = [], pf_skill_prefix = [], pf_drops_image = False, pf_dropped_image = []\<rparr>\<rparr>"

definition cfg_spec :: "config \<Rightarrow> harness_spec" where
  "cfg_spec cfg = (case find_harness (cg_harness cfg) of Inl e \<Rightarrow> no_spec | Inr h \<Rightarrow> h)"

definition cfg_provider :: "config \<Rightarrow> string" where
  "cfg_provider cfg = or_else (cg_provider cfg) (hs_provider (cfg_spec cfg))"

definition default_model :: "config \<Rightarrow> string" where
  "default_model cfg = (if cfg_provider cfg = provider_azure then azure_model else hs_model (cfg_spec cfg))"

definition default_vision :: "config \<Rightarrow> string" where
  "default_vision cfg = (if cfg_provider cfg = provider_azure then azure_model else hs_vision (cfg_spec cfg))"

definition harness_vision :: "config \<Rightarrow> string" where
  "harness_vision cfg = or_else (cg_harness_vision cfg) (default_vision cfg)"

definition default_takes_images :: "config \<Rightarrow> bool" where
  "default_takes_images cfg \<longleftrightarrow> cfg_provider cfg = provider_azure"

definition cfg_model :: "config \<Rightarrow> string" where
  "cfg_model cfg = or_else (cg_model cfg) (default_model cfg)"

definition cfg_options ::
  "(string \<Rightarrow> err + exchange_record list) \<Rightarrow> config \<Rightarrow> tool list \<Rightarrow> skill list \<Rightarrow> options" where
  "cfg_options store cfg tools skills =
     \<lparr>opt_session_id = [], opt_store = Some store, opt_provider = cfg_provider cfg, opt_model = cfg_model cfg,
      opt_dir = [], opt_tools = tools, opt_skills = skills, opt_harness_tools = None\<rparr>"

text \<open>The configuration newCell gives a cell of the conformance matrix.\<close>

definition cell_config :: "config \<Rightarrow> string \<times> string \<Rightarrow> config" where
  "cell_config base k =
     base\<lparr>cg_harness := fst k, cg_provider := snd k, cg_model := [], cg_harness_vision := [], cg_skills := [], cg_tools := []\<rparr>"

section \<open>Validate\<close>

text \<open>\<open>skills_in\<close> and \<open>tools_in\<close> are the loading of a directory of skills and of tools by the package catalog.\<close>

definition scope_char :: "char \<Rightarrow> bool" where
  "scope_char c \<longleftrightarrow>
     (CHR ''A'' \<le> c \<and> c \<le> CHR ''Z'') \<or> (CHR ''a'' \<le> c \<and> c \<le> CHR ''z'') \<or> (CHR ''0'' \<le> c \<and> c \<le> CHR ''9'')
     \<or> c \<in> set ''./:-''"

definition scope_ok :: "string \<Rightarrow> bool" where
  "scope_ok s \<longleftrightarrow>
     has_prefix s ''https://'' \<and> trim_prefix s ''https://'' \<noteq> [] \<and> list_all scope_char (trim_prefix s ''https://'')"

text \<open>
  loadSkills and loadTools, which differ in their flag, their words, how a directory loads and the
  names. \<open>seen\<close> is where a name was found before.
\<close>

fun claim_names ::
  "string \<Rightarrow> string \<Rightarrow> string \<Rightarrow> ('a \<Rightarrow> string) \<Rightarrow> 'a list \<Rightarrow> (string \<times> string) list \<Rightarrow> err + (string \<times> string) list" where
  "claim_names flag kind dir name [] seen = Inr seen"
| "claim_names flag kind dir name (x # xs) seen =
     (case map_of seen (name x) of
        Some prev \<Rightarrow> Inl (Msg (flag @ '' '' @ dir @ '': '' @ kind @ '' '' @ quote (name x) @ '' is also in '' @ prev))
      | None \<Rightarrow> claim_names flag kind dir name xs ((name x, dir) # seen))"

fun load_dirs ::
  "string \<Rightarrow> string \<Rightarrow> string \<Rightarrow> ('a \<Rightarrow> string) \<Rightarrow> (string \<Rightarrow> err + 'a list) \<Rightarrow> string list \<Rightarrow> (string \<times> string) list
    \<Rightarrow> err + 'a list" where
  "load_dirs flag kind none name load [] seen = Inr []"
| "load_dirs flag kind none name load (dir # dirs) seen =
     (case load dir of
        Inl e \<Rightarrow> Inl (wrap (flag @ '' '' @ dir) e)
      | Inr xs \<Rightarrow>
          if xs = [] then Inl (Msg (flag @ '' '' @ dir @ '': '' @ none))
          else case claim_names flag kind dir name xs seen of
            Inl e \<Rightarrow> Inl e
          | Inr seen \<Rightarrow> map_sum id ((@) xs) (load_dirs flag kind none name load dirs seen))"

definition load_skills :: "(string \<Rightarrow> err + skill list) \<Rightarrow> string list \<Rightarrow> err + skill list" where
  "load_skills load dirs =
     load_dirs ''--skills'' ''skill'' ''no skills: no subdirectory holds a SKILL.md'' sk_name load dirs []"

definition load_tools :: "(string \<Rightarrow> err + tool list) \<Rightarrow> string list \<Rightarrow> err + tool list" where
  "load_tools load dirs =
     load_dirs ''--tools'' ''tool'' ''no command tools: no subdirectory holds a tool.json'' tl_name load dirs []"

definition cfg_validate ::
  "(string \<Rightarrow> err + skill list) \<Rightarrow> (string \<Rightarrow> err + tool list) \<Rightarrow> config \<Rightarrow> err + skill list \<times> tool list" where
  "cfg_validate skills_in tools_in cfg =
     (case find_harness (cg_harness cfg) of
        Inl e \<Rightarrow> Inl e
      | Inr _ \<Rightarrow>
          (case find_target (cg_target cfg) of
             Inl e \<Rightarrow> Inl e
           | Inr _ \<Rightarrow>
               if cfg_provider cfg = provider_azure \<and> \<not> scope_ok (cg_azure_scope cfg)
               then Inl (Msg (''--azure-scope '' @ quote (cg_azure_scope cfg) @ '': want an https URL of letters, digits, and . - / : only''))
               else case load_skills skills_in (cg_skills cfg) of
                 Inl e \<Rightarrow> Inl e
               | Inr skills \<Rightarrow>
                   (case load_tools tools_in (cg_tools cfg) of Inl e \<Rightarrow> Inl e | Inr tools \<Rightarrow> Inr (skills, tools))))"

section \<open>Drivers\<close>

definition azure_key :: "string \<Rightarrow> string" where
  "azure_key scope = ''!az account get-access-token --resource '' @ scope @ '' --query accessToken -o tsv''"

definition pi_driver_of :: "(string \<Rightarrow> string) \<Rightarrow> (string \<Rightarrow> string \<Rightarrow> string) \<Rightarrow> config \<Rightarrow> pi_driver" where
  "pi_driver_of env path cfg =
     (let d = \<lparr>pd_command = [], pd_session_dir = path (cg_state cfg) ''pi'', pd_env = [], pd_agent_dir = [],
               pd_providers = [], pd_catalog_wait = 0\<rparr>;
          takes = (\<lambda>m. \<lparr>pi_model_id = m, pi_image = True, pi_reasoning = True\<rparr>) in
      if cfg_provider cfg = provider_azure
      then d\<lparr>pd_agent_dir := path (cg_state cfg) ''pi-agent'',
             pd_providers := [(provider_azure,
               \<lparr>pi_base_url = env ''AZURE_OPENAI_BASE_URL'', pi_api = [], pi_api_key = azure_key (cg_azure_scope cfg),
                pi_models = takes (cfg_model cfg) # (if harness_vision cfg \<noteq> cfg_model cfg then [takes (harness_vision cfg)] else [])\<rparr>)]\<rparr>
      else d)"

text \<open>openCodeProviders, with what fetching a token answers.\<close>

definition oc_providers_of :: "(string \<Rightarrow> string) \<Rightarrow> err + string \<Rightarrow> config \<Rightarrow> err + (string \<times> oc_provider) list" where
  "oc_providers_of env token cfg =
     (let takes = \<lparr>om_image = True, om_context = 0, om_output = 0\<rparr>; vision = harness_vision cfg;
          llama = (llama_provider,
            \<lparr>ov_npm = [], ov_base_url = trim_suffix (env ''LLAMA_BASE_URL'') ''/'' @ ''/v1'', ov_api_key = [], ov_headers = [],
             ov_models = [(vision, takes)]\<rparr>) in
      if cfg_provider cfg = provider_azure
      then (case token of
              Inl e \<Rightarrow> Inl e
            | Inr t \<Rightarrow>
                Inr [llama, (provider_azure,
                  \<lparr>ov_npm = ''@ai-sdk/openai'', ov_base_url = env ''AZURE_OPENAI_BASE_URL'', ov_api_key = t, ov_headers = [],
                   ov_models = AList.update vision takes [(cfg_model cfg, takes)]\<rparr>)])
      else Inr [llama])"

definition oc_driver_of ::
  "(string \<Rightarrow> string) \<Rightarrow> (string \<Rightarrow> string \<Rightarrow> string) \<Rightarrow> err + string \<Rightarrow> config \<Rightarrow> err + oc_driver" where
  "oc_driver_of env path token cfg =
     map_sum id (\<lambda>ps. \<lparr>od_command = [], od_state_dir = path (cg_state cfg) ''opencode'',
        od_cache_dir = path (cg_state cfg) ''cache'', od_providers = ps, od_env = []\<rparr>)
      (oc_providers_of env token cfg)"

definition claude_driver_of :: "(string \<Rightarrow> string \<Rightarrow> string) \<Rightarrow> config \<Rightarrow> claude_driver" where
  "claude_driver_of path cfg =
     \<lparr>cd_command = [], cd_config_dir = [], cd_cache_dir = path (cg_state cfg) ''cache'', cd_env = []\<rparr>"

section \<open>Needs\<close>

text \<open>A need is what it requires and what its check answers.\<close>

definition need_when :: "bool \<Rightarrow> bool \<Rightarrow> string" where
  "need_when provider target =
     join '' or '' ((if provider then [''the provider''] else []) @ (if target then [''the target''] else []))"

definition azure_needs :: "(string \<Rightarrow> string) \<Rightarrow> (string \<Rightarrow> err option) \<Rightarrow> config \<Rightarrow> bool \<Rightarrow> bool \<Rightarrow> (string \<times> err option) list" where
  "azure_needs env look cfg provider target =
     (let used = (provider \<and> cfg_provider cfg = provider_azure) \<or> (target \<and> cg_target cfg = provider_azure);
          when = need_when provider target in
      [(''AZURE_OPENAI_BASE_URL set when '' @ when @ '' is azure'',
        if used \<and> env ''AZURE_OPENAI_BASE_URL'' = [] then Some (Msg ''AZURE_OPENAI_BASE_URL is not set'') else None),
       (''the Azure CLI, az, on the PATH when '' @ when @ '' is azure'', if used then look ''az'' else None)])"

definition llama_need :: "(string \<Rightarrow> string) \<Rightarrow> config \<Rightarrow> bool \<Rightarrow> bool \<Rightarrow> string \<times> err option" where
  "llama_need env cfg provider target =
     (let used = (provider \<and> cfg_provider cfg = llama_provider) \<or> (target \<and> cg_target cfg = llama_provider) in
      (''LLAMA_BASE_URL set when '' @ need_when provider target @ '' is llama.cpp'',
       if used \<and> env ''LLAMA_BASE_URL'' = [] then Some (Msg ''LLAMA_BASE_URL is not set'') else None))"

record clutch_needs =
  nd_harness :: "(string \<times> err option) list"
  nd_models :: "(string \<times> err option) list"
  nd_both :: "(string \<times> err option) list"

definition cfg_needs :: "(string \<Rightarrow> string) \<Rightarrow> (string \<Rightarrow> err option) \<Rightarrow> config \<Rightarrow> clutch_needs" where
  "cfg_needs env look cfg =
     (let executable = (''the harness executable on the PATH'', look (hs_command (cfg_spec cfg))) in
      \<lparr>nd_harness = [executable, llama_need env cfg True False] @ azure_needs env look cfg True False,
       nd_models = llama_need env cfg False True # azure_needs env look cfg False True,
       nd_both = [executable, llama_need env cfg True True] @ azure_needs env look cfg True True\<rparr>)"

section \<open>Direct clients\<close>

record direct_models =
  dm_target :: string
  dm_chat :: model_client
  dm_audio :: model_client
  dm_vision_model :: string
  dm_embed_model :: string
  dm_audio_model :: string
  dm_audio_in_chat :: bool
  dm_harness_vision :: string
  dm_default_takes_images :: bool

text \<open>\<open>escape\<close> is url.PathEscape.\<close>

definition azure_audio_base :: "(string \<Rightarrow> string) \<Rightarrow> string \<Rightarrow> string \<Rightarrow> err + string" where
  "azure_audio_base escape base deployment =
     (let root = trim_suffix base ''/'' in
      if has_suffix root ''/v1'' then Inr (trim_suffix root ''/v1'' @ ''/deployments/'' @ escape deployment)
      else Inl (Msg (''AZURE_OPENAI_BASE_URL '' @ quote base @ '' doesn'' @ [CHR 0x27] @ ''t end in /v1'')))"

text \<open>Models: \<open>parse\<close> is url.Parse.\<close>

definition models_of ::
  "(string \<Rightarrow> string) \<Rightarrow> (string \<Rightarrow> string) \<Rightarrow> (string \<Rightarrow> err + url_parts) \<Rightarrow> config \<Rightarrow> err + direct_models" where
  "models_of env escape parse cfg =
     (case find_target (cg_target cfg) of
        Inl e \<Rightarrow> Inl e
      | Inr t \<Rightarrow>
          (let audio_model = or_else (cg_audio_model cfg) (tg_audio t);
               m = (\<lambda>mc ma. \<lparr>dm_target = cg_target cfg, dm_chat = mc, dm_audio = ma,
                      dm_vision_model = or_else (cg_vision_model cfg) (tg_vision t),
                      dm_embed_model = or_else (cg_embed_model cfg) (tg_embed t), dm_audio_model = audio_model,
                      dm_audio_in_chat = tg_audio_in_chat t, dm_harness_vision = harness_vision cfg,
                      dm_default_takes_images = default_takes_images cfg\<rparr>) in
           if tg_name t = llama_provider then
             (let base = env ''LLAMA_BASE_URL'' in
              if base = [] then Inl (Msg ''LLAMA_BASE_URL is not set'')
              else map_sum id (\<lambda>c. m c c) (new_model True parse (trim_suffix base ''/'' @ ''/v1'') []))
           else
             (let base = env ''AZURE_OPENAI_BASE_URL'' in
              if base = [] then Inl (Msg ''AZURE_OPENAI_BASE_URL is not set'')
              else case new_model True parse base [] of
                Inl e \<Rightarrow> Inl e
              | Inr mc \<Rightarrow>
                  (case azure_audio_base escape base audio_model of
                     Inl e \<Rightarrow> Inl e
                   | Inr audio \<Rightarrow> map_sum id (m mc) (new_model True parse audio ''api-version=2025-04-01-preview'')))))"

section \<open>The token\<close>

fun trim_quotes_left :: "string \<Rightarrow> string" where
  "trim_quotes_left [] = []"
| "trim_quotes_left (c # s) = (if c = CHR 0x22 then trim_quotes_left s else c # s)"

definition trim_quotes :: "string \<Rightarrow> string" where
  "trim_quotes s = rev (trim_quotes_left (rev (trim_quotes_left s)))"

text \<open>parseAzToken: \<open>local\<close> parses az's expiresOn.\<close>

definition parse_az_token :: "(string \<Rightarrow> time option) \<Rightarrow> string \<Rightarrow> err + string \<times> time" where
  "parse_az_token local out =
     (case unmarshal_struct out \<bind> (\<lambda>ms. do {
              t \<leftarrow> str_field ''accessToken'' ms; e \<leftarrow> str_field ''expiresOn'' ms; Some (t, e, raw_field ''expires_on'' ms) }) of
        None \<Rightarrow> Inl (Msg (''the output isn'' @ [CHR 0x27] @ ''t the JSON of a token''))
      | Some (t, e, raw) \<Rightarrow>
          if t = [] then Inl (Msg ''the output has no accessToken'')
          else if trim_quotes raw \<noteq> [] then
            (case parse_int (trim_quotes raw) of
               None \<Rightarrow> Inl (Msg (''expires_on '' @ quote (trim_quotes raw) @ '' isn'' @ [CHR 0x27] @ ''t seconds since the epoch''))
             | Some sec \<Rightarrow> Inr (t, unix_time sec))
          else if e \<noteq> [] then
            (case local e of
               None \<Rightarrow> Inl (Msg (''expiresOn '' @ quote e @ '' isn'' @ [CHR 0x27] @ ''t a time''))
             | Some u \<Rightarrow> Inr (t, u))
          else Inl (Msg ''the output has no expiry''))"

record azure_token =
  at_token :: string
  at_expires :: time

definition token_margin :: int where
  "token_margin = 5 * 60 * 10 ^ 9"

text \<open>Token, at \<open>now\<close>, with what az answers: the state, the answer and whether az ran.\<close>

definition azure_token_get ::
  "(string \<Rightarrow> time option) \<Rightarrow> time \<Rightarrow> err + string \<Rightarrow> azure_token \<Rightarrow> azure_token \<times> (err + string) \<times> bool" where
  "azure_token_get local now out a =
     (if at_token a \<noteq> [] \<and> now < at_expires a - token_margin then (a, Inr (at_token a), False)
      else case out of
        Inl e \<Rightarrow> (a, Inl (wrap ''az account get-access-token'' e), True)
      | Inr s \<Rightarrow>
          (case parse_az_token local s of
             Inl e \<Rightarrow> (a, Inl (wrap ''az account get-access-token'' e), True)
           | Inr (t, ex) \<Rightarrow> (\<lparr>at_token = t, at_expires = ex\<rparr>, Inr t, True)))"

text \<open>A series of calls, and how often az ran.\<close>

fun azure_token_calls :: "(string \<Rightarrow> time option) \<Rightarrow> (time \<times> (err + string)) list \<Rightarrow> azure_token \<Rightarrow> (err + string) list \<times> nat" where
  "azure_token_calls local [] a = ([], 0)"
| "azure_token_calls local ((now, out) # cs) a =
     (case azure_token_get local now out a of
        (a, r, fetched) \<Rightarrow> (case azure_token_calls local cs a of (rs, n) \<Rightarrow> (r # rs, (if fetched then 1 else 0) + n)))"

section \<open>What a validated configuration gives\<close>

lemma claim_names_distinct:
  "claim_names flag kind dir name xs seen = Inr seen' \<Longrightarrow>
     distinct (map name xs) \<and> set (map name xs) \<inter> dom (map_of seen) = {}
     \<and> dom (map_of seen') = set (map name xs) \<union> dom (map_of seen)"
proof (induction xs arbitrary: seen)
  case (Cons x xs)
  then have "map_of seen (name x) = None" "claim_names flag kind dir name xs ((name x, dir) # seen) = Inr seen'"
    by (auto split: option.splits)
  with Cons.IH[OF this(2)] show ?case by auto
qed simp

lemma load_dirs_distinct:
  "load_dirs flag kind none name load dirs seen = Inr xs \<Longrightarrow>
     distinct (map name xs) \<and> set (map name xs) \<inter> dom (map_of seen) = {}"
proof (induction dirs arbitrary: seen xs)
  case (Cons dir dirs)
  then obtain ys seen' zs where "claim_names flag kind dir name ys seen = Inr seen'"
      "load_dirs flag kind none name load dirs seen' = Inr zs" "xs = ys @ zs"
    by (auto simp: map_sum_Inr split: sum.splits if_splits)
  with claim_names_distinct[OF this(1)] Cons.IH[OF this(2)] show ?case by auto
qed simp

lemma validated_names_distinct:
  "cfg_validate skills_in tools_in cfg = Inr (skills, tools) \<Longrightarrow>
     distinct (map sk_name skills) \<and> distinct (map tl_name tools)"
  by (auto simp: cfg_validate_def load_skills_def load_tools_def dest: load_dirs_distinct split: sum.splits if_splits)

text \<open>A character a shell reads as itself, or the space between words.\<close>

definition shell_plain :: "char \<Rightarrow> bool" where
  "shell_plain c \<longleftrightarrow> scope_char c \<or> c = CHR '' ''"

lemma prefix_trim: "has_prefix s p \<Longrightarrow> p @ trim_prefix s p = s"
  by (simp add: has_prefix_def trim_prefix_def) (metis append_take_drop_id)

lemma scope_ok_chars: "scope_ok s \<Longrightarrow> list_all scope_char s"
proof -
  have h: "list_all scope_char ''https://''" by code_simp
  assume "scope_ok s"
  then have "''https://'' @ trim_prefix s ''https://'' = s" "list_all scope_char (trim_prefix s ''https://'')"
    by (auto simp only: scope_ok_def intro: prefix_trim)
  with h show ?thesis by (metis list_all_append)
qed

text \<open>
  C26: the command a validated configuration gives Pi as its Azure key has, after the mark that makes
  it one, only characters a shell reads as themselves, whatever the flags: the scope cannot add a
  command.
\<close>

theorem azure_key_safe:
  assumes "cfg_validate skills_in tools_in cfg = Inr st"
    and "(i, p) \<in> set (pd_providers (pi_driver_of env path cfg))"
  shows "hd (pi_api_key p) = CHR ''!'' \<and> list_all shell_plain (tl (pi_api_key p))"
proof -
  have az: "cfg_provider cfg = provider_azure" and key: "pi_api_key p = azure_key (cg_azure_scope cfg)"
    using assms(2) by (auto simp: pi_driver_of_def Let_def split: if_splits)
  have "scope_ok (cg_azure_scope cfg)" using assms(1) az by (auto simp: cfg_validate_def split: sum.splits if_splits)
  then have "list_all shell_plain (cg_azure_scope cfg)"
    using scope_ok_chars by (auto simp: list_all_iff shell_plain_def)
  moreover have "list_all shell_plain ''az account get-access-token --resource ''"
    "list_all shell_plain '' --query accessToken -o tsv''" by code_simp+
  ultimately show ?thesis by (simp add: key azure_key_def)
qed

definition azure_config :: config where
  "azure_config =
     \<lparr>cg_harness = ''pi'', cg_provider = ''azure'', cg_model = [], cg_state = ''/s'', cg_skills = [], cg_tools = [],
      cg_target = ''llama.cpp'', cg_vision_model = [], cg_embed_model = [], cg_audio_model = [], cg_harness_vision = [],
      cg_azure_scope = ''https://ai.azure.com''\<rparr>"

lemma azure_key_safe_witness:
  "list_all shell_plain (tl (azure_key ''https://ai.azure.com''))"
proof -
  have ok: "cfg_validate (\<lambda>_. Inr []) (\<lambda>_. Inr []) azure_config = Inr ([], [])"
  proof -
    have "\<not> isl (find_harness ''pi'')" "\<not> isl (find_target ''llama.cpp'')" "scope_ok ''https://ai.azure.com''" by code_simp+
    then show ?thesis by (auto simp: cfg_validate_def load_skills_def load_tools_def azure_config_def split: sum.splits)
  qed
  obtain i p where ip: "(i, p) \<in> set (pd_providers (pi_driver_of (\<lambda>_. []) (\<lambda>a b. a @ ''/'' @ b) azure_config))"
      and key: "pi_api_key p = azure_key ''https://ai.azure.com''"
    by (simp add: pi_driver_of_def azure_config_def cfg_provider_def or_else_def provider_azure_def Let_def)
  show ?thesis using azure_key_safe[OF ok ip] by (simp add: key)
qed

section \<open>When a token is fetched\<close>

text \<open>What Token answers without az has the margin left; az's token is the one it keeps.\<close>

lemma azure_token_fresh:
  "azure_token_get local now out a = (a', Inr t, fetched) \<Longrightarrow>
     at_token a' = t \<and> (if fetched then \<exists>s. out = Inr s \<and> parse_az_token local s = Inr (t, at_expires a')
                        else a' = a \<and> now < at_expires a - token_margin)"
  by (auto simp: azure_token_get_def split: if_splits sum.splits)

lemma parsed_token: "parse_az_token local s = Inr (t, ex) \<Longrightarrow> t \<noteq> []"
  by (auto simp: parse_az_token_def split: option.splits if_splits)

text \<open>Calls before the margin of a token's expiry all answer that token, and az runs for none of them.\<close>

theorem azure_token_once:
  assumes "at_token a \<noteq> []" "\<forall>c \<in> set cs. fst c < at_expires a - token_margin"
  shows "azure_token_calls local cs a = (replicate (length cs) (Inr (at_token a)), 0)"
  using assms by (induction cs) (auto simp: azure_token_get_def)

end
